(* ===== verification/Prelude.thy ===== *)
theory Prelude
  imports Main "HOL-Library.AList" "HOL-Library.Multiset" "HOL-Library.Char_ord"
    "HOL-Library.List_Lexorder" "HOL-Library.Sublist" "HOL-Library.Word"
begin

text \<open>
  Shared vocabulary of the development: Go maps with their iteration order, the functions of
  package \<open>strings\<close> that the program calls (on byte strings), decimal printing, and
  \<open>time.Time\<close>/\<open>time.Duration\<close> as integers counting nanoseconds.

  A Go map is an association list with distinct keys. The order of the list stands for the
  order in which one particular \<open>range\<close> loop visits the entries. Go leaves that order open, so
  a result that must not depend on it is proved for every permutation of the list, and a loop
  whose result does depend on it is run over an arbitrary permutation.
\<close>

named_theorems gomap_simps \<open>rewriting facts about Go maps\<close>
named_theorems wf_intros \<open>introduction rules for the well-formedness invariants\<close>

section \<open>Go maps\<close>

type_synonym ('k, 'v) gomap = "('k \<times> 'v) list"

abbreviation gput :: "'k \<Rightarrow> 'v \<Rightarrow> ('k, 'v) gomap \<Rightarrow> ('k, 'v) gomap" where
  "gput \<equiv> AList.update"

abbreviation gdel :: "'k \<Rightarrow> ('k, 'v) gomap \<Rightarrow> ('k, 'v) gomap" where
  "gdel \<equiv> AList.delete"

abbreviation gwf :: "('k, 'v) gomap \<Rightarrow> bool" where
  "gwf m \<equiv> distinct (map fst m)"

text \<open>\<open>m[k]\<close> where Go yields the zero value of the element type for an absent key.\<close>

definition gget :: "'v \<Rightarrow> ('k, 'v) gomap \<Rightarrow> 'k \<Rightarrow> 'v" where
  "gget zero m k = (case map_of m k of None \<Rightarrow> zero | Some v \<Rightarrow> v)"

text \<open>\<open>maps.Copy(dst, src)\<close>: every entry of the source is stored in the destination.\<close>

definition maps_copy :: "('k, 'v) gomap \<Rightarrow> ('k, 'v) gomap \<Rightarrow> ('k, 'v) gomap" where
  "maps_copy dst src = fold (\<lambda>(k, v) m. gput k v m) src dst"

declare map_of_eq_Some_iff [simp del]

lemma map_of_gput [simp]: "map_of (gput k v m) = (map_of m)(k \<mapsto> v)"
  by (simp add: AList.update_conv')

lemma gwf_gput [simp, wf_intros]: "gwf m \<Longrightarrow> gwf (gput k v m)"
  by (rule AList.distinct_update)

lemma gwf_gdel [simp, wf_intros]: "gwf m \<Longrightarrow> gwf (gdel k m)"
  by (rule AList.distinct_delete)

lemma set_map_fst_gput [simp]: "fst ` set (gput k v m) = insert k (fst ` set m)"
  by (simp add: AList.dom_update)

lemma gput_new: "k \<notin> fst ` set m \<Longrightarrow> gput k v m = m @ [(k, v)]"
  by (induction m) auto

lemma mem_gput:
  "gwf m \<Longrightarrow> (k', v') \<in> set (gput k v m) \<longleftrightarrow>
     (if k' = k then v' = v else (k', v') \<in> set m)"
  using map_of_eq_Some_iff [of m k' v'] map_of_eq_Some_iff [OF gwf_gput, of m k v k' v']
  by auto

lemma length_gput: "length (gput k v m) = (if k \<in> fst ` set m then length m else Suc (length m))"
  by (induction m) auto

lemma gget_None [gomap_simps]: "map_of m k = None \<Longrightarrow> gget z m k = z"
  by (simp add: gget_def)

lemma gget_Some [gomap_simps]: "map_of m k = Some v \<Longrightarrow> gget z m k = v"
  by (simp add: gget_def)

lemma map_of_perm: "mset m = mset m' \<Longrightarrow> gwf m \<Longrightarrow> map_of m = map_of m'"
proof -
  assume m: "mset m = mset m'" and d: "gwf m"
  from m have "mset (map fst m) = mset (map fst m')" by simp
  with d have d': "gwf m'" using mset_eq_imp_distinct_iff by blast
  have "set m = set m'" using m by (metis set_mset_mset)
  with d d' show "map_of m = map_of m'" by (metis map_of_inject_set)
qed

lemma gwf_perm: "mset m = mset m' \<Longrightarrow> gwf m = gwf m'"
  by (metis mset_eq_imp_distinct_iff mset_map)

lemma gwf_fold_gput: "gwf m \<Longrightarrow> gwf (fold (\<lambda>(k, v) m. gput k v m) src m)"
  by (induction src arbitrary: m) auto

lemma gwf_maps_copy [simp, wf_intros]: "gwf dst \<Longrightarrow> gwf (maps_copy dst src)"
  by (simp add: maps_copy_def gwf_fold_gput)

lemma map_of_maps_copy [gomap_simps]:
  "gwf src \<Longrightarrow> map_of (maps_copy dst src) = map_of dst ++ map_of src"
proof (induction src arbitrary: dst)
  case Nil
  then show ?case by (simp add: maps_copy_def)
next
  case (Cons p src)
  obtain k v where p: "p = (k, v)" by force
  from Cons.prems p have "gwf src" and k: "k \<notin> dom (map_of src)"
    by (auto simp: dom_map_of_conv_image_fst)
  then have "map_of (maps_copy dst (p # src)) = (map_of dst)(k \<mapsto> v) ++ map_of src"
    using Cons.IH [of "gput k v dst"] p by (simp add: maps_copy_def fun_upd_def)
  also have "\<dots> = map_of dst ++ map_of (p # src)"
    using k p by (auto simp: map_add_def fun_eq_iff dom_def split: option.splits)
  finally show ?case .
qed

lemma maps_copy_empty_append:
  "gwf (pre @ src) \<Longrightarrow> maps_copy pre src = pre @ src"
proof (induction src arbitrary: pre)
  case Nil
  then show ?case by (simp add: maps_copy_def)
next
  case (Cons p src)
  obtain k v where p: "p = (k, v)" by force
  with Cons.prems have "gput k v pre = pre @ [(k, v)]" by (intro gput_new) force
  with Cons.IH [of "pre @ [(k, v)]"] Cons.prems p show ?case by (simp add: maps_copy_def)
qed

lemma maps_copy_empty [simp]: "gwf src \<Longrightarrow> maps_copy [] src = src"
  using maps_copy_empty_append [of "[]" src] by simp

lemma maps_copy_Nil [simp]: "maps_copy m [] = m"
  by (simp add: maps_copy_def)

section \<open>Package strings\<close>

definition trim_prefix :: "string \<Rightarrow> string \<Rightarrow> string" where
  "trim_prefix s p = (if take (length p) s = p then drop (length p) s else s)"

definition has_suffix :: "string \<Rightarrow> string \<Rightarrow> bool" where
  "has_suffix s p \<longleftrightarrow> length p \<le> length s \<and> drop (length s - length p) s = p"

definition trim_suffix :: "string \<Rightarrow> string \<Rightarrow> string" where
  "trim_suffix s p = (if has_suffix s p then take (length s - length p) s else s)"

text \<open>\<open>strings.TrimRight(s, cutset)\<close> for an ASCII cutset.\<close>

definition trim_right :: "string \<Rightarrow> string \<Rightarrow> string" where
  "trim_right s cutset = rev (dropWhile (\<lambda>c. c \<in> set cutset) (rev s))"

text \<open>\<open>strings.Split(s, sep)\<close> for a separator of one byte.\<close>

fun split_on :: "char \<Rightarrow> string \<Rightarrow> string list" where
  "split_on c [] = [[]]"
| "split_on c (x # xs) =
     (if x = c then [] # split_on c xs
      else (case split_on c xs of [] \<Rightarrow> [[x]] | p # ps \<Rightarrow> (x # p) # ps))"

fun join :: "string \<Rightarrow> string list \<Rightarrow> string" where
  "join sep [] = []"
| "join sep [s] = s"
| "join sep (s # ss) = s @ sep @ join sep ss"

text \<open>\<open>strings.Cut(s, sep)\<close> for a separator of one byte: the parts around its first occurrence.\<close>

fun cut :: "char \<Rightarrow> string \<Rightarrow> (string \<times> string) option" where
  "cut c [] = None"
| "cut c (x # xs) =
     (if x = c then Some ([], xs) else map_option (\<lambda>(a, b). (x # a, b)) (cut c xs))"

text \<open>
  \<open>strings.TrimSpace\<close> removes the runes with the Unicode White\_Space property. The leading
  ones are recognised by their UTF-8 bytes; \<open>drop_space_rev\<close> does the same on the reversed
  string, so its patterns are the reversed byte sequences.
\<close>

definition ascii_space :: "char \<Rightarrow> bool" where
  "ascii_space c \<longleftrightarrow> c \<in> {CHR 0x09, CHR 0x0A, CHR 0x0B, CHR 0x0C, CHR 0x0D, CHR 0x20}"

definition space2 :: "char \<Rightarrow> char \<Rightarrow> bool" where
  "space2 a b \<longleftrightarrow> a = CHR 0xC2 \<and> (b = CHR 0x85 \<or> b = CHR 0xA0)"

definition space3 :: "char \<Rightarrow> char \<Rightarrow> char \<Rightarrow> bool" where
  "space3 a b c \<longleftrightarrow>
     (a = CHR 0xE1 \<and> b = CHR 0x9A \<and> c = CHR 0x80) \<or>
     (a = CHR 0xE2 \<and> b = CHR 0x80 \<and>
        c \<in> {CHR 0x80, CHR 0x81, CHR 0x82, CHR 0x83, CHR 0x84, CHR 0x85, CHR 0x86, CHR 0x87,
             CHR 0x88, CHR 0x89, CHR 0x8A, CHR 0xA8, CHR 0xA9, CHR 0xAF}) \<or>
     (a = CHR 0xE2 \<and> b = CHR 0x81 \<and> c = CHR 0x9F) \<or>
     (a = CHR 0xE3 \<and> b = CHR 0x80 \<and> c = CHR 0x80)"

fun drop_space :: "string \<Rightarrow> string" where
  "drop_space [] = []"
| "drop_space [a] = (if ascii_space a then [] else [a])"
| "drop_space [a, b] =
     (if ascii_space a then drop_space [b] else if space2 a b then [] else [a, b])"
| "drop_space (a # b # c # s) =
     (if ascii_space a then drop_space (b # c # s)
      else if space2 a b then drop_space (c # s)
      else if space3 a b c then drop_space s
      else a # b # c # s)"

fun drop_space_rev :: "string \<Rightarrow> string" where
  "drop_space_rev [] = []"
| "drop_space_rev [a] = (if ascii_space a then [] else [a])"
| "drop_space_rev [b, a] =
     (if ascii_space b then drop_space_rev [a] else if space2 a b then [] else [b, a])"
| "drop_space_rev (c # b # a # s) =
     (if ascii_space c then drop_space_rev (b # a # s)
      else if space2 b c then drop_space_rev (a # s)
      else if space3 a b c then drop_space_rev s
      else c # b # a # s)"

definition trim_space :: "string \<Rightarrow> string" where
  "trim_space s = rev (drop_space_rev (rev (drop_space s)))"

text \<open>
  \<open>strings.ToLower\<close>. The program compares its result with ASCII literals only, so the model
  maps exactly the runes whose lower case is an ASCII letter: \<open>A\<close> to \<open>Z\<close>, U+0130 (bytes C4 B0,
  to \<open>i\<close>) and U+212A (bytes E2 84 AA, to \<open>k\<close>); other bytes are left as they are.
\<close>

definition lower_char :: "char \<Rightarrow> char" where
  "lower_char c = (let n = (of_char c :: nat) in
     if 65 \<le> n \<and> n \<le> 90 then char_of (n + 32) else c)"

fun to_lower :: "string \<Rightarrow> string" where
  "to_lower [] = []"
| "to_lower [a] = [lower_char a]"
| "to_lower [a, b] =
     (if a = CHR 0xC4 \<and> b = CHR 0xB0 then [CHR ''i''] else lower_char a # to_lower [b])"
| "to_lower (a # b # c # s) =
     (if a = CHR 0xC4 \<and> b = CHR 0xB0 then CHR ''i'' # to_lower (c # s)
      else if a = CHR 0xE2 \<and> b = CHR 0x84 \<and> c = CHR 0xAA then CHR ''k'' # to_lower s
      else lower_char a # to_lower (b # c # s))"

text \<open>The verb \<open>%d\<close> of \<open>fmt.Sprintf\<close> for a count.\<close>

fun itoa :: "nat \<Rightarrow> string" where
  "itoa n = (if n < 10 then [''0123456789'' ! n]
             else itoa (n div 10) @ [''0123456789'' ! (n mod 10)])"

declare itoa.simps [simp del]

lemma itoa_small [simp]: "n < 10 \<Longrightarrow> itoa n = [''0123456789'' ! n]"
  by (subst itoa.simps) simp

lemma itoa_nonempty [simp]: "itoa n \<noteq> []"
  by (subst itoa.simps) simp

lemma split_on_nonempty [simp]: "split_on c s \<noteq> []"
  by (induction s) (auto split: list.splits)

lemma join_Cons: "ss \<noteq> [] \<Longrightarrow> join sep (s # ss) = s @ sep @ join sep ss"
  by (cases ss) auto

lemma join_split_on: "join [c] (split_on c s) = s"
proof (induction s)
  case Nil
  then show ?case by simp
next
  case (Cons x s)
  then show ?case
    by (cases "split_on c s") (auto simp: join_Cons split: list.splits, metis join.simps(2) join_Cons append_Cons)
qed

lemma split_on_no_sep: "p \<in> set (split_on c s) \<Longrightarrow> c \<notin> set p"
proof (induction s arbitrary: p)
  case Nil
  then show ?case by simp
next
  case (Cons x s)
  then show ?case
    by (cases "split_on c s") (auto split: if_splits)
qed

lemma cut_append: "c \<notin> set a \<Longrightarrow> cut c (a @ c # b) = Some (a, b)"
  by (induction a) auto

lemma cut_None_iff: "cut c s = None \<longleftrightarrow> c \<notin> set s"
  by (induction s) auto

lemma cut_SomeD: "cut c s = Some (a, b) \<Longrightarrow> s = a @ c # b \<and> c \<notin> set a"
  by (induction s arbitrary: a) (auto split: if_splits)

section \<open>Time\<close>

text \<open>
  \<open>time.Duration\<close> is a signed 64-bit count of nanoseconds. \<open>t.Sub(u)\<close> saturates at the
  bounds of that type.
\<close>

definition max_duration :: int where
  "max_duration = 2 ^ 63 - 1"

definition min_duration :: int where
  "min_duration = - (2 ^ 63)"

definition time_sub :: "int \<Rightarrow> int \<Rightarrow> int" where
  "time_sub t u = max min_duration (min max_duration (t - u))"

definition second :: int where
  "second = 1000000000"

lemma time_sub_gt_iff:
  "min_duration \<le> d \<Longrightarrow> d < max_duration \<Longrightarrow> time_sub t u > d \<longleftrightarrow> t - u > d"
  by (auto simp: time_sub_def max_def min_def)

lemma time_sub_self [simp]: "time_sub t t = 0"
  by (simp add: time_sub_def min_duration_def max_duration_def)

lemma time_sub_mono: "t \<le> t' \<Longrightarrow> time_sub t u \<le> time_sub t' u"
  by (auto simp: time_sub_def max_def min_def)

end
