(* ===== verification/Event.thy ===== *)
theory Event
  imports Prelude
begin

text \<open>
  Package \<open>internal/event\<close>: the wire contract with ArgoCD. A record field per struct field, the
  six error values, and \<open>Event.Validate\<close>. \<open>errors.Join\<close> of no error is \<open>nil\<close>, so an empty list
  stands for success.
\<close>

datatype event_error =
    ErrMissingGroupKey
  | ErrMissingAppName
  | ErrMissingTrigger
  | ErrMissingRevision
  | ErrMissingRecipient
  | ErrMissingBackend

record event =
  evGroupKey :: string
  evAppName :: string
  evTrigger :: string
  evRevision :: string
  evRecipient :: string
  evBackend :: string
  evLabels :: "(string, string) gomap"
  evTarget :: string
  evHealthStatus :: string
  evSyncPhase :: string
  evSyncStatus :: string
  evOperationMsg :: string
  evRepoURL :: string
  evImages :: "string list"
  evInitiatedBy :: string
  evArgoCDURL :: string
  evTargetRevision :: string

text \<open>The zero value \<open>Event{}\<close>, which Go yields for an absent map key.\<close>

definition zero_event :: event where
  "zero_event = \<lparr>evGroupKey = [], evAppName = [], evTrigger = [], evRevision = [],
     evRecipient = [], evBackend = [], evLabels = [], evTarget = [], evHealthStatus = [],
     evSyncPhase = [], evSyncStatus = [], evOperationMsg = [], evRepoURL = [], evImages = [],
     evInitiatedBy = [], evArgoCDURL = [], evTargetRevision = []\<rparr>"

definition event_validate :: "event \<Rightarrow> event_error list" where
  "event_validate e =
     (let errs = [];
          errs = (if evGroupKey e = [] then errs @ [ErrMissingGroupKey] else errs);
          errs = (if evAppName e = [] then errs @ [ErrMissingAppName] else errs);
          errs = (if evTrigger e = [] then errs @ [ErrMissingTrigger] else errs);
          errs = (if evRevision e = [] then errs @ [ErrMissingRevision] else errs);
          errs = (if evRecipient e = [] then errs @ [ErrMissingRecipient] else errs);
          errs = (if evBackend e = [] then errs @ [ErrMissingBackend] else errs)
      in errs)"

text \<open>The specification: which field each error is about, in the order of the struct.\<close>

definition required_fields :: "(event_error \<times> (event \<Rightarrow> string)) list" where
  "required_fields =
     [(ErrMissingGroupKey, evGroupKey), (ErrMissingAppName, evAppName),
      (ErrMissingTrigger, evTrigger), (ErrMissingRevision, evRevision),
      (ErrMissingRecipient, evRecipient), (ErrMissingBackend, evBackend)]"

lemma event_validate_spec:
  "event_validate e = map fst (filter (\<lambda>(err, field). field e = []) required_fields)"
  by (simp add: event_validate_def required_fields_def Let_def)

lemma event_validate_Nil_iff:
  "event_validate e = [] \<longleftrightarrow> (\<forall>(err, field) \<in> set required_fields. field e \<noteq> [])"
  by (auto simp: event_validate_spec filter_empty_conv)

lemma event_validate_NilD:
  assumes "event_validate e = []"
  shows "evGroupKey e \<noteq> []" "evAppName e \<noteq> []" "evTrigger e \<noteq> []" "evRevision e \<noteq> []"
    "evRecipient e \<noteq> []" "evBackend e \<noteq> []"
  using assms by (auto simp: event_validate_Nil_iff required_fields_def)

text \<open>Two events the sample runs of the other theories start from.\<close>

definition sample_event :: "string \<Rightarrow> string \<Rightarrow> event" where
  "sample_event app trigger = zero_event\<lparr>evGroupKey := ''g'', evAppName := app,
     evTrigger := trigger, evRevision := ''r1'', evRecipient := ''ops'', evBackend := ''slack''\<rparr>"

abbreviation created where "created \<equiv> sample_event ''a'' ''on-created''"
abbreviation deployed where "deployed \<equiv> sample_event ''a'' ''on-deployed''"

end
