(* ===== verification/Notification.thy ===== *)
theory Notification
  imports Event
begin

text \<open>
  Package \<open>internal/notification\<close>: the backend-neutral model of a message and \<open>Build\<close>, which
  renders the per-app state of a session into one.
\<close>

section \<open>The domain model\<close>

record field =
  fLabel :: string
  fValue :: string

record item =
  itAppName :: string
  itCluster :: string
  itTrigger :: string
  itCommitURL :: string
  itCommitSHA :: string
  itTargetRevision :: string
  itTriggeredBy :: string
  itImages :: "string list"
  itFields :: "field list"
  itDetailText :: string
  itLink :: string

record notification =
  nSummary :: string
  nItems :: "item list"

definition zero_item :: item where
  "zero_item = \<lparr>itAppName = [], itCluster = [], itTrigger = [], itCommitURL = [],
     itCommitSHA = [], itTargetRevision = [], itTriggeredBy = [], itImages = [],
     itFields = [], itDetailText = [], itLink = []\<rparr>"

datatype build_error = ErrNoEvents

section \<open>The helpers of build.go\<close>

definition orDefault :: "string \<Rightarrow> string \<Rightarrow> string" where
  "orDefault s def = (if s = [] then def else s)"

definition truncate_msg :: "string \<Rightarrow> nat \<Rightarrow> string" where
  "truncate_msg s n = (if length s \<le> n then s else take n s @ ''...'')"

definition cluster :: "event \<Rightarrow> string" where
  "cluster ev = orDefault (evTarget ev) ''?''"

definition argoCDLink :: "event \<Rightarrow> string" where
  "argoCDLink ev = trim_right (evArgoCDURL ev) ''/'' @ ''/applications/'' @ evAppName ev"

definition commitURL :: "event \<Rightarrow> string" where
  "commitURL ev =
     (if evRepoURL ev = [] \<or> evRevision ev = [] then []
      else trim_suffix (evRepoURL ev) ''.git'' @ ''/commit/'' @ evRevision ev)"

definition commitSHA :: "event \<Rightarrow> string" where
  "commitSHA ev =
     (if evRevision ev = [] then ''?''
      else if length (evRevision ev) > 8 then take 8 (evRevision ev)
      else evRevision ev)"

section \<open>One builder per trigger\<close>

definition buildCreatedItem :: "event \<Rightarrow> item" where
  "buildCreatedItem ev = zero_item\<lparr>itAppName := evAppName ev, itCluster := cluster ev,
     itTrigger := evTrigger ev, itTargetRevision := evTargetRevision ev,
     itLink := argoCDLink ev\<rparr>"

definition buildDeletedItem :: "event \<Rightarrow> item" where
  "buildDeletedItem ev = zero_item\<lparr>itAppName := evAppName ev, itCluster := cluster ev,
     itTrigger := evTrigger ev, itTargetRevision := evTargetRevision ev\<rparr>"

definition buildDeployedItem :: "event \<Rightarrow> item" where
  "buildDeployedItem ev = zero_item\<lparr>itAppName := evAppName ev, itCluster := cluster ev,
     itTrigger := evTrigger ev, itCommitURL := commitURL ev, itCommitSHA := commitSHA ev,
     itTargetRevision := evTargetRevision ev,
     itTriggeredBy := orDefault (evInitiatedBy ev) ''auto-sync'',
     itImages := evImages ev, itLink := argoCDLink ev\<rparr>"

definition buildSyncFailedItem :: "event \<Rightarrow> item" where
  "buildSyncFailedItem ev = zero_item\<lparr>itAppName := evAppName ev, itCluster := cluster ev,
     itTrigger := evTrigger ev, itTargetRevision := evTargetRevision ev,
     itFields := [\<lparr>fLabel = ''Phase'', fValue = evSyncPhase ev\<rparr>],
     itDetailText := truncate_msg (evOperationMsg ev) 300, itLink := argoCDLink ev\<rparr>"

definition buildHealthDegradedItem :: "event \<Rightarrow> item" where
  "buildHealthDegradedItem ev = zero_item\<lparr>itAppName := evAppName ev, itCluster := cluster ev,
     itTrigger := evTrigger ev, itTargetRevision := evTargetRevision ev,
     itFields := [\<lparr>fLabel = ''Health'', fValue = '':large_yellow_circle: Degraded''\<rparr>],
     itLink := argoCDLink ev\<rparr>"

definition buildSyncRunningItem :: "event \<Rightarrow> item" where
  "buildSyncRunningItem ev = zero_item\<lparr>itAppName := evAppName ev, itCluster := cluster ev,
     itTrigger := evTrigger ev, itCommitURL := commitURL ev, itCommitSHA := commitSHA ev,
     itTargetRevision := evTargetRevision ev,
     itTriggeredBy := orDefault (evInitiatedBy ev) ''auto-sync'', itLink := argoCDLink ev\<rparr>"

definition buildSyncStatusUnknownItem :: "event \<Rightarrow> item" where
  "buildSyncStatusUnknownItem ev = zero_item\<lparr>itAppName := evAppName ev, itCluster := cluster ev,
     itTrigger := evTrigger ev, itTargetRevision := evTargetRevision ev,
     itFields := [\<lparr>fLabel = ''Sync Status'', fValue = orDefault (evSyncStatus ev) ''Unknown''\<rparr>],
     itLink := argoCDLink ev\<rparr>"

definition buildSyncSucceededItem :: "event \<Rightarrow> item" where
  "buildSyncSucceededItem ev = zero_item\<lparr>itAppName := evAppName ev, itCluster := cluster ev,
     itTrigger := evTrigger ev, itCommitURL := commitURL ev, itCommitSHA := commitSHA ev,
     itTargetRevision := evTargetRevision ev, itLink := argoCDLink ev\<rparr>"

definition triggerBuilders :: "(string, event \<Rightarrow> item) gomap" where
  "triggerBuilders =
     [(''on-created'', buildCreatedItem),
      (''on-deleted'', buildDeletedItem),
      (''on-deployed'', buildDeployedItem),
      (''on-health-degraded'', buildHealthDegradedItem),
      (''on-sync-failed'', buildSyncFailedItem),
      (''on-sync-running'', buildSyncRunningItem),
      (''on-sync-status-unknown'', buildSyncStatusUnknownItem),
      (''on-sync-succeeded'', buildSyncSucceededItem)]"

section \<open>Build\<close>

text \<open>The em dash of the summary line, as its three UTF-8 bytes.\<close>

definition em_dash :: string where
  "em_dash = [CHR 0xE2, CHR 0x80, CHR 0x94]"

definition summary :: "string \<Rightarrow> (string, nat) gomap \<Rightarrow> string" where
  "summary groupKey counts =
     (let triggers = sort (map fst counts);
          parts = map (\<lambda>t. itoa (gget 0 counts t) @ '' '' @ trim_prefix t ''on-'') triggers
      in groupKey @ '' '' @ em_dash @ '' '' @ join '', '' parts)"

text \<open>The body of the loop over \<open>perApp\<close>: the names, the counts and the last group key.\<close>

fun build_scan :: "string \<times> event \<Rightarrow> string list \<times> (string, nat) gomap \<times> string \<Rightarrow>
    string list \<times> (string, nat) gomap \<times> string" where
  "build_scan (name, ev) (names, counts, groupKey) =
     (names @ [name], gput (evTrigger ev) (Suc (gget 0 counts (evTrigger ev))) counts,
      evGroupKey ev)"

fun build_items :: "(string, event) gomap \<Rightarrow> string list \<Rightarrow> item list" where
  "build_items perApp [] = []"
| "build_items perApp (name # names) =
     (let ev = gget zero_event perApp name in
      (case map_of triggerBuilders (evTrigger ev) of
         None \<Rightarrow> build_items perApp names
       | Some build \<Rightarrow> build ev # build_items perApp names))"

definition Build :: "(string, event) gomap \<Rightarrow> build_error + notification" where
  "Build perApp =
     (if length perApp = 0 then Inl ErrNoEvents
      else (let (names, counts, groupKey) = fold build_scan perApp ([], [], []);
                names = sort names;
                items = build_items perApp names
            in Inr \<lparr>nSummary = summary groupKey counts, nItems = items\<rparr>))"

section \<open>The scan and the item loop\<close>

definition known_trigger :: "string \<Rightarrow> bool" where
  "known_trigger t \<longleftrightarrow> t \<in> fst ` set triggerBuilders"

text \<open>How many apps of a per-app map are at a trigger, and the trigger line built from it.\<close>

definition trigger_count :: "(string, event) gomap \<Rightarrow> string \<Rightarrow> nat" where
  "trigger_count m t = length (filter (\<lambda>p. evTrigger (snd p) = t) m)"

definition summary_spec :: "string \<Rightarrow> (string, event) gomap \<Rightarrow> string" where
  "summary_spec g m = g @ '' '' @ em_dash @ '' '' @ join '', ''
     (map (\<lambda>t. itoa (trigger_count m t) @ '' '' @ trim_prefix t ''on-'')
        (sorted_list_of_set ((evTrigger \<circ> snd) ` set m)))"

lemma map_of_triggerBuilders_iff:
  "(\<exists>b. map_of triggerBuilders t = Some b) \<longleftrightarrow> known_trigger t"
  unfolding known_trigger_def by (metis map_of_eq_None_iff not_None_eq)

lemma triggerBuilders_item:
  assumes "map_of triggerBuilders t = Some b"
  shows "itAppName (b ev) = evAppName ev" "itTrigger (b ev) = evTrigger ev"
    "itCluster (b ev) = cluster ev" "itTargetRevision (b ev) = evTargetRevision ev"
proof -
  from assms have "(t, b) \<in> set triggerBuilders" by (rule map_of_SomeD)
  then show "itAppName (b ev) = evAppName ev" "itTrigger (b ev) = evTrigger ev"
    "itCluster (b ev) = cluster ev" "itTargetRevision (b ev) = evTargetRevision ev"
    unfolding triggerBuilders_def
    by (auto simp: buildCreatedItem_def buildDeletedItem_def buildDeployedItem_def
        buildHealthDegradedItem_def buildSyncFailedItem_def buildSyncRunningItem_def
        buildSyncStatusUnknownItem_def buildSyncSucceededItem_def)
qed

lemma fold_build_scan:
  assumes "fold build_scan m (ns, cs, g) = (ns', cs', g')" and "gwf cs"
  shows "ns' = ns @ map fst m \<and> gwf cs' \<and>
    fst ` set cs' = fst ` set cs \<union> (evTrigger \<circ> snd) ` set m \<and>
    (\<forall>t. gget 0 cs' t = gget 0 cs t + trigger_count m t) \<and>
    g' = (if m = [] then g else evGroupKey (snd (last m)))"
  using assms
proof (induction m arbitrary: ns cs g)
  case Nil
  then show ?case by (simp add: trigger_count_def)
next
  case (Cons p m)
  obtain n ev where p: "p = (n, ev)" by force
  let ?cs = "gput (evTrigger ev) (Suc (gget 0 cs (evTrigger ev))) cs"
  have step: "fold build_scan m (ns @ [n], ?cs, evGroupKey ev) = (ns', cs', g')" and d: "gwf ?cs"
    using Cons.prems p by auto
  have "gget 0 ?cs t + trigger_count m t = gget 0 cs t + trigger_count (p # m) t" for t
    by (simp add: trigger_count_def gget_def p)
  with Cons.IH [OF step d] p show ?case by auto
qed

lemma sort_distinct: "distinct xs \<Longrightarrow> sort xs = sorted_list_of_set (set xs)"
  by (simp add: sorted_list_of_set_sort_remdups distinct_remdups_id)



text \<open>
  \<open>Build\<close> computes what the specification says: the counts of the summary, in the order of
  the trigger names, and the items of the known triggers, in the order of the app names.
\<close>

lemma Build_eq:
  assumes wf: "gwf m" and ne: "m \<noteq> []" and g: "\<forall>(n, ev) \<in> set m. evGroupKey ev = g"
  shows "Build m = Inr \<lparr>nSummary = summary_spec g m,
           nItems = build_items m (sorted_list_of_set (fst ` set m))\<rparr>"
proof -
  obtain ns cs k where scan: "fold build_scan m ([], [], []) = (ns, cs, k)"
    by (metis prod_cases3)
  have R: "ns = map fst m" "gwf cs" "fst ` set cs = (evTrigger \<circ> snd) ` set m"
    "\<And>t. gget 0 cs t = trigger_count m t" "k = (if m = [] then [] else evGroupKey (snd (last m)))"
    using fold_build_scan [OF scan] by (auto simp: gget_def)
  have "last m \<in> set m" using ne by simp
  then have "evGroupKey (snd (last m)) = g" using g by (auto simp: split_beta)
  then have "k = g" using R ne by simp
  moreover have "sort ns = sorted_list_of_set (fst ` set m)"
    using R(1) wf by (simp add: sort_distinct)
  moreover have "summary g cs = summary_spec g m"
    using R(2,3,4) by (simp add: summary_def summary_spec_def sort_distinct)
  ultimately show ?thesis using scan ne by (simp add: Build_def)
qed

lemma build_items_apps:
  assumes "gwf m" and "\<forall>(n, ev) \<in> set m. evAppName ev = n" and "set ns \<subseteq> fst ` set m"
  shows "map itAppName (build_items m ns) =
           filter (\<lambda>n. known_trigger (evTrigger (gget zero_event m n))) ns"
  using assms(3)
proof (induction ns)
  case Nil
  then show ?case by simp
next
  case (Cons n ns)
  from Cons.prems obtain ev where "(n, ev) \<in> set m" by auto
  with assms(1,2) have "gget zero_event m n = ev" "evAppName ev = n"
    by (auto intro: gget_Some)
  with Cons show ?case
    by (auto simp: Let_def triggerBuilders_item simp flip: map_of_triggerBuilders_iff
        split: option.splits)
qed


lemma build_items_mem:
  "it \<in> set (build_items m ns) \<Longrightarrow> \<exists>n \<in> set ns. \<exists>b.
     map_of triggerBuilders (evTrigger (gget zero_event m n)) = Some b \<and> it = b (gget zero_event m n)"
  by (induction ns) (auto simp: Let_def split: option.splits)

text \<open>
  C24: Build renders a non-empty per-app map of one group as the summary of its trigger counts,
  in the order of the triggers, and one item per app with a known trigger, in the order of the
  app names, each made by the builder of its trigger from that app's event.
\<close>

theorem Build_renders_apps:
  assumes "gwf m" and "m \<noteq> []" and "\<forall>(n, ev) \<in> set m. evGroupKey ev = g \<and> evAppName ev = n"
  shows "\<exists>msg. Build m = Inr msg \<and> nSummary msg = summary_spec g m \<and>
    map itAppName (nItems msg) =
      filter (\<lambda>n. known_trigger (evTrigger (gget zero_event m n))) (sorted_list_of_set (fst ` set m)) \<and>
    (\<forall>it \<in> set (nItems msg). \<exists>ev b. map_of m (itAppName it) = Some ev \<and>
       map_of triggerBuilders (evTrigger ev) = Some b \<and> it = b ev)"
proof -
  let ?ns = "sorted_list_of_set (fst ` set m)"
  have B: "Build m = Inr \<lparr>nSummary = summary_spec g m, nItems = build_items m ?ns\<rparr>"
    using assms by (intro Build_eq) auto
  have "map itAppName (build_items m ?ns) =
      filter (\<lambda>n. known_trigger (evTrigger (gget zero_event m n))) ?ns"
    using assms by (intro build_items_apps) auto
  moreover have "\<exists>ev b. map_of m (itAppName it) = Some ev \<and>
      map_of triggerBuilders (evTrigger ev) = Some b \<and> it = b ev" if it: "it \<in> set (build_items m ?ns)" for it
  proof -
    obtain n b where n: "n \<in> set ?ns" and b: "map_of triggerBuilders (evTrigger (gget zero_event m n)) = Some b"
      "it = b (gget zero_event m n)"
      using build_items_mem [OF it] by blast
    from n obtain ev where mem: "(n, ev) \<in> set m" by auto
    with assms(1) have "map_of m n = Some ev" by simp
    with b mem assms(3) show ?thesis by (auto simp: gget_def triggerBuilders_item)
  qed
  ultimately show ?thesis using B by simp
qed

section \<open>A sample notification\<close>

abbreviation sample_apps where
  "sample_apps \<equiv> [(''b'', sample_event ''b'' ''on-created''), (''a'', sample_event ''a'' ''on-deployed'')]"

lemma sample_apps_ok:
  "gwf sample_apps \<and> (\<forall>(n, ev) \<in> set sample_apps. evGroupKey ev = ''g'' \<and> evAppName ev = n)"
  by (simp add: sample_event_def zero_event_def)


lemma Build_renders_apps_witness:
  "\<exists>msg. Build sample_apps = Inr msg \<and> map itAppName (nItems msg) = [''a'', ''b'']"
proof -
  have "filter (\<lambda>n. known_trigger (evTrigger (gget zero_event sample_apps n))) [''a'', ''b''] = [''a'', ''b'']"
    by code_simp
  moreover have "sorted_list_of_set (fst ` set sample_apps) = [''a'', ''b'']"
    by code_simp
  ultimately show ?thesis
    using Build_renders_apps [of sample_apps "''g''"] sample_apps_ok by auto
qed

end
