(* ===== verification/Engine.thy ===== *)
theory Engine
  imports Event
begin

text \<open>
  Package \<open>internal/aggregator\<close>, files engine.go and clock.go: the debounce engine.

  \<open>Ingest\<close>, \<open>onTimerFire\<close> and \<open>flush\<close> are functions on the engine's state. \<open>time.AfterFunc\<close> is
  made explicit: \<open>clkArmed\<close> holds the timers that wait for their deadline. A timer that reaches
  its deadline starts a goroutine, which only then asks for the engine's lock; between the two
  \<open>Stop\<close> has no effect any more. This window is the list \<open>esInflight\<close> of the step relation, so
  every interleaving of arrivals, expirations and callbacks is a run.
\<close>

section \<open>Data\<close>

record session_key =
  skGroupKey :: string
  skRevision :: string
  skTrigger :: string

record engine_config =
  ecIdleWindow :: int
  ecMaxWait :: int
  ecCombineTriggers :: bool

text \<open>A timer of the clock: its identity, its deadline and the callback's captured variables.\<close>

record timer =
  tmId :: nat
  tmDeadline :: int
  tmGroup :: string
  tmGen :: nat

record clock =
  clkNow :: int
  clkArmed :: "timer list"
  clkNext :: nat

type_synonym buckets = "(string, event list) gomap"

record group_state =
  gsBuckets :: buckets
  gsIdle :: "nat option"
  gsHard :: "nat option"
  gsGeneration :: nat

record engine =
  engGroups :: "(string, group_state) gomap"
  engClock :: clock

definition new_clock :: "int \<Rightarrow> clock" where
  "new_clock now = \<lparr>clkNow = now, clkArmed = [], clkNext = 0\<rparr>"

definition newEngine :: "clock \<Rightarrow> engine" where
  "newEngine clock = \<lparr>engGroups = [], engClock = clock\<rparr>"

definition new_group :: group_state where
  "new_group = \<lparr>gsBuckets = [], gsIdle = None, gsHard = None, gsGeneration = 0\<rparr>"

section \<open>Timers\<close>

definition afterFunc :: "int \<Rightarrow> string \<Rightarrow> nat \<Rightarrow> clock \<Rightarrow> nat \<times> clock" where
  "afterFunc d gk gen c =
     (clkNext c, c\<lparr>clkArmed := clkArmed c @
        [\<lparr>tmId = clkNext c, tmDeadline = clkNow c + d, tmGroup = gk, tmGen = gen\<rparr>],
        clkNext := Suc (clkNext c)\<rparr>)"

definition stop_timer :: "nat option \<Rightarrow> clock \<Rightarrow> clock" where
  "stop_timer t c = (case t of None \<Rightarrow> c
     | Some i \<Rightarrow> c\<lparr>clkArmed := filter (\<lambda>tm. tmId tm \<noteq> i) (clkArmed c)\<rparr>)"

section \<open>The engine's operations\<close>

definition Ingest :: "engine_config \<Rightarrow> event \<Rightarrow> engine \<Rightarrow> engine" where
  "Ingest cfg ev e =
     (let groupKey = evGroupKey ev;
          gs = (case map_of (engGroups e) groupKey of None \<Rightarrow> new_group | Some gs \<Rightarrow> gs);
          freshBatch = (length (gsBuckets gs) = 0);
          gs = gs\<lparr>gsBuckets := gput (evTrigger ev)
                    (gget [] (gsBuckets gs) (evTrigger ev) @ [ev]) (gsBuckets gs)\<rparr>;
          gen = gsGeneration gs;
          c = engClock e;
          (gs, c) = (if freshBatch
                     then (let (t, c) = afterFunc (ecMaxWait cfg) groupKey gen c
                           in (gs\<lparr>gsHard := Some t\<rparr>, c))
                     else (gs, c));
          c = stop_timer (gsIdle gs) c;
          (t, c) = afterFunc (ecIdleWindow cfg) groupKey gen c;
          gs = gs\<lparr>gsIdle := Some t\<rparr>
      in e\<lparr>engGroups := gput groupKey gs (engGroups e), engClock := c\<rparr>)"

text \<open>
  \<open>onTimerFire\<close> up to the release of the lock. The second component is the batch handed to
  \<open>flush\<close>, or \<open>None\<close> where the callback returns early.
\<close>

definition onTimerFire :: "string \<Rightarrow> nat \<Rightarrow> engine \<Rightarrow> engine \<times> (string \<times> buckets) option" where
  "onTimerFire groupKey gen e =
     (case map_of (engGroups e) groupKey of
        None \<Rightarrow> (e, None)
      | Some gs \<Rightarrow>
          if gsGeneration gs \<noteq> gen \<or> length (gsBuckets gs) = 0 then (e, None)
          else (let bs = gsBuckets gs;
                    c = stop_timer (gsHard gs) (stop_timer (gsIdle gs) (engClock e));
                    gs = gs\<lparr>gsBuckets := [], gsIdle := None, gsHard := None,
                            gsGeneration := Suc (gsGeneration gs)\<rparr>
                in (e\<lparr>engGroups := gput groupKey gs (engGroups e), engClock := c\<rparr>,
                    Some (groupKey, bs))))"

definition session_key_of :: "engine_config \<Rightarrow> string \<Rightarrow> string \<Rightarrow> event \<Rightarrow> session_key" where
  "session_key_of cfg groupKey trigger ev =
     \<lparr>skGroupKey = groupKey, skRevision = evRevision ev,
      skTrigger = (if ecCombineTriggers cfg then [] else trigger)\<rparr>"

text \<open>
  The first half of \<open>flush\<close>: the batch split by session key. The buckets are visited in the
  order of the list, and each bucket in its order of arrival.
\<close>

definition sessionize :: "engine_config \<Rightarrow> string \<Rightarrow> buckets \<Rightarrow>
    (session_key, event list) gomap" where
  "sessionize cfg groupKey bs =
     fold (\<lambda>(trigger, evs) m.
         fold (\<lambda>ev m. let key = session_key_of cfg groupKey trigger ev
                      in gput key (gget [] m key @ [ev]) m) evs m)
       bs []"

text \<open>
  The second half: \<open>Publisher.Upsert\<close> once per session key. An error is logged and the loop
  goes on; the errors are returned here in the order of the log.
\<close>

fun publish_all :: "(session_key \<Rightarrow> event list \<Rightarrow> 's \<Rightarrow> 'err list \<times> 's) \<Rightarrow>
    (session_key, event list) gomap \<Rightarrow> 's \<Rightarrow> (session_key \<times> 'err list) list \<times> 's" where
  "publish_all upsert [] s = ([], s)"
| "publish_all upsert ((key, evs) # m) s =
     (let (err, s) = upsert key evs s;
          (log, s) = publish_all upsert m s
      in (if err = [] then log else (key, err) # log, s))"

definition flush :: "(session_key \<Rightarrow> event list \<Rightarrow> 's \<Rightarrow> 'err list \<times> 's) \<Rightarrow> engine_config \<Rightarrow>
    string \<Rightarrow> buckets \<Rightarrow> 's \<Rightarrow> (session_key \<times> 'err list) list \<times> 's" where
  "flush upsert cfg groupKey bs s = publish_all upsert (sessionize cfg groupKey bs) s"

section \<open>Runs of the engine with its clock\<close>

text \<open>
  \<open>esIngested\<close> and \<open>esFlushed\<close> are the history of the run: the arrivals and the batches handed to
  \<open>flush\<close>, oldest first.
\<close>

record engine_sys =
  esEngine :: engine
  esInflight :: "(string \<times> nat) list"
  esIngested :: "event list"
  esFlushed :: "(string \<times> buckets) list"

definition init_sys :: "int \<Rightarrow> engine_sys" where
  "init_sys now = \<lparr>esEngine = newEngine (new_clock now), esInflight = [], esIngested = [],
     esFlushed = []\<rparr>"

abbreviation es_clock :: "engine_sys \<Rightarrow> clock" where
  "es_clock s \<equiv> engClock (esEngine s)"

abbreviation es_group :: "engine_sys \<Rightarrow> string \<Rightarrow> group_state option" where
  "es_group s \<equiv> map_of (engGroups (esEngine s))"

definition es_tick :: "int \<Rightarrow> engine_sys \<Rightarrow> engine_sys" where
  "es_tick d s = s\<lparr>esEngine := (esEngine s)\<lparr>engClock := (es_clock s)\<lparr>clkNow := clkNow (es_clock s) + d\<rparr>\<rparr>\<rparr>"

definition es_arrive :: "engine_config \<Rightarrow> event \<Rightarrow> engine_sys \<Rightarrow> engine_sys" where
  "es_arrive cfg ev s = s\<lparr>esEngine := Ingest cfg ev (esEngine s), esIngested := esIngested s @ [ev]\<rparr>"

definition es_expire :: "timer \<Rightarrow> engine_sys \<Rightarrow> engine_sys" where
  "es_expire tm s = s\<lparr>esEngine := (esEngine s)\<lparr>engClock := (es_clock s)\<lparr>clkArmed := remove1 tm (clkArmed (es_clock s))\<rparr>\<rparr>,
     esInflight := esInflight s @ [(tmGroup tm, tmGen tm)]\<rparr>"

definition es_callback :: "string \<times> nat \<Rightarrow> engine_sys \<Rightarrow> engine_sys" where
  "es_callback cb s =
     (let (e, batch) = onTimerFire (fst cb) (snd cb) (esEngine s)
      in s\<lparr>esEngine := e, esInflight := remove1 cb (esInflight s),
           esFlushed := esFlushed s @ (case batch of None \<Rightarrow> [] | Some b \<Rightarrow> [b])\<rparr>)"

inductive engine_step :: "engine_config \<Rightarrow> engine_sys \<Rightarrow> engine_sys \<Rightarrow> bool" for cfg where
  tick: "0 \<le> d \<Longrightarrow> engine_step cfg s (es_tick d s)"
| arrive: "engine_step cfg s (es_arrive cfg ev s)"
| expire: "tm \<in> set (clkArmed (es_clock s)) \<Longrightarrow> tmDeadline tm \<le> clkNow (es_clock s) \<Longrightarrow>
     engine_step cfg s (es_expire tm s)"
| callback: "cb \<in> set (esInflight s) \<Longrightarrow> engine_step cfg s (es_callback cb s)"

inductive engine_run :: "engine_config \<Rightarrow> engine_sys \<Rightarrow> engine_sys \<Rightarrow> bool" for cfg where
  run_refl: "engine_run cfg s s"
| run_step: "engine_run cfg s t \<Longrightarrow> engine_step cfg t u \<Longrightarrow> engine_run cfg s u"

inductive_cases engine_stepE: "engine_step cfg s t"

lemma engine_run_trans: "engine_run cfg t u \<Longrightarrow> engine_run cfg s t \<Longrightarrow> engine_run cfg s u"
  by (induction rule: engine_run.induct) (auto intro: engine_run.intros)

section \<open>Every arrival is flushed exactly once, in order\<close>

definition bucket_ok :: "string \<Rightarrow> buckets \<Rightarrow> bool" where
  "bucket_ok g bs \<longleftrightarrow> gwf bs \<and>
     (\<forall>t evs. map_of bs t = Some evs \<longrightarrow>
        evs \<noteq> [] \<and> (\<forall>ev \<in> set evs. evGroupKey ev = g \<and> evTrigger ev = t))"

definition flushed_of :: "string \<Rightarrow> string \<Rightarrow> (string \<times> buckets) list \<Rightarrow> event list" where
  "flushed_of g t fl = concat (map (\<lambda>(g', bs). if g' = g then gget [] bs t else []) fl)"

text \<open>The group of a key, and the new group \<open>Ingest\<close> starts from where there is none.\<close>

definition group_of :: "engine \<Rightarrow> string \<Rightarrow> group_state" where
  "group_of e g = (case map_of (engGroups e) g of None \<Rightarrow> new_group | Some gs \<Rightarrow> gs)"

definition waiting_of :: "string \<Rightarrow> string \<Rightarrow> engine \<Rightarrow> event list" where
  "waiting_of g t e = gget [] (gsBuckets (group_of e g)) t"

definition arrived_of :: "string \<Rightarrow> string \<Rightarrow> event list \<Rightarrow> event list" where
  "arrived_of g t evs = filter (\<lambda>ev. evGroupKey ev = g \<and> evTrigger ev = t) evs"

definition groups_ok :: "engine \<Rightarrow> bool" where
  "groups_ok e \<longleftrightarrow> gwf (engGroups e) \<and> (\<forall>g. bucket_ok g (gsBuckets (group_of e g)))"

definition fifo_inv :: "engine_sys \<Rightarrow> bool" where
  "fifo_inv s \<longleftrightarrow> groups_ok (esEngine s) \<and>
     (\<forall>(g, bs) \<in> set (esFlushed s). bs \<noteq> [] \<and> bucket_ok g bs) \<and>
     (\<forall>g t. flushed_of g t (esFlushed s) @ waiting_of g t (esEngine s)
              = arrived_of g t (esIngested s))"

lemma bucket_ok_Nil [simp, wf_intros]: "bucket_ok g []"
  by (simp add: bucket_ok_def)

lemma bucket_ok_append [wf_intros]:
  "bucket_ok (evGroupKey ev) bs \<Longrightarrow>
     bucket_ok (evGroupKey ev) (gput (evTrigger ev) (gget [] bs (evTrigger ev) @ [ev]) bs)"
  by (cases "map_of bs (evTrigger ev)") (auto simp: bucket_ok_def gget_def)

lemma stop_timer_eq:
  "stop_timer t c = c\<lparr>clkArmed := filter (\<lambda>tm. Some (tmId tm) \<noteq> t) (clkArmed c)\<rparr>"
  by (cases t) (simp_all add: stop_timer_def)

text \<open>What \<open>Ingest\<close> and \<open>onTimerFire\<close> do, without the local variables.\<close>

definition hard_timer :: "engine_config \<Rightarrow> event \<Rightarrow> engine \<Rightarrow> timer" where
  "hard_timer cfg ev e = \<lparr>tmId = clkNext (engClock e),
     tmDeadline = clkNow (engClock e) + ecMaxWait cfg, tmGroup = evGroupKey ev,
     tmGen = gsGeneration (group_of e (evGroupKey ev))\<rparr>"

definition idle_timer :: "engine_config \<Rightarrow> event \<Rightarrow> engine \<Rightarrow> timer" where
  "idle_timer cfg ev e = \<lparr>tmId = (if gsBuckets (group_of e (evGroupKey ev)) = []
        then Suc (clkNext (engClock e)) else clkNext (engClock e)),
     tmDeadline = clkNow (engClock e) + ecIdleWindow cfg, tmGroup = evGroupKey ev,
     tmGen = gsGeneration (group_of e (evGroupKey ev))\<rparr>"

definition ingested_group :: "engine_config \<Rightarrow> event \<Rightarrow> engine \<Rightarrow> group_state" where
  "ingested_group cfg ev e =
     (let gs = group_of e (evGroupKey ev) in
      gs\<lparr>gsBuckets := gput (evTrigger ev) (gget [] (gsBuckets gs) (evTrigger ev) @ [ev]) (gsBuckets gs),
         gsIdle := Some (tmId (idle_timer cfg ev e)),
         gsHard := (if gsBuckets gs = [] then Some (tmId (hard_timer cfg ev e)) else gsHard gs)\<rparr>)"

definition ingested_clock :: "engine_config \<Rightarrow> event \<Rightarrow> engine \<Rightarrow> clock" where
  "ingested_clock cfg ev e =
     (let gs = group_of e (evGroupKey ev); c = engClock e in
      c\<lparr>clkArmed := filter (\<lambda>tm. Some (tmId tm) \<noteq> gsIdle gs)
          (clkArmed c @ (if gsBuckets gs = [] then [hard_timer cfg ev e] else [])) @
          [idle_timer cfg ev e],
        clkNext := Suc (tmId (idle_timer cfg ev e))\<rparr>)"

lemma Ingest_eq:
  "Ingest cfg ev e = e\<lparr>engGroups := gput (evGroupKey ev) (ingested_group cfg ev e) (engGroups e),
     engClock := ingested_clock cfg ev e\<rparr>"
  by (cases "group_of e (evGroupKey ev)"; cases "gsBuckets (group_of e (evGroupKey ev)) = []")
    (simp_all add: Ingest_def ingested_group_def ingested_clock_def Let_def afterFunc_def
      stop_timer_eq idle_timer_def hard_timer_def flip: group_of_def)

definition fired_clock :: "group_state \<Rightarrow> clock \<Rightarrow> clock" where
  "fired_clock gs c = c\<lparr>clkArmed :=
     filter (\<lambda>tm. Some (tmId tm) \<noteq> gsIdle gs \<and> Some (tmId tm) \<noteq> gsHard gs) (clkArmed c)\<rparr>"

text \<open>The callback of the current generation disarms its group and starts the next generation.\<close>

definition disarmed :: "group_state \<Rightarrow> group_state" where
  "disarmed gs = gs\<lparr>gsBuckets := [], gsIdle := None, gsHard := None,
     gsGeneration := Suc (gsGeneration gs)\<rparr>"

lemma onTimerFire_eq:
  "onTimerFire g n e =
     (let gs = group_of e g in
      if gsGeneration gs = n \<and> gsBuckets gs \<noteq> []
      then (e\<lparr>engGroups := gput g (disarmed gs) (engGroups e),
              engClock := fired_clock gs (engClock e)\<rparr>, Some (g, gsBuckets gs))
      else (e, None))"
  by (auto simp: onTimerFire_def group_of_def new_group_def fired_clock_def disarmed_def Let_def stop_timer_eq
      conj_commute split: option.split)

lemma group_of_put [simp]:
  "group_of (e\<lparr>engGroups := gput g gs (engGroups e)\<rparr>) = (group_of e)(g := gs)"
  by (auto simp: group_of_def fun_eq_iff)

lemma group_of_clock [simp]: "group_of (e\<lparr>engClock := c\<rparr>) = group_of e"
  by (simp add: group_of_def fun_eq_iff)

lemma Ingest_group_of:
  "group_of (Ingest cfg ev e) = (group_of e)(evGroupKey ev := ingested_group cfg ev e)"
  by (simp add: Ingest_eq)

lemma groups_ok_put [wf_intros]:
  "groups_ok e \<Longrightarrow> bucket_ok g (gsBuckets gs) \<Longrightarrow>
     groups_ok (e\<lparr>engGroups := gput g gs (engGroups e), engClock := c\<rparr>)"
  by (auto simp: groups_ok_def)

lemma groups_okD [wf_intros]: "groups_ok e \<Longrightarrow> bucket_ok g (gsBuckets (group_of e g))"
  by (simp add: groups_ok_def)

lemma groups_ok_Ingest [wf_intros]: "groups_ok e \<Longrightarrow> groups_ok (Ingest cfg ev e)"
  unfolding Ingest_eq
  by (rule groups_ok_put) (simp_all add: ingested_group_def Let_def bucket_ok_append groups_okD)

lemma groups_ok_onTimerFire:
  "groups_ok e \<Longrightarrow> onTimerFire g n e = (e', batch) \<Longrightarrow>
     groups_ok e' \<and> (\<forall>g' bs. batch = Some (g', bs) \<longrightarrow> g' = g \<and> bs \<noteq> [] \<and> bucket_ok g bs)"
  by (auto simp: onTimerFire_eq disarmed_def Let_def intro: groups_ok_put groups_okD split: if_splits)

lemma waiting_of_Ingest:
  "waiting_of g t (Ingest cfg ev e) =
     waiting_of g t e @ (if evGroupKey ev = g \<and> evTrigger ev = t then [ev] else [])"
  by (auto simp: waiting_of_def Ingest_group_of ingested_group_def Let_def gget_def)

lemma flushed_of_append:
  "flushed_of g t (fl @ [(g', bs)]) = flushed_of g t fl @ (if g' = g then gget [] bs t else [])"
  by (simp add: flushed_of_def)

lemma onTimerFire_fifo:
  assumes "onTimerFire g' n e = (e', batch)"
  shows "flushed_of g t (fl @ (case batch of None \<Rightarrow> [] | Some b \<Rightarrow> [b])) @ waiting_of g t e' =
     flushed_of g t fl @ waiting_of g t e"
  using assms
  by (auto simp: onTimerFire_eq Let_def disarmed_def waiting_of_def flushed_of_append gget_def split: if_splits)

lemma fifo_inv_init: "fifo_inv (init_sys now)"
  by (simp add: fifo_inv_def init_sys_def groups_ok_def newEngine_def group_of_def new_group_def
      flushed_of_def waiting_of_def arrived_of_def gget_def)

lemma fifo_inv_callback:
  assumes "fifo_inv s"
  shows "fifo_inv (es_callback cb s)"
proof -
  obtain e batch where f: "onTimerFire (fst cb) (snd cb) (esEngine s) = (e, batch)" by force
  with assms have "groups_ok e \<and>
      (\<forall>g' bs. batch = Some (g', bs) \<longrightarrow> g' = fst cb \<and> bs \<noteq> [] \<and> bucket_ok (fst cb) bs)"
    by (intro groups_ok_onTimerFire) (auto simp: fifo_inv_def)
  with assms f show ?thesis
    by (auto simp: fifo_inv_def es_callback_def onTimerFire_fifo [OF f] split: option.splits)
qed

lemma fifo_inv_step: "engine_step cfg s s' \<Longrightarrow> fifo_inv s \<Longrightarrow> fifo_inv s'"
proof (induction rule: engine_step.induct)
  case (tick d s)
  then show ?case by (simp add: fifo_inv_def es_tick_def groups_ok_def waiting_of_def)
next
  case (arrive s ev)
  then show ?case
    by (auto simp: fifo_inv_def es_arrive_def waiting_of_Ingest arrived_of_def intro: wf_intros)
next
  case (expire tm s)
  then show ?case by (simp add: fifo_inv_def es_expire_def groups_ok_def waiting_of_def)
next
  case (callback cb s)
  then show ?case by (simp add: fifo_inv_callback)
qed

lemma fifo_inv_run: "engine_run cfg s s' \<Longrightarrow> fifo_inv s \<Longrightarrow> fifo_inv s'"
  by (induction rule: engine_run.induct) (auto intro: fifo_inv_step)

section \<open>Timers and the hard cap\<close>

text \<open>
  The timer invariant is stated on the parts of the state it reads: the groups as a function,
  the clock's time, timers and next identity, and the callbacks in flight.
\<close>

definition timer_ids :: "group_state \<Rightarrow> nat set" where
  "timer_ids gs = set_option (gsIdle gs) \<union> set_option (gsHard gs)"

definition fires_by :: "timer list \<Rightarrow> (string \<times> nat) list \<Rightarrow> string \<Rightarrow> nat \<Rightarrow> nat option \<Rightarrow> int \<Rightarrow> bool" where
  "fires_by armed infl g n h D \<longleftrightarrow> (g, n) \<in> set infl \<or>
     (\<exists>tm \<in> set armed. Some (tmId tm) = h \<and> tmGroup tm = g \<and> tmGen tm = n \<and> tmDeadline tm \<le> D)"

definition armed_ok :: "(string \<Rightarrow> group_state) \<Rightarrow> timer list \<Rightarrow> bool" where
  "armed_ok G armed \<longleftrightarrow> distinct (map tmId armed) \<and>
     (\<forall>tm \<in> set armed. tmGen tm = gsGeneration (G (tmGroup tm)) \<and>
        tmId tm \<in> timer_ids (G (tmGroup tm)))"

definition phase_ok :: "group_state \<Rightarrow> bool" where
  "phase_ok gs \<longleftrightarrow> (if gsBuckets gs = [] then gsIdle gs = None \<and> gsHard gs = None
     else \<exists>i h. gsIdle gs = Some i \<and> gsHard gs = Some h \<and> i \<noteq> h)"

definition ids_ok :: "(string \<Rightarrow> group_state) \<Rightarrow> nat \<Rightarrow> bool" where
  "ids_ok G next \<longleftrightarrow>
     (\<forall>g. phase_ok (G g)) \<and>
     (\<forall>g. \<forall>i \<in> timer_ids (G g). i < next) \<and>
     (\<forall>g g'. timer_ids (G g) \<inter> timer_ids (G g') \<noteq> {} \<longrightarrow> g = g')"

definition cap_ok :: "engine_config \<Rightarrow> (string \<Rightarrow> group_state) \<Rightarrow> int \<Rightarrow> timer list \<Rightarrow>
    (string \<times> nat) list \<Rightarrow> bool" where
  "cap_ok cfg G now armed infl \<longleftrightarrow>
     (\<forall>(g, n) \<in> set infl. n \<le> gsGeneration (G g)) \<and>
     (\<forall>g. gsBuckets (G g) \<noteq> [] \<longrightarrow>
        fires_by armed infl g (gsGeneration (G g)) (gsHard (G g)) (now + ecMaxWait cfg))"

definition timer_inv :: "engine_config \<Rightarrow> engine_sys \<Rightarrow> bool" where
  "timer_inv cfg s \<longleftrightarrow>
     armed_ok (group_of (esEngine s)) (clkArmed (es_clock s)) \<and>
     ids_ok (group_of (esEngine s)) (clkNext (es_clock s)) \<and>
     cap_ok cfg (group_of (esEngine s)) (clkNow (es_clock s)) (clkArmed (es_clock s)) (esInflight s)"

text \<open>Timers filtered out belong to one group, so the timers of the others stay.\<close>

lemma fires_by_filter:
  assumes "fires_by armed infl g n h D" and "\<And>i. h = Some i \<Longrightarrow> P i"
  shows "fires_by (filter (\<lambda>tm. P (tmId tm)) armed @ new) infl g n h D"
  using assms by (auto simp: fires_by_def)

lemma fires_by_mono:
  "fires_by armed infl g n h D \<Longrightarrow> D \<le> D' \<Longrightarrow> fires_by armed infl g n h D'"
  by (fastforce simp: fires_by_def)

lemma fires_by_expire:
  "fires_by armed infl g n h D \<Longrightarrow>
     fires_by (remove1 tm armed) (infl @ [(tmGroup tm, tmGen tm)]) g n h D"
  unfolding fires_by_def by (metis Un_iff in_set_remove1 list.set_intros(1) set_append)

lemma fires_by_remove1:
  "fires_by armed infl g n h D \<Longrightarrow> cb \<noteq> (g, n) \<Longrightarrow> fires_by armed (remove1 cb infl) g n h D"
  by (auto simp: fires_by_def)

lemma ids_ok_other:
  "ids_ok G nxt \<Longrightarrow> g \<noteq> g' \<Longrightarrow> i \<in> timer_ids (G g) \<Longrightarrow> i \<notin> timer_ids (G g')"
  unfolding ids_ok_def by blast

lemma armed_ok_filter:
  "armed_ok G armed \<Longrightarrow> armed_ok G (filter P armed)"
  by (auto simp: armed_ok_def distinct_map_filter)

lemma timer_inv_init: "timer_inv cfg (init_sys now)"
  by (simp add: timer_inv_def init_sys_def newEngine_def new_clock_def armed_ok_def ids_ok_def phase_ok_def
      cap_ok_def timer_ids_def group_of_def new_group_def)

lemma timer_inv_tick: "timer_inv cfg s \<Longrightarrow> 0 \<le> d \<Longrightarrow> timer_inv cfg (es_tick d s)"
  by (auto simp: timer_inv_def es_tick_def cap_ok_def intro: fires_by_mono)

lemma armed_ok_remove1: "armed_ok G armed \<Longrightarrow> armed_ok G (remove1 tm armed)"
  by (auto simp: armed_ok_def distinct_map distinct_remove1 inj_on_def dest: notin_set_remove1)

lemma cap_ok_expire:
  assumes "cap_ok cfg G now armed infl" and "armed_ok G armed" and "tm \<in> set armed"
  shows "cap_ok cfg G now (remove1 tm armed) (infl @ [(tmGroup tm, tmGen tm)])"
  using assms fires_by_expire [of armed infl _ _ _ _ tm] by (auto simp: cap_ok_def armed_ok_def)

lemma timer_inv_expire:
  assumes "timer_inv cfg s" and "tm \<in> set (clkArmed (es_clock s))"
  shows "timer_inv cfg (es_expire tm s)"
  using assms by (simp add: timer_inv_def es_expire_def armed_ok_remove1 cap_ok_expire)

lemma timer_ids_disarmed [simp]: "timer_ids (disarmed gs) = {}"
  by (simp add: timer_ids_def disarmed_def)

lemma phase_ok_disarmed [simp]: "phase_ok (disarmed gs)"
  by (simp add: phase_ok_def disarmed_def)

lemma fired_clock_armed:
  "clkArmed (fired_clock gs c) = filter (\<lambda>tm. tmId tm \<notin> timer_ids gs) (clkArmed c)"
  unfolding fired_clock_def timer_ids_def
  by (simp, rule filter_cong) (auto simp: set_option_def)

lemma armed_ok_disarm:
  assumes "armed_ok G armed"
  shows "armed_ok (G(g := disarmed (G g))) (filter (\<lambda>tm. tmId tm \<notin> timer_ids (G g)) armed)"
  using assms by (auto simp: armed_ok_def distinct_map_filter)

lemma ids_ok_disarm: "ids_ok G nxt \<Longrightarrow> ids_ok (G(g := disarmed (G g))) nxt"
  by (auto simp: ids_ok_def)

lemma cap_ok_disarm:
  assumes "cap_ok cfg G now armed infl" and ids: "ids_ok G nxt"
  shows "cap_ok cfg (G(g := disarmed (G g))) now
     (filter (\<lambda>tm. tmId tm \<notin> timer_ids (G g)) armed) (remove1 (g, n) infl)"
proof -
  have "fires_by (filter (\<lambda>tm. tmId tm \<notin> timer_ids (G g)) armed) (remove1 (g, n) infl) g'
      (gsGeneration (G g')) (gsHard (G g')) (now + ecMaxWait cfg)"
    if "g' \<noteq> g" "gsBuckets (G g') \<noteq> []" for g'
  proof -
    have "fires_by armed (remove1 (g, n) infl) g' (gsGeneration (G g')) (gsHard (G g'))
        (now + ecMaxWait cfg)"
      using assms(1) that by (intro fires_by_remove1) (auto simp: cap_ok_def)
    then show ?thesis
      using fires_by_filter [of armed "remove1 (g, n) infl" g' _ _ _ "\<lambda>i. i \<notin> timer_ids (G g)" "[]"]
        ids_ok_other [OF ids, of g' g] that(1) by (auto simp: timer_ids_def)
  qed
  moreover have "m \<le> gsGeneration ((G(g := disarmed (G g))) g')"
    if "(g', m) \<in> set (remove1 (g, n) infl)" for g' m
    using assms(1) notin_set_remove1 that
    by (fastforce simp: cap_ok_def disarmed_def intro: le_SucI)
  ultimately show ?thesis by (auto simp: cap_ok_def disarmed_def)
qed

lemma cap_ok_stale:
  assumes "cap_ok cfg G now armed infl" and "gsGeneration (G g) = n \<longrightarrow> gsBuckets (G g) = []"
  shows "cap_ok cfg G now armed (remove1 (g, n) infl)"
  using assms by (auto simp: cap_ok_def intro!: fires_by_remove1 dest: notin_set_remove1)

lemma timer_inv_callback:
  assumes "timer_inv cfg s"
  shows "timer_inv cfg (es_callback (g, n) s)"
proof (cases "gsGeneration (group_of (esEngine s) g) = n \<and> gsBuckets (group_of (esEngine s) g) \<noteq> []")
  case True
  have [simp]: "clkNow (fired_clock gs c) = clkNow c" "clkNext (fired_clock gs c) = clkNext c" for gs c
    by (simp_all add: fired_clock_def)
  from True assms show ?thesis
    using armed_ok_disarm ids_ok_disarm cap_ok_disarm [where nxt = "clkNext (es_clock s)"]
    by (simp add: timer_inv_def es_callback_def onTimerFire_eq Let_def fired_clock_armed)
next
  case False
  with assms cap_ok_stale show ?thesis
    by (auto simp: timer_inv_def es_callback_def onTimerFire_eq Let_def)
qed

text \<open>An arrival: the idle timer is replaced, the hard timer is started by the first event only.\<close>

definition rearmed :: "nat \<Rightarrow> buckets \<Rightarrow> group_state \<Rightarrow> group_state" where
  "rearmed n bs gs = (if gsBuckets gs = []
     then gs\<lparr>gsBuckets := bs, gsIdle := Some (Suc n), gsHard := Some n\<rparr>
     else gs\<lparr>gsBuckets := bs, gsIdle := Some n\<rparr>)"

definition rearmed_timers :: "timer \<Rightarrow> timer \<Rightarrow> group_state \<Rightarrow> timer list \<Rightarrow> timer list" where
  "rearmed_timers hard idle gs armed =
     filter (\<lambda>tm. Some (tmId tm) \<noteq> gsIdle gs) armed @
       (if gsBuckets gs = [] then [hard, idle] else [idle])"

lemma rearmed_phase [simp]: "bs \<noteq> [] \<Longrightarrow> phase_ok gs \<Longrightarrow> \<forall>i \<in> timer_ids gs. i < n \<Longrightarrow>
    phase_ok (rearmed n bs gs)"
  by (auto simp: phase_ok_def rearmed_def timer_ids_def)

lemma timer_ids_rearmed:
  "phase_ok gs \<Longrightarrow> timer_ids (rearmed n bs gs) =
     (if gsBuckets gs = [] then {n, Suc n} else insert n (set_option (gsHard gs)))"
  by (auto simp: phase_ok_def rearmed_def timer_ids_def)

lemma ids_ok_rearm:
  assumes "ids_ok G n" and "bs \<noteq> []"
  shows "ids_ok (G(g := rearmed n bs (G g))) (if gsBuckets (G g) = [] then Suc (Suc n) else Suc n)"
proof -
  have ph: "phase_ok (G g)" and lt: "\<And>g i. i \<in> timer_ids (G g) \<Longrightarrow> i < n"
    using assms by (auto simp: ids_ok_def)
  have sub: "timer_ids (rearmed n bs (G g)) \<subseteq> timer_ids (G g) \<union> {n, Suc n}"
    by (auto simp: rearmed_def timer_ids_def)
  have disj: "timer_ids (rearmed n bs (G g)) \<inter> timer_ids (G g') = {}" if "g' \<noteq> g" for g'
  proof -
    have "i \<notin> timer_ids (rearmed n bs (G g))" if "i \<in> timer_ids (G g')" for i
      using sub lt [OF that] ids_ok_other [OF assms(1) \<open>g' \<noteq> g\<close> that] by auto
    then show ?thesis by blast
  qed
  define m where "m = (if gsBuckets (G g) = [] then Suc (Suc n) else Suc n)"
  have "i < m" if "i \<in> timer_ids (rearmed n bs (G g))" for i
    using that lt [of i g] by (auto simp: m_def rearmed_def timer_ids_def less_SucI split: if_splits)
  moreover have "i < m" if "i \<in> timer_ids (G g')" for i g'
    using lt [OF that] by (auto simp: m_def)
  ultimately have "ids_ok (G(g := rearmed n bs (G g))) m"
    using assms ph lt disj by (simp add: ids_ok_def Int_commute)
  then show ?thesis by (simp only: m_def)
qed

lemma armed_ok_rearm:
  assumes "armed_ok G armed" and "ids_ok G n"
    and "tmId hard = n" "tmGroup hard = g" "tmGen hard = gsGeneration (G g)"
    and "tmId idle = (if gsBuckets (G g) = [] then Suc n else n)" "tmGroup idle = g"
      "tmGen idle = gsGeneration (G g)"
  shows "armed_ok (G(g := rearmed n bs (G g))) (rearmed_timers hard idle (G g) armed)"
proof -
  have ph: "phase_ok (G g)" and lt: "\<And>g i. i \<in> timer_ids (G g) \<Longrightarrow> i < n"
    using assms by (auto simp: ids_ok_def)
  have "tmId tm < n" if "tm \<in> set armed" for tm
    using that assms(1) lt by (auto simp: armed_ok_def)
  moreover have "gsGeneration (rearmed n bs (G g)) = gsGeneration (G g)"
    by (simp add: rearmed_def)
  moreover have "tmId tm \<in> timer_ids (rearmed n bs (G g))"
    if "tm \<in> set armed" "tmGroup tm = g" "Some (tmId tm) \<noteq> gsIdle (G g)" for tm
    using that assms(1) ph
    by (auto simp: armed_ok_def rearmed_def phase_ok_def timer_ids_def split: if_splits)
  ultimately show ?thesis
    using assms ph
    by (fastforce simp: armed_ok_def rearmed_timers_def timer_ids_rearmed distinct_map_filter)
qed

lemma cap_ok_rearm:
  assumes cap: "cap_ok cfg G now armed infl" and ids: "ids_ok G n"
    and hard: "tmId hard = n" "tmGroup hard = g" "tmGen hard = gsGeneration (G g)"
      "tmDeadline hard = now + ecMaxWait cfg"
  shows "cap_ok cfg (G(g := rearmed n bs (G g))) now (rearmed_timers hard idle (G g) armed) infl"
proof -
  have ph: "phase_ok (G g)" using ids by (auto simp: ids_ok_def)
  have keep: "fires_by (rearmed_timers hard idle (G g) armed) infl g' (gsGeneration (G g'))
      (gsHard (G g')) (now + ecMaxWait cfg)" if "gsBuckets (G g') \<noteq> []" for g'
    unfolding rearmed_timers_def
  proof (rule fires_by_filter [of _ _ _ _ _ _ "\<lambda>i. Some i \<noteq> gsIdle (G g)"])
    show "fires_by armed infl g' (gsGeneration (G g')) (gsHard (G g')) (now + ecMaxWait cfg)"
      using cap that by (simp add: cap_ok_def)
    show "Some i \<noteq> gsIdle (G g)" if "gsHard (G g') = Some i" for i
      using that ph ids_ok_other [OF ids, of g' g i]
      by (cases "g' = g") (auto simp: phase_ok_def timer_ids_def split: if_splits)
  qed
  show ?thesis
  proof (cases "gsBuckets (G g) = []")
    case True
    then have "fires_by (rearmed_timers hard idle (G g) armed) infl g (gsGeneration (G g))
        (Some n) (now + ecMaxWait cfg)"
      using hard by (auto simp: fires_by_def rearmed_timers_def)
    with True keep cap show ?thesis by (auto simp: cap_ok_def rearmed_def)
  next
    case False
    with keep cap show ?thesis by (auto simp: cap_ok_def rearmed_def)
  qed
qed

lemma timer_inv_arrive:
  assumes "timer_inv cfg s"
  shows "timer_inv cfg (es_arrive cfg ev s)"
proof -
  let ?e = "esEngine s" and ?g = "evGroupKey ev"
  let ?gs = "group_of ?e ?g" and ?n = "clkNext (es_clock s)"
  let ?bs = "gput (evTrigger ev) (gget [] (gsBuckets ?gs) (evTrigger ev) @ [ev]) (gsBuckets ?gs)"
  have ph: "phase_ok ?gs" using assms by (simp add: timer_inv_def ids_ok_def)
  have gs: "ingested_group cfg ev ?e = rearmed ?n ?bs ?gs"
    by (cases "?gs") (simp add: ingested_group_def rearmed_def Let_def hard_timer_def idle_timer_def)
  have armed: "clkArmed (ingested_clock cfg ev ?e) =
      rearmed_timers (hard_timer cfg ev ?e) (idle_timer cfg ev ?e) ?gs (clkArmed (es_clock s))"
    using ph by (auto simp: ingested_clock_def rearmed_timers_def Let_def phase_ok_def)
  have clk: "clkNow (ingested_clock cfg ev ?e) = clkNow (es_clock s)"
    "clkNext (ingested_clock cfg ev ?e) = (if gsBuckets ?gs = [] then Suc (Suc ?n) else Suc ?n)"
    by (simp_all add: ingested_clock_def Let_def idle_timer_def)
  show ?thesis
    using assms
    by (simp add: timer_inv_def es_arrive_def Ingest_eq gs armed clk ids_ok_rearm armed_ok_rearm
        cap_ok_rearm hard_timer_def idle_timer_def)
qed

lemma timer_inv_step: "engine_step cfg s s' \<Longrightarrow> timer_inv cfg s \<Longrightarrow> timer_inv cfg s'"
  by (induction rule: engine_step.induct)
    (auto intro: timer_inv_tick timer_inv_arrive timer_inv_expire timer_inv_callback)

lemma timer_inv_run: "engine_run cfg s s' \<Longrightarrow> timer_inv cfg s \<Longrightarrow> timer_inv cfg s'"
  by (induction rule: engine_run.induct) (auto intro: timer_inv_step)

section \<open>Properties of the runs\<close>

text \<open>The states of a run that starts with an empty engine.\<close>

definition reachable :: "engine_config \<Rightarrow> engine_sys \<Rightarrow> bool" where
  "reachable cfg s \<longleftrightarrow> (\<exists>now. engine_run cfg (init_sys now) s)"

lemma reachable_run: "reachable cfg s \<Longrightarrow> engine_run cfg s s' \<Longrightarrow> reachable cfg s'"
  unfolding reachable_def by (blast intro: engine_run_trans)

lemma reachable_inv: "reachable cfg s \<Longrightarrow> fifo_inv s \<and> timer_inv cfg s"
  by (auto simp: reachable_def intro: fifo_inv_run timer_inv_run fifo_inv_init timer_inv_init)

text \<open>
  C5: In every reachable state, for each group and trigger, the events handed to flush so far
  followed by those still waiting in the bucket are exactly the events that were ingested, in
  their order of arrival; no event is lost, duplicated or reordered, and no flushed batch is
  empty.
\<close>

theorem engine_exactly_once:
  assumes "reachable cfg s"
  shows "(\<forall>g t. flushed_of g t (esFlushed s) @ waiting_of g t (esEngine s)
            = arrived_of g t (esIngested s)) \<and>
     (\<forall>(g, bs) \<in> set (esFlushed s). bs \<noteq> [] \<and> bucket_ok g bs)"
  using reachable_inv [OF assms] by (simp add: fifo_inv_def)

subsection \<open>Generations\<close>

lemma onTimerFire_stale:
  "gsGeneration (group_of e g) \<noteq> n \<Longrightarrow> onTimerFire g n e = (e, None)"
  by (simp add: onTimerFire_eq)

lemma generation_step:
  "engine_step cfg s s' \<Longrightarrow>
     gsGeneration (group_of (esEngine s) g) \<le> gsGeneration (group_of (esEngine s') g)"
  by (induction rule: engine_step.induct)
    (auto simp: es_tick_def es_arrive_def es_expire_def es_callback_def Ingest_group_of
      ingested_group_def onTimerFire_eq disarmed_def Let_def)

lemma generation_run:
  "engine_run cfg s s' \<Longrightarrow>
     gsGeneration (group_of (esEngine s) g) \<le> gsGeneration (group_of (esEngine s') g)"
  by (induction rule: engine_run.induct) (auto intro: order_trans generation_step)

text \<open>
  C14: After a timer callback of generation n has flushed a group, no callback of that
  generation can ever flush again, however late it obtains the lock: it returns early and
  changes nothing.
\<close>

theorem old_callback_never_flushes:
  assumes "onTimerFire g n (esEngine s) = (e, Some batch)"
    and "engine_run cfg (s\<lparr>esEngine := e\<rparr>) s'"
  shows "onTimerFire g n (esEngine s') = (esEngine s', None)"
proof -
  have "Suc n \<le> gsGeneration (group_of e g)"
    using assms(1) by (auto simp: onTimerFire_eq disarmed_def Let_def split: if_splits)
  also have "\<dots> \<le> gsGeneration (group_of (esEngine s') g)"
    using generation_run [OF assms(2)] by simp
  finally show ?thesis by (intro onTimerFire_stale) simp
qed

subsection \<open>The hard cap\<close>

text \<open>
  A state is prompt if no deadline has passed unnoticed and no callback waits for the lock: the
  runtime has done its part.
\<close>

definition prompt :: "engine_sys \<Rightarrow> bool" where
  "prompt s \<longleftrightarrow> esInflight s = [] \<and>
     (\<forall>tm \<in> set (clkArmed (es_clock s)). clkNow (es_clock s) \<le> tmDeadline tm)"

text \<open>
  What holds of a group from some state on: its batch, of generation \<open>n\<close>, is due by \<open>D\<close>, or the
  events \<open>evs t\<close> that had arrived for it have been flushed.
\<close>

definition due_by :: "string \<Rightarrow> nat \<Rightarrow> int \<Rightarrow> engine_sys \<Rightarrow> bool" where
  "due_by g n D s \<longleftrightarrow>
     (let gs = group_of (esEngine s) g in
      gsGeneration gs = n \<and> gsBuckets gs \<noteq> [] \<and>
      fires_by (clkArmed (es_clock s)) (esInflight s) g n (gsHard gs) D)"

definition all_flushed :: "string \<Rightarrow> (string \<Rightarrow> event list) \<Rightarrow> engine_sys \<Rightarrow> bool" where
  "all_flushed g evs s \<longleftrightarrow> (\<forall>t. \<exists>rest. flushed_of g t (esFlushed s) = evs t @ rest)"

lemma flushed_grows:
  "engine_step cfg s s' \<Longrightarrow> \<exists>fl. esFlushed s' = esFlushed s @ fl"
  by (induction rule: engine_step.induct)
    (auto simp: es_tick_def es_arrive_def es_expire_def es_callback_def split: prod.splits)

lemma arrivals_grow:
  "engine_run cfg s s' \<Longrightarrow> \<exists>evs. esIngested s' = esIngested s @ evs"
proof (induction rule: engine_run.induct)
  case (run_step s t u)
  from run_step.hyps(2) have "\<exists>evs. esIngested u = esIngested t @ evs"
    by (cases rule: engine_step.cases)
      (auto simp: es_tick_def es_arrive_def es_expire_def es_callback_def split: prod.splits)
  with run_step.IH show ?case by auto
qed simp

lemma all_flushed_step:
  "engine_step cfg s s' \<Longrightarrow> all_flushed g evs s \<Longrightarrow> all_flushed g evs s'"
  using flushed_grows [of cfg s s'] by (auto simp: all_flushed_def flushed_of_def) (metis append.assoc)

lemma all_flushed_run:
  "engine_run cfg s s' \<Longrightarrow> all_flushed g evs s \<Longrightarrow> all_flushed g evs s'"
  by (induction rule: engine_run.induct) (auto intro: all_flushed_step)

lemma due_by_tick: "due_by g n D s \<Longrightarrow> due_by g n D (es_tick d s)"
  by (simp add: due_by_def es_tick_def Let_def)

lemma due_by_expire: "due_by g n D s \<Longrightarrow> due_by g n D (es_expire tm s)"
  by (simp add: due_by_def es_expire_def Let_def fires_by_expire)

lemma due_by_arrive:
  assumes "due_by g n D s" and "timer_inv cfg s"
  shows "due_by g n D (es_arrive cfg ev s)"
proof -
  let ?e = "esEngine s"
  let ?gs = "group_of ?e (evGroupKey ev)"
  have ids: "ids_ok (group_of ?e) (clkNext (es_clock s))" and ph: "phase_ok ?gs"
    using assms(2) by (simp_all add: timer_inv_def ids_ok_def)
  have idle: "Some i \<noteq> gsIdle ?gs" if "gsHard (group_of ?e g) = Some i" for i
    using that ph ids_ok_other [OF ids, of g "evGroupKey ev" i]
    by (cases "g = evGroupKey ev") (auto simp: phase_ok_def timer_ids_def split: if_splits)
  have "fires_by (clkArmed (ingested_clock cfg ev ?e)) (esInflight s) g n (gsHard (group_of ?e g)) D"
    using assms(1) fires_by_filter [of _ _ g n _ D "\<lambda>i. Some i \<noteq> gsIdle ?gs"] idle
    by (auto simp: due_by_def ingested_clock_def Let_def)
  with assms(1) show ?thesis
    by (auto simp: due_by_def es_arrive_def Ingest_eq ingested_group_def Let_def)
qed

text \<open>The callback either leaves the batch due or hands all that has arrived to \<open>flush\<close>.\<close>

lemma due_by_callback:
  assumes due: "due_by g n D s" and inv: "timer_inv cfg s" "fifo_inv s"
    and evs: "\<And>t. \<exists>rest. arrived_of g t (esIngested s) = evs t @ rest"
  shows "due_by g n D (es_callback cb s) \<or> all_flushed g evs (es_callback cb s)"
proof (cases "cb = (g, n)")
  case True
  with due have "waiting_of g t (esEngine (es_callback cb s)) = []" for t
    by (simp add: due_by_def es_callback_def onTimerFire_eq disarmed_def waiting_of_def gget_def Let_def)
  moreover have "esIngested (es_callback cb s) = esIngested s"
    by (simp add: es_callback_def split: prod.split)
  ultimately have "flushed_of g t (esFlushed (es_callback cb s)) = arrived_of g t (esIngested s)" for t
    using fifo_inv_callback [OF inv(2), of cb] by (metis append_Nil2 fifo_inv_def)
  with evs show ?thesis by (simp add: all_flushed_def)
next
  case False
  obtain g' m where cb: "cb = (g', m)" by force
  have ids: "ids_ok (group_of (esEngine s)) (clkNext (es_clock s))"
    using inv(1) by (simp add: timer_inv_def)
  show ?thesis
  proof (cases "g' = g")
    case True
    with False cb due have "m \<noteq> gsGeneration (group_of (esEngine s) g)" by (auto simp: due_by_def Let_def)
    then show ?thesis
      using due cb True False
      by (auto simp: due_by_def es_callback_def onTimerFire_eq Let_def intro: fires_by_remove1)
  next
    case g': False
    have "fires_by (filter (\<lambda>tm. tmId tm \<notin> timer_ids (group_of (esEngine s) g')) (clkArmed (es_clock s)))
        (esInflight s) g n (gsHard (group_of (esEngine s) g)) D"
      using due fires_by_filter [of _ _ g n _ D "\<lambda>i. i \<notin> timer_ids (group_of (esEngine s) g')" "[]"]
        ids_ok_other [OF ids, of g g'] g'
      by (auto simp: due_by_def Let_def timer_ids_def)
    with due cb False g' show ?thesis
      by (auto simp: due_by_def es_callback_def onTimerFire_eq fired_clock_armed Let_def
          intro: fires_by_remove1)
  qed
qed

text \<open>Once due, always due or flushed.\<close>

lemma due_by_run:
  assumes "engine_run cfg s s'" and "fifo_inv s" "timer_inv cfg s" and "due_by g n D s"
  shows "due_by g n D s' \<or> all_flushed g (\<lambda>t. arrived_of g t (esIngested s)) s'"
  using assms
proof (induction rule: engine_run.induct)
  case run_refl
  then show ?case by simp
next
  case (run_step s t u)
  let ?evs = "\<lambda>t. arrived_of g t (esIngested s)"
  have inv: "fifo_inv t" "timer_inv cfg t"
    using run_step.hyps(1) run_step.prems fifo_inv_run timer_inv_run by blast+
  have evs: "\<exists>rest. arrived_of g tr (esIngested t) = ?evs tr @ rest" for tr
    using arrivals_grow [OF run_step.hyps(1)] by (auto simp: arrived_of_def)
  show ?case
  proof (cases "due_by g n D t")
    case True
    from run_step.hyps(2) show ?thesis
      by (cases rule: engine_step.cases)
        (use True inv evs in \<open>auto intro: due_by_tick due_by_arrive due_by_expire
            due_by_callback [where evs = ?evs, THEN disjE]\<close>)
  next
    case False
    with run_step show ?thesis by (blast intro: all_flushed_step)
  qed
qed

text \<open>
  C6: Whatever keeps arriving, once more than MaxWait has passed since a state s and the
  runtime has run every callback that was due, all events ingested by s have been handed to
  flush.
\<close>

theorem hard_cap:
  assumes "reachable cfg s" and "engine_run cfg s s'" and "prompt s'"
    and "clkNow (es_clock s') > clkNow (es_clock s) + ecMaxWait cfg"
  shows "\<exists>rest. flushed_of g t (esFlushed s') = arrived_of g t (esIngested s) @ rest"
proof -
  let ?D = "clkNow (es_clock s) + ecMaxWait cfg" and ?gs = "group_of (esEngine s) g"
  have inv: "fifo_inv s" "timer_inv cfg s" using reachable_inv [OF assms(1)] by auto
  have "due_by g (gsGeneration ?gs) ?D s \<or> all_flushed g (\<lambda>t. arrived_of g t (esIngested s)) s"
  proof (cases "gsBuckets ?gs = []")
    case True
    then have "waiting_of g t (esEngine s) = []" for t by (simp add: waiting_of_def gget_def)
    with inv(1) have "flushed_of g t (esFlushed s) = arrived_of g t (esIngested s)" for t
      by (metis append_Nil2 fifo_inv_def)
    then show ?thesis by (simp add: all_flushed_def)
  next
    case False
    with inv(2) show ?thesis by (simp add: due_by_def timer_inv_def cap_ok_def Let_def)
  qed
  then have "due_by g (gsGeneration ?gs) ?D s' \<or> all_flushed g (\<lambda>t. arrived_of g t (esIngested s)) s'"
  proof
    assume "all_flushed g (\<lambda>t. arrived_of g t (esIngested s)) s"
    with assms(2) show ?thesis by (blast intro: all_flushed_run)
  qed (use due_by_run [OF assms(2) inv] in blast)
  moreover have "\<not> due_by g (gsGeneration ?gs) ?D s'"
    using assms(3,4) by (fastforce simp: due_by_def prompt_def fires_by_def Let_def)
  ultimately show ?thesis by (simp add: all_flushed_def)
qed

subsection \<open>The idle window\<close>

text \<open>
  An arrival leaves exactly one idle timer of its group, armed for IdleWindow from now,
  and does not touch the hard timer, except that the first event of a batch starts it for
  MaxWait.
\<close>

lemma ingest_resets_idle_only:
  assumes "reachable cfg s"
  shows "let g = evGroupKey ev; before = group_of (esEngine s) g;
           after = group_of (Ingest cfg ev (esEngine s)) g;
           armed = {tm \<in> set (clkArmed (engClock (Ingest cfg ev (esEngine s)))). tmGroup tm = g}
    in {tm \<in> armed. Some (tmId tm) = gsIdle after} = {idle_timer cfg ev (esEngine s)} \<and>
       {tm \<in> armed. Some (tmId tm) \<noteq> gsIdle after} =
         (if gsBuckets before = [] then {hard_timer cfg ev (esEngine s)}
          else {tm \<in> set (clkArmed (es_clock s)). tmGroup tm = g \<and> Some (tmId tm) = gsHard before})"
proof -
  let ?n = "clkNext (es_clock s)"
  define g where "g = evGroupKey ev"
  define before where "before = group_of (esEngine s) g"
  define after where "after = group_of (Ingest cfg ev (esEngine s)) g"
  define armed where "armed = set (clkArmed (engClock (Ingest cfg ev (esEngine s))))"
  have inv: "timer_inv cfg s" using reachable_inv [OF assms(1)] by simp
  then have ph: "phase_ok before" and lt: "\<And>tm. tm \<in> set (clkArmed (es_clock s)) \<Longrightarrow> tmId tm < ?n"
    and grp: "\<And>tm. tm \<in> set (clkArmed (es_clock s)) \<Longrightarrow> tmGroup tm = g \<Longrightarrow> tmId tm \<in> timer_ids before"
    by (auto simp: timer_inv_def ids_ok_def armed_ok_def before_def)
  have armed: "armed = {tm \<in> set (clkArmed (es_clock s)). Some (tmId tm) \<noteq> gsIdle before} \<union>
      {idle_timer cfg ev (esEngine s)} \<union> (if gsBuckets before = [] then {hard_timer cfg ev (esEngine s)} else {})"
    using ph by (auto simp: armed_def Ingest_eq ingested_clock_def before_def g_def phase_ok_def Let_def
        split: if_splits)
  have idle: "gsIdle after = Some (tmId (idle_timer cfg ev (esEngine s)))"
    by (simp add: after_def g_def Ingest_group_of ingested_group_def Let_def)
  have fresh: "tmId (idle_timer cfg ev (esEngine s)) \<ge> ?n"
    "tmGroup (idle_timer cfg ev (esEngine s)) = g" "tmGroup (hard_timer cfg ev (esEngine s)) = g"
    "gsBuckets before = [] \<Longrightarrow> tmId (hard_timer cfg ev (esEngine s)) \<noteq> tmId (idle_timer cfg ev (esEngine s))"
    by (simp_all add: idle_timer_def hard_timer_def before_def g_def)
  have "{tm \<in> armed. tmGroup tm = g \<and> Some (tmId tm) = gsIdle after} = {idle_timer cfg ev (esEngine s)}"
    using fresh lt by (fastforce simp: armed idle split: if_splits)
  moreover have "{tm \<in> armed. tmGroup tm = g \<and> Some (tmId tm) \<noteq> gsIdle after} =
      (if gsBuckets before = [] then {hard_timer cfg ev (esEngine s)}
       else {tm \<in> set (clkArmed (es_clock s)). tmGroup tm = g \<and> Some (tmId tm) = gsHard before})"
    using fresh lt grp ph
    by (fastforce simp: armed idle phase_ok_def timer_ids_def split: if_splits)
  ultimately show ?thesis
    by (simp add: Let_def flip: g_def before_def after_def armed_def)
qed

text \<open>
  A reachable engine has at most two armed timers per group, and none for a group in which
  nothing is waiting.
\<close>

lemma timers_per_group:
  assumes "reachable cfg s"
  shows "card {tm \<in> set (clkArmed (es_clock s)). tmGroup tm = g} \<le> 2 \<and>
    (gsBuckets (group_of (esEngine s) g) = [] \<longrightarrow>
       {tm \<in> set (clkArmed (es_clock s)). tmGroup tm = g} = {})"
proof -
  let ?T = "{tm \<in> set (clkArmed (es_clock s)). tmGroup tm = g}" and ?gs = "group_of (esEngine s) g"
  have inv: "armed_ok (group_of (esEngine s)) (clkArmed (es_clock s))" "phase_ok ?gs"
    using reachable_inv [OF assms] by (auto simp: timer_inv_def ids_ok_def)
  then have sub: "tmId ` ?T \<subseteq> timer_ids ?gs" and inj: "inj_on tmId ?T"
    by (auto simp: armed_ok_def distinct_map intro: inj_on_subset)
  have "card (timer_ids ?gs) \<le> 2" "finite (timer_ids ?gs)"
    using inv(2) by (auto simp: phase_ok_def timer_ids_def split: if_splits)
  with card_mono [OF _ sub] have "card ?T \<le> 2" by (simp add: card_image [OF inj])
  moreover have "timer_ids ?gs = {}" if "gsBuckets ?gs = []"
    using that inv(2) by (simp add: phase_ok_def timer_ids_def)
  ultimately show ?thesis using sub by auto
qed

subsection \<open>Everything that arrives can be flushed\<close>

lemma expire_all:
  assumes "\<forall>tm \<in> set (clkArmed (es_clock s)). tmDeadline tm \<le> clkNow (es_clock s)"
  shows "\<exists>s'. engine_run cfg s s' \<and> clkArmed (es_clock s') = [] \<and> esIngested s' = esIngested s"
  using assms
proof (induction "length (clkArmed (es_clock s))" arbitrary: s)
  case 0
  then show ?case by (auto intro: engine_run.run_refl)
next
  case (Suc k)
  from Suc.hyps(2) obtain tm where tm: "tm \<in> set (clkArmed (es_clock s))"
    by (metis length_0_conv list.set_sel(1) nat.distinct(1))
  let ?t = "es_expire tm s"
  have "k = length (clkArmed (es_clock ?t))"
    using tm Suc.hyps(2) by (simp add: es_expire_def length_remove1)
  moreover have "\<forall>tm \<in> set (clkArmed (es_clock ?t)). tmDeadline tm \<le> clkNow (es_clock ?t)"
    using Suc.prems by (auto simp: es_expire_def dest: notin_set_remove1)
  ultimately obtain s' where "engine_run cfg ?t s'" "clkArmed (es_clock s') = []"
      "esIngested s' = esIngested ?t"
    using Suc.hyps(1) by blast
  moreover have "engine_run cfg s ?t"
    using tm Suc.prems by (auto intro: engine_run.intros engine_step.expire)
  ultimately show ?case by (auto simp: es_expire_def intro: engine_run_trans)
qed

lemma call_all:
  assumes "clkArmed (es_clock s) = []"
  shows "\<exists>s'. engine_run cfg s s' \<and> clkArmed (es_clock s') = [] \<and> esInflight s' = [] \<and>
    esIngested s' = esIngested s"
  using assms
proof (induction "length (esInflight s)" arbitrary: s)
  case 0
  then show ?case by (auto intro: engine_run.run_refl)
next
  case (Suc k)
  from Suc.hyps(2) obtain cb where cb: "cb \<in> set (esInflight s)"
    by (metis length_0_conv list.set_sel(1) nat.distinct(1))
  let ?t = "es_callback cb s"
  have t: "esIngested ?t = esIngested s" "clkArmed (es_clock ?t) = []"
    "esInflight ?t = remove1 cb (esInflight s)"
    using Suc.prems
    by (auto simp: es_callback_def onTimerFire_eq fired_clock_def Let_def split: prod.splits if_splits)
  then have "k = length (esInflight ?t)" using cb Suc.hyps(2) by (simp add: length_remove1)
  with t obtain s' where "engine_run cfg ?t s'" "clkArmed (es_clock s') = []" "esInflight s' = []"
      "esIngested s' = esIngested s"
    using Suc.hyps(1) [of ?t] by auto
  moreover have "engine_run cfg s ?t"
    using cb by (auto intro: engine_run.intros engine_step.callback)
  ultimately show ?case by (auto intro: engine_run_trans)
qed

lemma quiescent_flushed:
  assumes "reachable cfg s" and "clkArmed (es_clock s) = []" and "esInflight s = []"
  shows "gsBuckets (group_of (esEngine s) g) = [] \<and>
    flushed_of g t (esFlushed s) = arrived_of g t (esIngested s)"
proof -
  have inv: "fifo_inv s" "timer_inv cfg s" using reachable_inv [OF assms(1)] by auto
  have empty: "gsBuckets (group_of (esEngine s) g) = []" for g
    using inv(2) assms(2,3) by (auto simp: timer_inv_def cap_ok_def fires_by_def)
  then have "waiting_of g t (esEngine s) = []" by (simp add: waiting_of_def gget_def)
  with inv(1) empty show ?thesis by (metis append_Nil2 fifo_inv_def)
qed

text \<open>
  From every reachable state the passing of time and the timer callbacks alone lead to a
  state in which every ingested event has been flushed and no bucket holds anything.
\<close>

lemma engine_can_drain:
  assumes "reachable cfg s"
  shows "\<exists>s'. engine_run cfg s s' \<and> esIngested s' = esIngested s \<and>
    (\<forall>g t. gsBuckets (group_of (esEngine s') g) = [] \<and>
       flushed_of g t (esFlushed s') = arrived_of g t (esIngested s))"
proof -
  define late where
    "late = Max (insert 0 ((\<lambda>tm. tmDeadline tm - clkNow (es_clock s)) ` set (clkArmed (es_clock s))))"
  let ?t = "es_tick late s"
  have "0 \<le> late" by (simp add: late_def)
  then have tick: "engine_run cfg s ?t" by (blast intro: engine_run.intros engine_step.tick)
  have "tmDeadline tm - clkNow (es_clock s) \<le> late" if "tm \<in> set (clkArmed (es_clock s))" for tm
    using that by (simp add: late_def)
  then have "\<forall>tm \<in> set (clkArmed (es_clock ?t)). tmDeadline tm \<le> clkNow (es_clock ?t)"
    by (force simp: es_tick_def)
  then obtain u where u: "engine_run cfg ?t u" "clkArmed (es_clock u) = []" "esIngested u = esIngested ?t"
    using expire_all by blast
  then obtain s' where s': "engine_run cfg u s'" "clkArmed (es_clock s') = []" "esInflight s' = []"
      "esIngested s' = esIngested u"
    using call_all by blast
  have run: "engine_run cfg s s'" using tick u(1) s'(1) by (blast intro: engine_run_trans)
  moreover have "esIngested s' = esIngested s" using u(3) s'(4) by (simp add: es_tick_def)
  ultimately show ?thesis
    using quiescent_flushed [OF reachable_run [OF assms run] s'(2,3)] by auto
qed

section \<open>Splitting a batch by session\<close>

definition batch_of_key :: "engine_config \<Rightarrow> string \<Rightarrow> buckets \<Rightarrow> session_key \<Rightarrow> event list" where
  "batch_of_key cfg g bs key =
     concat (map (\<lambda>(t, evs). filter (\<lambda>ev. session_key_of cfg g t ev = key) evs) bs)"

text \<open>One event appended to the batch of its session key.\<close>

definition add_to_session :: "engine_config \<Rightarrow> string \<Rightarrow> string \<Rightarrow> event \<Rightarrow>
    (session_key, event list) gomap \<Rightarrow> (session_key, event list) gomap" where
  "add_to_session cfg g t ev m =
     gput (session_key_of cfg g t ev) (gget [] m (session_key_of cfg g t ev) @ [ev]) m"

definition split_ok :: "(session_key, event list) gomap \<Rightarrow> bool" where
  "split_ok m \<longleftrightarrow> gwf m \<and> (\<forall>k. map_of m k \<noteq> Some [])"

lemma sessionize_eq:
  "sessionize cfg g bs = fold (\<lambda>(t, evs). fold (add_to_session cfg g t) evs) bs []"
  by (simp add: sessionize_def add_to_session_def [abs_def] Let_def)

lemma split_ok_add [wf_intros]: "split_ok m \<Longrightarrow> split_ok (add_to_session cfg g t ev m)"
  by (simp add: split_ok_def add_to_session_def)

lemma gget_add_to_session:
  "gget [] (add_to_session cfg g t ev m) k =
     gget [] m k @ (if session_key_of cfg g t ev = k then [ev] else [])"
  by (auto simp: add_to_session_def gget_def)

lemma fold_add_to_session:
  "split_ok m \<Longrightarrow> split_ok (fold (add_to_session cfg g t) evs m) \<and>
     gget [] (fold (add_to_session cfg g t) evs m) k =
       gget [] m k @ filter (\<lambda>ev. session_key_of cfg g t ev = k) evs"
  by (induction evs arbitrary: m) (simp_all add: gget_add_to_session split_ok_add)

lemma fold_buckets:
  "split_ok m \<Longrightarrow> split_ok (fold (\<lambda>(t, evs). fold (add_to_session cfg g t) evs) bs m) \<and>
     gget [] (fold (\<lambda>(t, evs). fold (add_to_session cfg g t) evs) bs m) k =
       gget [] m k @ batch_of_key cfg g bs k"
  by (induction bs arbitrary: m) (simp_all add: batch_of_key_def fold_add_to_session split_beta)

text \<open>The batch of each session key, in the order of the buckets.\<close>

lemma sessionize_split:
  "gwf (sessionize cfg g bs) \<and>
   (\<forall>key. map_of (sessionize cfg g bs) key =
      (if batch_of_key cfg g bs key = [] then None else Some (batch_of_key cfg g bs key)))"
proof -
  have "split_ok []" by (simp add: split_ok_def)
  from fold_buckets [OF this, of cfg g bs]
  have ok: "split_ok (sessionize cfg g bs)"
    and get: "\<And>key. gget [] (sessionize cfg g bs) key = batch_of_key cfg g bs key"
    by (simp_all add: sessionize_eq gget_def)
  have "map_of (sessionize cfg g bs) key =
      (if batch_of_key cfg g bs key = [] then None else Some (batch_of_key cfg g bs key))" for key
    using ok get [of key]
    by (cases "map_of (sessionize cfg g bs) key") (auto simp: split_ok_def gget_def)
  with ok show ?thesis by (simp add: split_ok_def)
qed

lemma sessionize_keys:
  "(key, evs) \<in> set (sessionize cfg g bs) \<Longrightarrow> evs = batch_of_key cfg g bs key \<and> evs \<noteq> []"
  using sessionize_split [of cfg g bs] map_of_is_SomeI [of "sessionize cfg g bs" key evs]
  by (metis option.inject option.discI)

text \<open>The events of a flushed batch belong to the session they are published under.\<close>

definition in_session :: "engine_config \<Rightarrow> session_key \<Rightarrow> event \<Rightarrow> bool" where
  "in_session cfg key ev \<longleftrightarrow> key = session_key_of cfg (evGroupKey ev) (evTrigger ev) ev"

lemma batch_in_session:
  assumes "bucket_ok g bs" and "ev \<in> set (batch_of_key cfg g bs key)"
  shows "in_session cfg key ev"
proof -
  from assms(2) obtain t evs where "(t, evs) \<in> set bs" "ev \<in> set evs" "session_key_of cfg g t ev = key"
    by (auto simp: batch_of_key_def)
  moreover from this(1) assms(1) have "map_of bs t = Some evs"
    by (simp add: bucket_ok_def map_of_eq_Some_iff)
  with assms(1) \<open>ev \<in> set evs\<close> have "evGroupKey ev = g \<and> evTrigger ev = t"
    unfolding bucket_ok_def by blast
  ultimately show ?thesis by (simp add: in_session_def)
qed

section \<open>The publisher behind the engine\<close>

text \<open>
  A session whose \<open>Upsert\<close> fails does not keep the others from being published, and the log
  names exactly the failed ones.
\<close>

lemma publish_all_state:
  "snd (publish_all upsert m s) = fold (\<lambda>(key, evs) s. snd (upsert key evs s)) m s"
  by (induction m arbitrary: s) (auto simp: Let_def split_beta)

text \<open>
  What the engine relies on: \<open>Upsert\<close> keeps the publisher's invariant when it is given a
  non-empty list of events of the session it is called for.
\<close>

locale publisher =
  fixes upsert :: "session_key \<Rightarrow> event list \<Rightarrow> 's \<Rightarrow> 'err list \<times> 's"
    and inv :: "'s \<Rightarrow> bool"
    and cfg :: engine_config
  assumes upsert_inv: "inv s \<Longrightarrow> evs \<noteq> [] \<Longrightarrow> \<forall>ev \<in> set evs. in_session cfg key ev \<Longrightarrow>
    inv (snd (upsert key evs s))"
begin

lemma publish_all_inv:
  assumes "inv s" and "\<forall>(key, evs) \<in> set m. evs \<noteq> [] \<and> (\<forall>ev \<in> set evs. in_session cfg key ev)"
  shows "inv (snd (publish_all upsert m s))"
  using assms
proof (induction m arbitrary: s)
  case Nil
  then show ?case by simp
next
  case (Cons p m)
  obtain key evs where "p = (key, evs)" by force
  with Cons show ?case by (simp add: publish_all_state upsert_inv del: publish_all.simps)
qed

lemma flush_inv: "inv s \<Longrightarrow> bucket_ok g bs \<Longrightarrow> inv (snd (flush upsert cfg g bs s))"
  unfolding flush_def
  by (rule publish_all_inv) (auto dest: sessionize_keys intro: batch_in_session)

end

text \<open>
  flush splits a batch into one list per session key: the list of a key holds, bucket
  after bucket and in order of arrival, exactly the events whose revision (and trigger, where
  triggers are not combined) match the key, and no key has an empty list.
\<close>

lemma sessionize_partition:
  "gwf (sessionize cfg g bs) \<and>
   (\<forall>key. map_of (sessionize cfg g bs) key =
      (if batch_of_key cfg g bs key = [] then None else Some (batch_of_key cfg g bs key)))"
  by (rule sessionize_split)

section \<open>A sample run\<close>

text \<open>One arrival, then its idle timer: fired, its callback run, and a long quiet period.\<close>

definition sample_key :: session_key where
  "sample_key = \<lparr>skGroupKey = ''g'', skRevision = ''r1'', skTrigger = []\<rparr>"

definition sample_cfg :: engine_config where
  "sample_cfg = \<lparr>ecIdleWindow = 10, ecMaxWait = 100, ecCombineTriggers = True\<rparr>"

lemma sample_in_session [simp]: "in_session sample_cfg sample_key (sample_event a t)"
  by (simp add: in_session_def sample_key_def session_key_of_def sample_cfg_def sample_event_def zero_event_def)

definition sample_timer :: timer where
  "sample_timer = \<lparr>tmId = 1, tmDeadline = 10, tmGroup = ''g'', tmGen = 0\<rparr>"

definition sample_arrived :: engine_sys where
  "sample_arrived = es_arrive sample_cfg created (init_sys 0)"

definition sample_fired :: engine_sys where
  "sample_fired = es_expire sample_timer (es_tick 10 sample_arrived)"

definition sample_quiet :: engine_sys where
  "sample_quiet = es_tick 200 (es_callback (''g'', 0) sample_fired)"

lemma sample_arrived_reachable: "reachable sample_cfg sample_arrived"
  unfolding reachable_def sample_arrived_def by (blast intro: engine_run.intros engine_step.arrive)

lemma sample_run: "engine_run sample_cfg sample_arrived sample_quiet"
proof -
  have "sample_timer \<in> set (clkArmed (es_clock (es_tick 10 sample_arrived)))"
    "tmDeadline sample_timer \<le> clkNow (es_clock (es_tick 10 sample_arrived))"
    "(''g'', 0) \<in> set (esInflight sample_fired)" by code_simp+
  then have steps: "engine_step sample_cfg sample_arrived (es_tick 10 sample_arrived)"
    "engine_step sample_cfg (es_tick 10 sample_arrived) sample_fired"
    "engine_step sample_cfg sample_fired (es_callback (''g'', 0) sample_fired)"
    "engine_step sample_cfg (es_callback (''g'', 0) sample_fired) sample_quiet"
    by (simp_all add: sample_fired_def sample_quiet_def engine_step.intros)
  show ?thesis
    by (rule run_step [OF run_step [OF run_step [OF run_step [OF run_refl]]]]) (rule steps)+
qed

lemma engine_exactly_once_witness:
  "flushed_of ''g'' ''on-created'' (esFlushed sample_quiet) @
     waiting_of ''g'' ''on-created'' (esEngine sample_quiet) = [created]"
proof -
  have "arrived_of ''g'' ''on-created'' (esIngested sample_quiet) = [created]" by code_simp
  with engine_exactly_once [OF reachable_run [OF sample_arrived_reachable sample_run]] show ?thesis by simp
qed

lemma timers_per_group_witness:
  "card {tm \<in> set (clkArmed (es_clock sample_arrived)). tmGroup tm = ''g''} \<le> 2"
  using timers_per_group [OF sample_arrived_reachable] by blast

lemma old_callback_never_flushes_witness:
  "onTimerFire ''g'' 0 (esEngine (es_tick 1 (sample_fired\<lparr>esEngine := fst (onTimerFire ''g'' 0 (esEngine sample_fired))\<rparr>))) =
     (esEngine (es_tick 1 (sample_fired\<lparr>esEngine := fst (onTimerFire ''g'' 0 (esEngine sample_fired))\<rparr>)), None)"
proof -
  have "onTimerFire ''g'' 0 (esEngine sample_fired) =
      (fst (onTimerFire ''g'' 0 (esEngine sample_fired)), Some (''g'', [(''on-created'', [created])]))"
    by code_simp
  moreover have "engine_run sample_cfg s (es_tick 1 s)" for s
    by (blast intro: engine_run.intros engine_step.tick zero_le_one)
  ultimately show ?thesis by (rule old_callback_never_flushes)
qed

lemma hard_cap_witness:
  "\<exists>rest. flushed_of ''g'' ''on-created'' (esFlushed sample_quiet) = [created] @ rest"
proof -
  have "prompt sample_quiet" "clkNow (es_clock sample_quiet) > clkNow (es_clock sample_arrived) + ecMaxWait sample_cfg"
    "arrived_of ''g'' ''on-created'' (esIngested sample_arrived) = [created]"
    by code_simp+
  with hard_cap [OF sample_arrived_reachable sample_run, of "''g''" "''on-created''"]
  show ?thesis by simp
qed

lemma ingest_resets_idle_only_witness:
  "{tm \<in> set (clkArmed (engClock (Ingest sample_cfg deployed (esEngine sample_arrived)))).
      tmGroup tm = ''g'' \<and> Some (tmId tm) = gsIdle (group_of (Ingest sample_cfg deployed (esEngine sample_arrived)) ''g'')} =
    {idle_timer sample_cfg deployed (esEngine sample_arrived)}"
proof -
  have "evGroupKey deployed = ''g''" by code_simp
  with ingest_resets_idle_only [OF sample_arrived_reachable, of deployed]
  show ?thesis by (simp add: Let_def conj_assoc)
qed

lemma engine_can_drain_witness:
  "\<exists>s'. engine_run sample_cfg sample_arrived s' \<and> flushed_of ''g'' ''on-created'' (esFlushed s') = [created]"
proof -
  have "arrived_of ''g'' ''on-created'' (esIngested sample_arrived) = [created]" by code_simp
  with engine_can_drain [OF sample_arrived_reachable] show ?thesis by metis
qed

end
