(* ===== verification/Session.thy ===== *)
theory Session
  imports Notification Engine
begin

text \<open>
  Package \<open>internal/aggregator\<close>, files session.go and resolver.go, with the backend interfaces of
  \<open>internal/notification\<close>: the session store that turns a batch into backend calls.

  A backend is a record of the methods it has; an interface it does not implement is \<open>None\<close>, so
  Go's type assertion is a case distinction. Its methods pass a world \<open>'w\<close> on, which stands for
  everything outside the session store (registry, time, network, the backends themselves), and
  fail with an error of type \<open>'e\<close>. Every call that is made is recorded with its result.

  \<open>Upsert\<close> holds the lock twice, not throughout. It is the composition of \<open>upsert_begin\<close> (first
  locked section), \<open>deliver\<close> (no lock), \<open>upsert_commit\<close> (second locked section) and
  \<open>thread_replies\<close> (no lock), so that two concurrent calls can be interleaved.
\<close>

section \<open>Backends\<close>

record ref_key =
  rkBackend :: string
  rkRecipient :: string

type_synonym message_refs = "(ref_key, string) gomap"

type_synonym ('w, 'e) notify_method = "'w \<Rightarrow> string \<Rightarrow> string \<Rightarrow> notification \<Rightarrow> ('e + string) \<times> 'w"
type_synonym ('w, 'e) post_method = "'w \<Rightarrow> string \<Rightarrow> notification \<Rightarrow> ('e + string) \<times> 'w"
type_synonym ('w, 'e) update_method = "'w \<Rightarrow> string \<Rightarrow> string \<Rightarrow> notification \<Rightarrow> 'e option \<times> 'w"
type_synonym ('w, 'e) reply_method = "'w \<Rightarrow> string \<Rightarrow> string \<Rightarrow> string \<Rightarrow> 'e option \<times> 'w"

record ('w, 'e) backend_obj =
  boNotify :: "('w, 'e) notify_method option"
  boPost :: "('w, 'e) post_method option"
  boUpdate :: "('w, 'e) update_method option"
  boThreadReply :: "('w, 'e) reply_method option"

datatype 'e backend_call =
    Notified ref_key string notification "'e + string"
  | Updated ref_key string notification "'e option"
  | Posted ref_key notification "'e + string"
  | Replied ref_key string string "'e option"

datatype 'e publish_error =
    BuildFailed ref_key build_error
  | NoBackendRegistered string
  | NotifyFailed ref_key 'e
  | NeitherInterface string
  | UpdateFailed ref_key 'e
  | PostFailed ref_key 'e
  | ThreadReplyFailed ref_key 'e

section \<open>State and configuration\<close>

text \<open>
  \<open>stAddr\<close> is the address of the session object: \<open>cur == st\<close> compares pointers. \<open>spNext\<close> is the
  next free address.
\<close>

record session_state =
  stAddr :: nat
  stPerApp :: "(string, event) gomap"
  stRefs :: message_refs
  stLastFlush :: int

record session_publisher =
  spSessions :: "(session_key, session_state) gomap"
  spNext :: nat

text \<open>
  The configuration and collaborators. \<open>spSha256Hex\<close> is the hex digest of SHA-256 and
  \<open>spRFC3339\<close> the time format of the thread note; nothing is assumed about either.
\<close>

record ('w, 'e) publisher_deps =
  spSessionTTL :: int
  spDuplicateAction :: string
  spBuild :: "(string, event) gomap \<Rightarrow> build_error + notification"
  spResolve :: "'w \<Rightarrow> string \<Rightarrow> ('w, 'e) backend_obj option"
  spSha256Hex :: "string \<Rightarrow> string"
  spRFC3339 :: "int \<Rightarrow> string"

definition DuplicateActionDrop :: string where
  "DuplicateActionDrop = ''drop''"

definition DuplicateActionThread :: string where
  "DuplicateActionThread = ''thread''"

definition newSessionPublisher :: session_publisher where
  "newSessionPublisher = \<lparr>spSessions = [], spNext = 0\<rparr>"

section \<open>Helpers\<close>

definition content_string :: "event \<Rightarrow> string" where
  "content_string ev = evTrigger ev @ ''|'' @ evRevision ev @ ''|'' @ evSyncPhase ev @ ''|'' @
     evHealthStatus ev @ ''|'' @ evOperationMsg ev"

definition contentHash :: "(string \<Rightarrow> string) \<Rightarrow> event \<Rightarrow> string" where
  "contentHash sha ev = sha (content_string ev)"

definition splitRecipients :: "string \<Rightarrow> string list" where
  "splitRecipients raw =
     (if raw = [] then [] else filter (\<lambda>p. p \<noteq> []) (map trim_space (split_on (CHR '';'') raw)))"

text \<open>\<open>out[rk][appName] = ev\<close>, with the inner map created on first use.\<close>

definition add_app :: "ref_key \<Rightarrow> string \<Rightarrow> event \<Rightarrow>
    (ref_key, (string, event) gomap) gomap \<Rightarrow> (ref_key, (string, event) gomap) gomap" where
  "add_app rk appName ev out = gput rk (gput appName ev (gget [] out rk)) out"

definition groupAppsByBackendRecipient :: "(string, event) gomap \<Rightarrow>
    (ref_key, (string, event) gomap) gomap" where
  "groupAppsByBackendRecipient perApp =
     fold (\<lambda>(appName, ev) out.
         fold (\<lambda>recipient out.
             add_app \<lparr>rkBackend = evBackend ev, rkRecipient = recipient\<rparr> appName ev out)
           (splitRecipients (evRecipient ev)) out)
       perApp []"

section \<open>Upsert\<close>

text \<open>The loop over the events of a batch: per-app state, duplicates and the changed flag.\<close>

fun absorb :: "(string \<Rightarrow> string) \<Rightarrow> event list \<Rightarrow> (string, event) gomap \<times> event list \<times> bool \<Rightarrow>
    (string, event) gomap \<times> event list \<times> bool" where
  "absorb sha [] acc = acc"
| "absorb sha (ev # evs) (perApp, duplicates, changed) =
     (case map_of perApp (evAppName ev) of
        Some prior \<Rightarrow>
          if contentHash sha prior = contentHash sha ev
          then absorb sha evs (perApp, duplicates @ [ev], changed)
          else absorb sha evs (gput (evAppName ev) ev perApp, duplicates, True)
      | None \<Rightarrow> absorb sha evs (gput (evAppName ev) ev perApp, duplicates, True))"

text \<open>What the first locked section leaves in local variables.\<close>

record upsert_local =
  ulAddr :: nat
  ulNow :: int
  ulDuplicates :: "event list"
  ulChanged :: bool
  ulPerApp :: "(string, event) gomap"
  ulRefs :: message_refs

definition current_session :: "('w, 'e) publisher_deps \<Rightarrow> int \<Rightarrow> session_key \<Rightarrow> session_publisher \<Rightarrow>
    session_state \<times> nat" where
  "current_session deps now key sp =
     (let fresh = (\<lparr>stAddr = spNext sp, stPerApp = [], stRefs = [], stLastFlush = now\<rparr>,
                   Suc (spNext sp))
      in case map_of (spSessions sp) key of
           None \<Rightarrow> fresh
         | Some st \<Rightarrow> if time_sub now (stLastFlush st) > spSessionTTL deps then fresh
                     else (st, spNext sp))"

definition upsert_begin :: "('w, 'e) publisher_deps \<Rightarrow> int \<Rightarrow> session_key \<Rightarrow> event list \<Rightarrow>
    session_publisher \<Rightarrow> upsert_local \<times> session_publisher" where
  "upsert_begin deps now key events sp =
     (let (st, next) = current_session deps now key sp;
          (perApp, duplicates, changed) = absorb (spSha256Hex deps) events (stPerApp st, [], False);
          perAppSnapshot = maps_copy [] perApp;
          refsSnapshot = maps_copy [] (stRefs st);
          st = st\<lparr>stPerApp := perApp, stLastFlush := now\<rparr>
      in (\<lparr>ulAddr = stAddr st, ulNow = now, ulDuplicates = duplicates, ulChanged = changed,
           ulPerApp = perAppSnapshot, ulRefs = refsSnapshot\<rparr>,
          \<lparr>spSessions = gput key st (spSessions sp), spNext = next\<rparr>))"

text \<open>What the delivery loop accumulates.\<close>

record ('w, 'e) delivery =
  dErrs :: "'e publish_error list"
  dNewRefs :: message_refs
  dCalls :: "'e backend_call list"
  dWorld :: 'w

text \<open>The body of the loop over the destinations.\<close>

definition deliver_group :: "('w, 'e) publisher_deps \<Rightarrow> message_refs \<Rightarrow>
    ref_key \<times> (string, event) gomap \<Rightarrow> ('w, 'e) delivery \<Rightarrow> ('w, 'e) delivery" where
  "deliver_group deps refs g d =
     (let (rk, apps) = g in
      case spBuild deps apps of
        Inl err \<Rightarrow> d\<lparr>dErrs := dErrs d @ [BuildFailed rk err]\<rparr>
      | Inr n \<Rightarrow>
          (case spResolve deps (dWorld d) (rkBackend rk) of
             None \<Rightarrow> d\<lparr>dErrs := dErrs d @ [NoBackendRegistered (rkBackend rk)]\<rparr>
           | Some backend \<Rightarrow>
               (case boNotify backend of
                  Some notify \<Rightarrow>
                    (let ref = gget [] refs rk;
                         (res, w) = notify (dWorld d) (rkRecipient rk) ref n;
                         d = d\<lparr>dWorld := w, dCalls := dCalls d @ [Notified rk ref n res]\<rparr>
                     in case res of
                          Inl err \<Rightarrow> d\<lparr>dErrs := dErrs d @ [NotifyFailed rk err]\<rparr>
                        | Inr newRef \<Rightarrow> d\<lparr>dNewRefs := gput rk newRef (dNewRefs d)\<rparr>)
                | None \<Rightarrow>
                    (case boPost backend of
                       None \<Rightarrow> d\<lparr>dErrs := dErrs d @ [NeitherInterface (rkBackend rk)]\<rparr>
                     | Some post \<Rightarrow>
                         (case (boUpdate backend, map_of refs rk) of
                            (Some update, Some ref) \<Rightarrow>
                              (let (err, w) = update (dWorld d) (rkRecipient rk) ref n;
                                   d = d\<lparr>dWorld := w, dCalls := dCalls d @ [Updated rk ref n err]\<rparr>
                               in case err of
                                    Some err \<Rightarrow> d\<lparr>dErrs := dErrs d @ [UpdateFailed rk err]\<rparr>
                                  | None \<Rightarrow> d)
                          | (canUpdate, _) \<Rightarrow>
                              (let (res, w) = post (dWorld d) (rkRecipient rk) n;
                                   d = d\<lparr>dWorld := w, dCalls := dCalls d @ [Posted rk n res]\<rparr>
                               in case res of
                                    Inl err \<Rightarrow> d\<lparr>dErrs := dErrs d @ [PostFailed rk err]\<rparr>
                                  | Inr ref \<Rightarrow>
                                      if canUpdate \<noteq> None
                                      then d\<lparr>dNewRefs := gput rk ref (dNewRefs d)\<rparr>
                                      else d))))))"

definition deliver :: "('w, 'e) publisher_deps \<Rightarrow> message_refs \<Rightarrow>
    (ref_key, (string, event) gomap) gomap \<Rightarrow> 'w \<Rightarrow> ('w, 'e) delivery" where
  "deliver deps refs groups w =
     fold (deliver_group deps refs) groups
       \<lparr>dErrs = [], dNewRefs = [], dCalls = [], dWorld = w\<rparr>"

definition upsert_commit :: "session_key \<Rightarrow> nat \<Rightarrow> message_refs \<Rightarrow> session_publisher \<Rightarrow>
    session_publisher" where
  "upsert_commit key addr newRefs sp =
     (if length newRefs > 0
      then (case map_of (spSessions sp) key of
              Some cur \<Rightarrow>
                if stAddr cur = addr
                then sp\<lparr>spSessions := gput key (cur\<lparr>stRefs := maps_copy (stRefs cur) newRefs\<rparr>)
                                        (spSessions sp)\<rparr>
                else sp
            | None \<Rightarrow> sp)
      else sp)"

definition thread_note :: "('w, 'e) publisher_deps \<Rightarrow> int \<Rightarrow> event \<Rightarrow> string" where
  "thread_note deps now ev = evAppName ev @ '' reported '' @ evTrigger ev @
     '' again (unchanged) at '' @ spRFC3339 deps now"

text \<open>The inner loop: one reply under every message of the session the event was routed to.\<close>

definition reply_to :: "('w, 'e) reply_method \<Rightarrow> string \<Rightarrow> string \<Rightarrow> message_refs \<Rightarrow> string \<Rightarrow>
    ('w, 'e) delivery \<Rightarrow> ('w, 'e) delivery" where
  "reply_to reply backendName note refs recipient d =
     (let rk = \<lparr>rkBackend = backendName, rkRecipient = recipient\<rparr> in
      case map_of refs rk of
        None \<Rightarrow> d
      | Some ref \<Rightarrow>
          (let (err, w) = reply (dWorld d) recipient ref note;
               d = d\<lparr>dWorld := w, dCalls := dCalls d @ [Replied rk ref note err]\<rparr>
           in case err of
                Some err \<Rightarrow> d\<lparr>dErrs := dErrs d @ [ThreadReplyFailed rk err]\<rparr>
              | None \<Rightarrow> d))"

definition thread_reply :: "('w, 'e) publisher_deps \<Rightarrow> int \<Rightarrow> message_refs \<Rightarrow> event \<Rightarrow>
    ('w, 'e) delivery \<Rightarrow> ('w, 'e) delivery" where
  "thread_reply deps now refs ev d =
     (case spResolve deps (dWorld d) (evBackend ev) of
        None \<Rightarrow> d\<lparr>dErrs := dErrs d @ [NoBackendRegistered (evBackend ev)]\<rparr>
      | Some backend \<Rightarrow>
          (case boThreadReply backend of
             None \<Rightarrow> d
           | Some reply \<Rightarrow>
               fold (reply_to reply (evBackend ev) (thread_note deps now ev) refs)
                 (splitRecipients (evRecipient ev)) d))"

definition thread_replies :: "('w, 'e) publisher_deps \<Rightarrow> upsert_local \<Rightarrow>
    ('w, 'e) delivery \<Rightarrow> ('w, 'e) delivery" where
  "thread_replies deps ul d =
     (if spDuplicateAction deps = DuplicateActionThread
      then fold (thread_reply deps (ulNow ul) (ulRefs ul)) (ulDuplicates ul) d
      else d)"

text \<open>The delivery of one call of \<open>Upsert\<close>, between its two locked sections.\<close>

definition upsert_deliver :: "('w, 'e) publisher_deps \<Rightarrow> upsert_local \<Rightarrow> 'w \<Rightarrow> ('w, 'e) delivery" where
  "upsert_deliver deps ul w =
     deliver deps (ulRefs ul)
       (if ulChanged ul then groupAppsByBackendRecipient (ulPerApp ul) else []) w"

text \<open>The whole call, run without interference. The result is what is left of the delivery.\<close>

definition Upsert :: "('w, 'e) publisher_deps \<Rightarrow> int \<Rightarrow> session_key \<Rightarrow> event list \<Rightarrow>
    session_publisher \<Rightarrow> 'w \<Rightarrow> ('w, 'e) delivery \<times> session_publisher" where
  "Upsert deps now key events sp w =
     (if length events = 0 then (\<lparr>dErrs = [], dNewRefs = [], dCalls = [], dWorld = w\<rparr>, sp)
      else (let (ul, sp) = upsert_begin deps now key events sp;
                d = upsert_deliver deps ul w;
                sp = upsert_commit key (ulAddr ul) (dNewRefs d) sp;
                d = thread_replies deps ul d
            in (d, sp)))"

section \<open>The per-app state: last write wins\<close>

definition same_content :: "(string \<Rightarrow> string) \<Rightarrow> event \<Rightarrow> event \<Rightarrow> bool" where
  "same_content sha e ev \<longleftrightarrow> contentHash sha e = contentHash sha ev"

definition app_events :: "string \<Rightarrow> event list \<Rightarrow> event list" where
  "app_events a evs = filter (\<lambda>ev. evAppName ev = a) evs"

lemma absorb_gwf: "absorb sha evs (m, ds, c) = (m', ds', c') \<Longrightarrow> gwf m \<Longrightarrow> gwf m'"
  by (induction evs arbitrary: m ds c) (auto split: option.splits if_splits)

lemma absorb_other:
  "absorb sha evs (m, ds, c) = (m', ds', c') \<Longrightarrow> app_events a evs = [] \<Longrightarrow> map_of m' a = map_of m a"
  by (induction evs arbitrary: m ds c) (auto simp: app_events_def split: option.splits if_splits)

lemma absorb_latest:
  "absorb sha evs (m, ds, c) = (m', ds', c') \<Longrightarrow> app_events a evs \<noteq> [] \<Longrightarrow>
     \<exists>e. map_of m' a = Some e \<and> same_content sha e (last (app_events a evs))"
proof (induction evs arbitrary: m ds c)
  case Nil
  then show ?case by (simp add: app_events_def)
next
  case (Cons ev evs)
  obtain m1 ds1 c1 where step: "absorb sha evs (m1, ds1, c1) = (m', ds', c')"
    and m1: "\<exists>e. map_of m1 (evAppName ev) = Some e \<and> same_content sha e ev"
    using Cons.prems(1) by (auto simp: same_content_def split: option.splits if_splits)
  show ?case
  proof (cases "app_events a evs = []")
    case True
    with Cons.prems(2) have "evAppName ev = a" "last (app_events a (ev # evs)) = ev"
      by (auto simp: app_events_def split: if_splits)
    with m1 absorb_other [OF step True] show ?thesis by auto
  next
    case False
    with Cons.IH [OF step False] show ?thesis by (simp add: app_events_def)
  qed
qed

lemma absorb_dups:
  "absorb sha evs (m, ds, c) = (m', ds', c') \<Longrightarrow>
     \<exists>new. ds' = ds @ new \<and> set new \<subseteq> set evs \<and> length new \<le> length evs \<and>
       (c' \<longleftrightarrow> c \<or> length new < length evs)"
proof (induction evs arbitrary: m ds c)
  case Nil
  then show ?case by simp
next
  case (Cons ev evs)
  show ?case
  proof (cases "\<exists>p. map_of m (evAppName ev) = Some p \<and> contentHash sha p = contentHash sha ev")
    case True
    with Cons.prems have "absorb sha evs (m, ds @ [ev], c) = (m', ds', c')" by auto
    from Cons.IH [OF this] obtain new where "ds' = (ds @ [ev]) @ new" "set new \<subseteq> set evs"
      "length new \<le> length evs" "c' \<longleftrightarrow> c \<or> length new < length evs" by blast
    then show ?thesis by (intro exI [of _ "ev # new"]) auto
  next
    case False
    with Cons.prems have "absorb sha evs (gput (evAppName ev) ev m, ds, True) = (m', ds', c')"
      by (auto split: option.splits if_splits)
    from Cons.IH [OF this] show ?thesis by auto
  qed
qed

lemma absorb_duplicates:
  assumes "\<forall>ev \<in> set evs. \<exists>p. map_of m (evAppName ev) = Some p \<and> same_content sha p ev"
  shows "absorb sha evs (m, ds, c) = (m, ds @ evs, c)"
  using assms by (induction evs arbitrary: ds) (auto simp: same_content_def)

lemma absorb_unchanged:
  "absorb sha evs (m, ds, c) = (m', ds', False) \<Longrightarrow> m' = m \<and> ds' = ds @ evs \<and> \<not> c"
proof (induction evs arbitrary: m ds c)
  case (Cons ev evs)
  have "c'" if "absorb sha es (m1, ds1, True) = (m', ds', c')" for es m1 ds1 c'
    using absorb_dups [OF that] by auto
  with Cons show ?case by (fastforce split: option.splits if_splits)
qed simp

section \<open>Well-formedness\<close>

definition perapp_ok :: "engine_config \<Rightarrow> session_key \<Rightarrow> (string, event) gomap \<Rightarrow> bool" where
  "perapp_ok cfg key m \<longleftrightarrow> gwf m \<and>
     (\<forall>a ev. map_of m a = Some ev \<longrightarrow> evAppName ev = a \<and> in_session cfg key ev)"

definition publisher_ok :: "engine_config \<Rightarrow> session_publisher \<Rightarrow> bool" where
  "publisher_ok cfg sp \<longleftrightarrow> gwf (spSessions sp) \<and>
     (\<forall>key st. map_of (spSessions sp) key = Some st \<longrightarrow>
        perapp_ok cfg key (stPerApp st) \<and> gwf (stRefs st) \<and> stAddr st < spNext sp) \<and>
     (\<forall>key key' st st'. map_of (spSessions sp) key = Some st \<longrightarrow>
        map_of (spSessions sp) key' = Some st' \<longrightarrow> stAddr st = stAddr st' \<longrightarrow> key = key')"

lemma perapp_ok_Nil [simp, wf_intros]: "perapp_ok cfg key []"
  by (simp add: perapp_ok_def)

lemma perapp_ok_put [wf_intros]:
  "perapp_ok cfg key m \<Longrightarrow> in_session cfg key ev \<Longrightarrow> perapp_ok cfg key (gput (evAppName ev) ev m)"
  by (auto simp: perapp_ok_def)

lemma perapp_ok_absorb [wf_intros]:
  "absorb sha evs (m, ds, c) = (m', ds', c') \<Longrightarrow> perapp_ok cfg key m \<Longrightarrow>
     \<forall>ev \<in> set evs. in_session cfg key ev \<Longrightarrow> perapp_ok cfg key m'"
  by (induction evs arbitrary: m ds c) (auto intro: perapp_ok_put split: option.splits if_splits)

lemma current_session_ok:
  assumes "publisher_ok cfg sp" and "current_session deps now key sp = (st, nxt)"
  shows "perapp_ok cfg key (stPerApp st) \<and> gwf (stRefs st) \<and> stAddr st < nxt \<and> spNext sp \<le> nxt \<and>
    (\<forall>key' st'. map_of (spSessions sp) key' = Some st' \<longrightarrow> stAddr st' = stAddr st \<longrightarrow> key' = key)"
  using assms
  by (fastforce simp: current_session_def publisher_ok_def Let_def split: option.splits if_splits)

lemma publisher_ok_begin [wf_intros]:
  assumes "publisher_ok cfg sp" and "\<forall>ev \<in> set evs. in_session cfg key ev"
    and "upsert_begin deps now key evs sp = (ul, sp')"
  shows "publisher_ok cfg sp' \<and> perapp_ok cfg key (ulPerApp ul) \<and> gwf (ulRefs ul)"
proof -
  obtain st nxt where st: "current_session deps now key sp = (st, nxt)" by force
  obtain m ds c where m: "absorb (spSha256Hex deps) evs (stPerApp st, [], False) = (m, ds, c)"
    by (metis prod_cases3)
  note ok = current_session_ok [OF assms(1) st]
  have "perapp_ok cfg key m" using perapp_ok_absorb [OF m _ assms(2)] ok by blast
  with assms(1,3) st m ok show ?thesis
    by (fastforce simp: upsert_begin_def publisher_ok_def perapp_ok_def Let_def split: if_splits)
qed

lemma publisher_ok_commit [wf_intros]:
  "publisher_ok cfg sp \<Longrightarrow> publisher_ok cfg (upsert_commit key addr newRefs sp)"
  by (auto simp: upsert_commit_def publisher_ok_def split: option.split if_splits)

lemma publisher_ok_Upsert:
  assumes "publisher_ok cfg sp" and "\<forall>ev \<in> set evs. in_session cfg key ev"
  shows "publisher_ok cfg (snd (Upsert deps now key evs sp w))"
  using assms
  by (auto simp: Upsert_def Let_def split: prod.splits dest: publisher_ok_begin intro: publisher_ok_commit)

text \<open>The store as the publisher of the engine; time is read from the world.\<close>

definition publish :: "('w, 'e) publisher_deps \<Rightarrow> ('w \<Rightarrow> int) \<Rightarrow> session_key \<Rightarrow> event list \<Rightarrow>
    session_publisher \<times> 'w \<Rightarrow> 'e publish_error list \<times> session_publisher \<times> 'w" where
  "publish deps clock_now key evs s =
     (let (sp, w) = s; (d, sp) = Upsert deps (clock_now w) key evs sp w
      in (dErrs d, sp, dWorld d))"

interpretation store: publisher "publish deps clock_now" "\<lambda>s. publisher_ok cfg (fst s)" cfg
  for deps :: "('w, 'e) publisher_deps" and clock_now cfg
proof
  fix s :: "session_publisher \<times> 'w" and evs key
  assume "publisher_ok cfg (fst s)" "\<forall>ev \<in> set evs. in_session cfg key ev"
  then have "publisher_ok cfg (snd (Upsert deps (clock_now (snd s)) key evs (fst s) (snd s)))"
    by (rule publisher_ok_Upsert)
  then show "publisher_ok cfg (fst (snd (publish deps clock_now key evs s)))"
    by (simp add: publish_def Let_def split_beta)
qed

section \<open>Grouping by destination\<close>

definition routed :: "ref_key \<Rightarrow> event \<Rightarrow> bool" where
  "routed rk ev \<longleftrightarrow> evBackend ev = rkBackend rk \<and>
     rkRecipient rk \<in> set (splitRecipients (evRecipient ev))"

definition apps_of :: "ref_key \<Rightarrow> (string, event) gomap \<Rightarrow> (string, event) gomap" where
  "apps_of rk perApp = filter (\<lambda>(a, ev). routed rk ev) perApp"

definition groups_wf :: "(ref_key, (string, event) gomap) gomap \<Rightarrow> bool" where
  "groups_wf out \<longleftrightarrow> gwf out \<and> (\<forall>rk. map_of out rk \<noteq> Some [])"

lemma groups_wf_add [wf_intros]: "groups_wf out \<Longrightarrow> groups_wf (add_app rk a ev out)"
  by (simp add: groups_wf_def add_app_def)

lemma add_apps:
  "groups_wf out \<Longrightarrow>
     groups_wf (fold (\<lambda>r. add_app \<lparr>rkBackend = b, rkRecipient = r\<rparr> a ev) rs out) \<and>
     gget [] (fold (\<lambda>r. add_app \<lparr>rkBackend = b, rkRecipient = r\<rparr> a ev) rs out) rk =
       (if rkBackend rk = b \<and> rkRecipient rk \<in> set rs then gput a ev (gget [] out rk)
        else gget [] out rk)"
proof (induction rs arbitrary: out)
  case Nil
  then show ?case by simp
next
  case (Cons r rs)
  have "gget [] (add_app \<lparr>rkBackend = b, rkRecipient = r\<rparr> a ev out) rk =
      (if rk = \<lparr>rkBackend = b, rkRecipient = r\<rparr> then gput a ev (gget [] out rk) else gget [] out rk)"
    by (auto simp: add_app_def gget_def)
  moreover have "rk = \<lparr>rkBackend = b, rkRecipient = r\<rparr> \<longleftrightarrow> rkBackend rk = b \<and> rkRecipient rk = r"
    by (cases rk) auto
  ultimately show ?case using Cons.IH [OF groups_wf_add [OF Cons.prems]] by auto
qed

lemma group_apps_fold:
  assumes "groups_wf out"
  shows "groups_wf (fold (\<lambda>(a, ev). fold (\<lambda>r. add_app \<lparr>rkBackend = evBackend ev, rkRecipient = r\<rparr> a ev)
             (splitRecipients (evRecipient ev))) m out) \<and>
     gget [] (fold (\<lambda>(a, ev). fold (\<lambda>r. add_app \<lparr>rkBackend = evBackend ev, rkRecipient = r\<rparr> a ev)
             (splitRecipients (evRecipient ev))) m out) rk =
       maps_copy (gget [] out rk) (apps_of rk m)"
  using assms
proof (induction m arbitrary: out)
  case Nil
  then show ?case by (simp add: apps_of_def)
next
  case (Cons p m)
  obtain a ev where p: "p = (a, ev)" by force
  note step = add_apps [OF Cons.prems, of "evBackend ev" a ev "splitRecipients (evRecipient ev)"]
  show ?case
    using Cons.IH [OF step [THEN conjunct1]] step
    by (auto simp: p apps_of_def maps_copy_def routed_def)
qed

lemma group_apps:
  assumes "gwf m"
  shows "gwf (groupAppsByBackendRecipient m) \<and>
    map_of (groupAppsByBackendRecipient m) rk = (if apps_of rk m = [] then None else Some (apps_of rk m))"
proof -
  have e: "groupAppsByBackendRecipient m =
      fold (\<lambda>(a, ev). fold (\<lambda>r. add_app \<lparr>rkBackend = evBackend ev, rkRecipient = r\<rparr> a ev)
             (splitRecipients (evRecipient ev))) m []"
    by (simp add: groupAppsByBackendRecipient_def)
  have "groups_wf []" by (simp add: groups_wf_def)
  from group_apps_fold [OF this, of m]
  have wf: "groups_wf (groupAppsByBackendRecipient m)"
    and get: "gget [] (groupAppsByBackendRecipient m) rk = maps_copy [] (apps_of rk m)"
    by (simp_all add: e gget_def)
  have "gwf (apps_of rk m)" using assms by (simp add: apps_of_def distinct_map_filter)
  with wf get show ?thesis
    by (cases "map_of (groupAppsByBackendRecipient m) rk") (auto simp: groups_wf_def gget_def)
qed

section \<open>The delivery loop\<close>

fun call_dest :: "'e backend_call \<Rightarrow> ref_key" where
  "call_dest (Notified rk ref n res) = rk"
| "call_dest (Updated rk ref n res) = rk"
| "call_dest (Posted rk n res) = rk"
| "call_dest (Replied rk ref text res) = rk"

text \<open>The message of a call, and the reference it names (a plain post has none).\<close>

fun call_note :: "'e backend_call \<Rightarrow> notification option" where
  "call_note (Notified rk ref n res) = Some n"
| "call_note (Updated rk ref n res) = Some n"
| "call_note (Posted rk n res) = Some n"
| "call_note (Replied rk ref text res) = None"

definition call_matches :: "('w, 'e) publisher_deps \<Rightarrow> message_refs \<Rightarrow>
    ref_key \<times> (string, event) gomap \<Rightarrow> 'e backend_call \<Rightarrow> bool" where
  "call_matches deps refs g c \<longleftrightarrow> call_dest c = fst g \<and>
     (\<exists>n. spBuild deps (snd g) = Inr n \<and> call_note c = Some n) \<and>
     (case c of Notified rk ref n res \<Rightarrow> ref = gget [] refs rk
      | Updated rk ref n res \<Rightarrow> map_of refs rk = Some ref
      | _ \<Rightarrow> True)"

abbreviation no_delivery :: "'w \<Rightarrow> ('w, 'e) delivery" where
  "no_delivery w \<equiv> \<lparr>dErrs = [], dNewRefs = [], dCalls = [], dWorld = w\<rparr>"

text \<open>One round of the loop does not depend on what earlier rounds accumulated, but for the world.\<close>

definition add_delivery :: "('w, 'e) delivery \<Rightarrow> ('w, 'e) delivery \<Rightarrow> ('w, 'e) delivery" where
  "add_delivery d r = \<lparr>dErrs = dErrs d @ dErrs r, dNewRefs = maps_copy (dNewRefs d) (dNewRefs r),
     dCalls = dCalls d @ dCalls r, dWorld = dWorld r\<rparr>"

lemma deliver_group_split:
  "deliver_group deps refs g d = add_delivery d (deliver_group deps refs g (no_delivery (dWorld d)))"
  by (cases g; cases d)
    (simp add: deliver_group_def add_delivery_def maps_copy_def Let_def split_beta
      split: sum.split option.split)

lemma deliver_group_result:
  "(dCalls (deliver_group deps refs g (no_delivery w)) = [] \<and>
      dNewRefs (deliver_group deps refs g (no_delivery w)) = [] \<and>
      dWorld (deliver_group deps refs g (no_delivery w)) = w \<and>
      length (dErrs (deliver_group deps refs g (no_delivery w))) = 1) \<or>
   (\<exists>c. dCalls (deliver_group deps refs g (no_delivery w)) = [c] \<and> call_matches deps refs g c \<and>
      (dNewRefs (deliver_group deps refs g (no_delivery w)) = [] \<or>
       (\<exists>r. dNewRefs (deliver_group deps refs g (no_delivery w)) = [(fst g, r)])) \<and>
      (\<forall>rk ref n r. c = Notified rk ref n (Inr r) \<longrightarrow>
         dNewRefs (deliver_group deps refs g (no_delivery w)) = [(rk, r)]))"
  by (cases g)
    (simp add: deliver_group_def call_matches_def Let_def split_beta split: sum.split option.split)

end
