(* ===== verification/Delivery.thy ===== *)
theory Delivery
  imports Session
begin

text \<open>
  What the session store promises, over sequences of \<open>Upsert\<close>: which messages a batch sends and
  to whom, which reference each of them edits, what a repeated batch does, and what two
  overlapping calls do. The definitions are those of theory \<open>Session\<close>.
\<close>

section \<open>The delivery loop as a whole\<close>

abbreviation one_group :: "('w, 'e) publisher_deps \<Rightarrow> message_refs \<Rightarrow>
    ref_key \<times> (string, event) gomap \<Rightarrow> 'w \<Rightarrow> ('w, 'e) delivery" where
  "one_group deps refs g w \<equiv> deliver_group deps refs g (no_delivery w)"

lemma add_delivery_Nil [simp]: "add_delivery d (no_delivery (dWorld d)) = d"
  by (cases d) (simp add: add_delivery_def)

lemma deliver_Nil [simp]: "deliver deps refs [] w = no_delivery w"
  by (simp add: deliver_def)

lemma deliver_snoc:
  "deliver deps refs (gs @ [g]) w =
     add_delivery (deliver deps refs gs w) (one_group deps refs g (dWorld (deliver deps refs gs w)))"
  by (simp add: deliver_def) (rule deliver_group_split)

lemma one_group_cases:
  obtains (silent) "dCalls (one_group deps refs g w) = []" "dNewRefs (one_group deps refs g w) = []"
      "dWorld (one_group deps refs g w) = w" "length (dErrs (one_group deps refs g w)) = 1"
    | (call) c where "dCalls (one_group deps refs g w) = [c]" "call_matches deps refs g c"
      "dNewRefs (one_group deps refs g w) = [] \<or> (\<exists>r. dNewRefs (one_group deps refs g w) = [(fst g, r)])"
      "\<And>rk ref n r. c = Notified rk ref n (Inr r) \<Longrightarrow> dNewRefs (one_group deps refs g w) = [(rk, r)]"
  using deliver_group_result [of deps refs g w] by blast

text \<open>Every destination gets at most one call, in the order of the groups.\<close>

lemma deliver_calls:
  "\<exists>gs. subseq gs groups \<and> list_all2 (call_matches deps refs) gs (dCalls (deliver deps refs groups w))"
proof (induction groups rule: rev_induct)
  case Nil
  then show ?case by simp
next
  case (snoc g groups)
  let ?d = "deliver deps refs groups w"
  obtain gs where gs: "subseq gs groups" "list_all2 (call_matches deps refs) gs (dCalls ?d)"
    using snoc.IH by blast
  show ?case
  proof (cases rule: one_group_cases [of deps refs g "dWorld ?d"])
    case silent
    with gs show ?thesis by (auto simp: deliver_snoc add_delivery_def intro: list_emb_append2)
  next
    case (call c)
    with gs have "subseq (gs @ [g]) (groups @ [g])"
      "list_all2 (call_matches deps refs) (gs @ [g]) (dCalls (deliver deps refs (groups @ [g]) w))"
      by (auto simp: deliver_snoc add_delivery_def list_all2_appendI intro: subseq_append')
    then show ?thesis by blast
  qed
qed

lemma subseq_gwf: "subseq gs groups \<Longrightarrow> gwf groups \<Longrightarrow> gwf gs \<and> set gs \<subseteq> set groups"
  by (induction rule: list_emb.induct) auto

lemma list_all2_set2:
  "list_all2 P xs ys \<Longrightarrow> y \<in> set ys \<Longrightarrow> \<exists>x \<in> set xs. P x y"
  by (induction rule: list_all2_induct) auto

lemma deliver_dests:
  "list_all2 (call_matches deps refs) gs cs \<Longrightarrow> map call_dest cs = map fst gs"
  by (induction rule: list_all2_induct) (simp_all add: call_matches_def)

lemma deliver_distinct:
  assumes "gwf groups"
  shows "distinct (map call_dest (dCalls (deliver deps refs groups w)))"
proof -
  obtain gs where gs: "subseq gs groups"
    "list_all2 (call_matches deps refs) gs (dCalls (deliver deps refs groups w))"
    using deliver_calls [of groups deps refs w] by blast
  from subseq_gwf [OF gs(1) assms] deliver_dests [OF gs(2)] show ?thesis by simp
qed

lemma deliver_matches:
  assumes "gwf groups" and "c \<in> set (dCalls (deliver deps refs groups w))"
  shows "\<exists>g \<in> set groups. call_matches deps refs g c"
proof -
  obtain gs where gs: "subseq gs groups"
    "list_all2 (call_matches deps refs) gs (dCalls (deliver deps refs groups w))"
    using deliver_calls [of groups deps refs w] by blast
  from list_all2_set2 [OF gs(2) assms(2)] have "\<exists>g \<in> set gs. call_matches deps refs g c"
    by blast
  with subseq_gwf [OF gs(1) assms(1)] show ?thesis by blast
qed


section \<open>Thread replies\<close>

text \<open>A reply names a message of the session the event is routed to.\<close>

definition reply_ok :: "('w, 'e) publisher_deps \<Rightarrow> int \<Rightarrow> message_refs \<Rightarrow> event list \<Rightarrow>
    'e backend_call \<Rightarrow> bool" where
  "reply_ok deps now refs evs c \<longleftrightarrow>
     (case c of Replied rk ref note res \<Rightarrow> map_of refs rk = Some ref \<and>
        (\<exists>ev \<in> set evs. routed rk ev \<and> note = thread_note deps now ev)
      | _ \<Rightarrow> False)"

text \<open>A stage of the delivery that adds calls of one kind, and no references.\<close>

definition only_adds :: "('e backend_call \<Rightarrow> bool) \<Rightarrow> ('w, 'e) delivery \<Rightarrow> ('w, 'e) delivery \<Rightarrow> bool" where
  "only_adds P d d' \<longleftrightarrow> dNewRefs d' = dNewRefs d \<and>
     (\<exists>cs. dCalls d' = dCalls d @ cs \<and> (\<forall>c \<in> set cs. P c))"

lemma only_adds_refl: "only_adds P d d"
  by (simp add: only_adds_def)

lemma only_adds_trans: "only_adds P d d' \<Longrightarrow> only_adds P d' d'' \<Longrightarrow> only_adds P d d''"
  by (auto simp: only_adds_def)

lemma only_adds_fold:
  "(\<And>x d. x \<in> set xs \<Longrightarrow> only_adds P d (f x d)) \<Longrightarrow> only_adds P d (fold f xs d)"
proof (induction xs arbitrary: d)
  case Nil
  then show ?case by (simp add: only_adds_refl)
next
  case (Cons x xs)
  have "only_adds P d (f x d)" "only_adds P (f x d) (fold f xs (f x d))"
    using Cons by simp_all
  then show ?case by (simp add: only_adds_trans [of P d "f x d"])
qed

lemma reply_to_adds:
  assumes "ev \<in> set evs" and "r \<in> set (splitRecipients (evRecipient ev))"
  shows "only_adds (reply_ok deps now refs evs) d
           (reply_to reply (evBackend ev) (thread_note deps now ev) refs r d)"
  using assms
  by (auto simp: reply_to_def only_adds_def reply_ok_def routed_def Let_def split_beta
      split: option.split)

lemma thread_reply_adds:
  assumes "ev \<in> set evs"
  shows "only_adds (reply_ok deps now refs evs) d (thread_reply deps now refs ev d)"
  using assms
  by (auto simp: thread_reply_def only_adds_refl intro: only_adds_fold reply_to_adds
      split: option.split) (simp add: only_adds_def)

lemma thread_replies_adds:
  "only_adds (reply_ok deps (ulNow ul) (ulRefs ul) (ulDuplicates ul)) d (thread_replies deps ul d)"
  by (simp add: thread_replies_def only_adds_refl only_adds_fold thread_reply_adds)

lemma thread_replies_drop [simp]:
  "spDuplicateAction deps \<noteq> DuplicateActionThread \<Longrightarrow> thread_replies deps ul d = d"
  by (simp add: thread_replies_def)

section \<open>One Upsert\<close>

text \<open>The session \<open>Upsert\<close> works on: the live one, or a new one after the TTL.\<close>

definition session_before :: "('w, 'e) publisher_deps \<Rightarrow> int \<Rightarrow> session_key \<Rightarrow> session_publisher \<Rightarrow>
    session_state" where
  "session_before deps now key sp = fst (current_session deps now key sp)"

text \<open>The calls that carry a message, as opposed to thread replies.\<close>

definition message_calls :: "('w, 'e) delivery \<Rightarrow> 'e backend_call list" where
  "message_calls d = filter (\<lambda>c. call_note c \<noteq> None) (dCalls d)"

lemma call_matches_note: "call_matches deps refs g c \<Longrightarrow> call_note c \<noteq> None"
  by (auto simp: call_matches_def)

lemma reply_ok_note: "reply_ok deps now refs evs c \<Longrightarrow> call_note c = None"
  by (cases c) (simp_all add: reply_ok_def)

lemma upsert_begin_eq:
  assumes "absorb (spSha256Hex deps) evs (stPerApp (session_before deps now key sp), [], False) = (m, ds, ch)"
    and "gwf m" and "gwf (stRefs (session_before deps now key sp))"
  shows "upsert_begin deps now key evs sp =
    (\<lparr>ulAddr = stAddr (session_before deps now key sp), ulNow = now, ulDuplicates = ds,
       ulChanged = ch, ulPerApp = m, ulRefs = stRefs (session_before deps now key sp)\<rparr>,
     \<lparr>spSessions = gput key ((session_before deps now key sp)\<lparr>stPerApp := m, stLastFlush := now\<rparr>)
        (spSessions sp), spNext = snd (current_session deps now key sp)\<rparr>)"
  using assms
  by (simp add: upsert_begin_def session_before_def Let_def split_beta)

text \<open>The parts of a call: the batch absorbed by the session, and the messages sent for it.\<close>

definition absorbed :: "('w, 'e) publisher_deps \<Rightarrow> int \<Rightarrow> session_key \<Rightarrow> event list \<Rightarrow>
    session_publisher \<Rightarrow> (string, event) gomap \<times> event list \<times> bool" where
  "absorbed deps now key evs sp =
     absorb (spSha256Hex deps) evs (stPerApp (session_before deps now key sp), [], False)"

definition message_groups :: "('w, 'e) publisher_deps \<Rightarrow> int \<Rightarrow> session_key \<Rightarrow> event list \<Rightarrow>
    session_publisher \<Rightarrow> (ref_key, (string, event) gomap) gomap" where
  "message_groups deps now key evs sp =
     (let (m, ds, ch) = absorbed deps now key evs sp
      in if ch then groupAppsByBackendRecipient m else [])"

definition message_delivery :: "('w, 'e) publisher_deps \<Rightarrow> int \<Rightarrow> session_key \<Rightarrow> event list \<Rightarrow>
    session_publisher \<Rightarrow> 'w \<Rightarrow> ('w, 'e) delivery" where
  "message_delivery deps now key evs sp w =
     deliver deps (stRefs (session_before deps now key sp)) (message_groups deps now key evs sp) w"

lemma message_calls_deliver:
  assumes "gwf groups" and "only_adds (reply_ok deps now refs evs) (deliver deps refs' groups w) d"
  shows "message_calls d = dCalls (deliver deps refs' groups w)"
proof -
  obtain cs where "dCalls d = dCalls (deliver deps refs' groups w) @ cs"
    "\<forall>c \<in> set cs. reply_ok deps now refs evs c"
    using assms(2) by (auto simp: only_adds_def)
  moreover have "call_note c \<noteq> None" if "c \<in> set (dCalls (deliver deps refs' groups w))" for c
    using deliver_matches [OF assms(1) that] call_matches_note by blast
  ultimately show ?thesis
    by (auto simp: message_calls_def filter_empty_conv filter_id_conv dest: reply_ok_note)
qed

text \<open>What a call delivers and the session it leaves, in terms of the session before.\<close>

lemma Upsert_effect:
  assumes ok: "publisher_ok cfg sp" and ne: "evs \<noteq> []"
    and up: "Upsert deps now key evs sp w = (d, sp')"
  shows "gwf (fst (absorbed deps now key evs sp))"
    and "gwf (message_groups deps now key evs sp)"
    and "only_adds (reply_ok deps now (stRefs (session_before deps now key sp))
           (fst (snd (absorbed deps now key evs sp)))) (message_delivery deps now key evs sp w) d"
    and "message_calls d = dCalls (message_delivery deps now key evs sp w)"
    and "spDuplicateAction deps \<noteq> DuplicateActionThread \<Longrightarrow> d = message_delivery deps now key evs sp w"
    and "map_of (spSessions sp') = (map_of (spSessions sp))(key \<mapsto>
       (session_before deps now key sp)\<lparr>stPerApp := fst (absorbed deps now key evs sp),
          stLastFlush := now,
          stRefs := maps_copy (stRefs (session_before deps now key sp))
            (dNewRefs (message_delivery deps now key evs sp w))\<rparr>)"
proof -
  let ?s = "session_before deps now key sp" and ?d0 = "message_delivery deps now key evs sp w"
  obtain m ds ch where m: "absorbed deps now key evs sp = (m, ds, ch)"
    by (metis prod_cases3)
  have s: "perapp_ok cfg key (stPerApp ?s)" "gwf (stRefs ?s)"
    using current_session_ok [OF ok, of deps now key "?s" "snd (current_session deps now key sp)"]
    by (simp_all add: session_before_def)
  then have wf: "gwf m" using absorb_gwf [OF m [unfolded absorbed_def]] by (simp add: perapp_ok_def)
  then show "gwf (fst (absorbed deps now key evs sp))" by (simp add: m)
  show g: "gwf (message_groups deps now key evs sp)"
    using group_apps [OF wf] by (simp add: message_groups_def m)
  let ?ul = "fst (upsert_begin deps now key evs sp)"
  note b = upsert_begin_eq [OF m [unfolded absorbed_def] wf s(2)]
  have d0: "upsert_deliver deps ?ul w = ?d0"
    by (simp add: b upsert_deliver_def message_delivery_def message_groups_def m)
  have d: "d = thread_replies deps ?ul ?d0"
    and sp': "sp' = upsert_commit key (ulAddr ?ul) (dNewRefs ?d0) (snd (upsert_begin deps now key evs sp))"
    using up ne by (auto simp: Upsert_def Let_def split_beta d0)
  show adds: "only_adds (reply_ok deps now (stRefs ?s) (fst (snd (absorbed deps now key evs sp)))) ?d0 d"
    using thread_replies_adds [of deps ?ul ?d0] by (simp add: d b m)
  show "message_calls d = dCalls ?d0"
    using message_calls_deliver [OF g adds [unfolded message_delivery_def]]
    by (simp add: message_delivery_def)
  show "d = ?d0" if "spDuplicateAction deps \<noteq> DuplicateActionThread"
    using that by (simp add: d)
  show "map_of (spSessions sp') = (map_of (spSessions sp))(key \<mapsto>
      ?s\<lparr>stPerApp := fst (absorbed deps now key evs sp), stLastFlush := now,
         stRefs := maps_copy (stRefs ?s) (dNewRefs ?d0)\<rparr>)"
    by (cases "dNewRefs ?d0"; cases ?s) (simp_all add: sp' upsert_commit_def b m)
qed

text \<open>Whether a batch brings anything the session does not have yet.\<close>

definition all_known :: "(string \<Rightarrow> string) \<Rightarrow> (string, event) gomap \<Rightarrow> event list \<Rightarrow> bool" where
  "all_known sha m evs \<longleftrightarrow>
     (\<forall>ev \<in> set evs. case map_of m (evAppName ev) of None \<Rightarrow> False
        | Some e \<Rightarrow> same_content sha e ev)"

lemma all_known_iff: "all_known sha m evs \<longleftrightarrow>
    (\<forall>ev \<in> set evs. \<exists>e. map_of m (evAppName ev) = Some e \<and> same_content sha e ev)"
  by (auto simp: all_known_def split: option.split)

lemma absorb_changed_iff:
  assumes "absorb sha evs (m, [], False) = (m', ds, ch)"
  shows "ch \<longleftrightarrow> \<not> all_known sha m evs"
proof
  assume "ch"
  show "\<not> all_known sha m evs"
  proof
    assume "all_known sha m evs"
    with absorb_duplicates [of evs m sha "[]" False] assms \<open>ch\<close> show False
      by (simp add: all_known_iff)
  qed
next
  assume new: "\<not> all_known sha m evs"
  show "ch"
  proof (rule ccontr)
    assume "\<not> ch"
    with assms absorb_unchanged have m: "m' = m" "ds = evs" by fastforce+
    have "\<exists>e. map_of m (evAppName ev) = Some e \<and> same_content sha e ev"
      if "absorb sha xs (m, ds', False) = (m1, ds1, False)" "ev \<in> set xs" for xs ds' m1 ds1 ev
      using that
    proof (induction xs arbitrary: ds')
      case (Cons x xs)
      have "c1" if "absorb sha es (m2, ds2, True) = (m1, ds1, c1)" for es m2 ds2 c1
        using absorb_dups [OF that] by auto
      with Cons show ?case by (fastforce simp: same_content_def split: option.splits if_splits)
    qed simp
    with assms \<open>\<not> ch\<close> new show False by (auto simp: all_known_iff)
  qed
qed

lemma message_groups_eq:
  "message_groups deps now key evs sp =
     (if all_known (spSha256Hex deps) (stPerApp (session_before deps now key sp)) evs then []
      else groupAppsByBackendRecipient (fst (absorbed deps now key evs sp)))"
  using absorb_changed_iff [of "spSha256Hex deps" evs "stPerApp (session_before deps now key sp)"]
  by (cases "absorbed deps now key evs sp") (simp add: message_groups_def absorbed_def)

lemma mem_group_apps:
  "gwf m \<Longrightarrow> (rk, apps) \<in> set (groupAppsByBackendRecipient m) \<longleftrightarrow> apps = apps_of rk m \<and> apps \<noteq> []"
  using group_apps [of m rk] by (auto simp flip: map_of_eq_Some_iff)

lemma dests_group_apps:
  "gwf m \<Longrightarrow> fst ` set (groupAppsByBackendRecipient m) = {rk. apps_of rk m \<noteq> []}"
  by (auto simp: image_iff mem_group_apps Bex_def)

text \<open>
  C9: After Upsert with a batch that is not empty, in a well-formed store, the session exists
  and was flushed now; it holds for each app of the batch an event with the content of the last
  event of the batch for that app, keeps the other apps of the live session, and no other
  session has changed.
\<close>

theorem upsert_last_write_wins:
  assumes "publisher_ok cfg sp" and "evs \<noteq> []" and "Upsert deps now key evs sp w = (d, sp')"
  shows "(\<exists>st. map_of (spSessions sp') key = Some st \<and> stLastFlush st = now \<and>
      (\<forall>a. if app_events a evs = []
           then map_of (stPerApp st) a = map_of (stPerApp (session_before deps now key sp)) a
           else \<exists>e. map_of (stPerApp st) a = Some e \<and>
                    same_content (spSha256Hex deps) e (last (app_events a evs)))) \<and>
    (\<forall>key'. key' \<noteq> key \<longrightarrow> map_of (spSessions sp') key' = map_of (spSessions sp) key')"
proof -
  obtain m ds ch where m: "absorbed deps now key evs sp = (m, ds, ch)" by (metis prod_cases3)
  show ?thesis
    using absorb_other [OF m [unfolded absorbed_def]] absorb_latest [OF m [unfolded absorbed_def]]
    by (simp add: Upsert_effect(6) [OF assms] m)
qed

text \<open>
  C8: In a well-formed store a batch sends at most one message per destination (backend and
  recipient), and each message is built from exactly the apps of the updated session that are
  routed to that destination, under the reference the session holds for it.
\<close>

theorem upsert_delivery:
  assumes "publisher_ok cfg sp" and "evs \<noteq> []" and "Upsert deps now key evs sp w = (d, sp')"
    and "map_of (spSessions sp') key = Some st"
  shows "distinct (map call_dest (message_calls d)) \<and>
    (\<forall>c \<in> set (message_calls d).
       apps_of (call_dest c) (stPerApp st) \<noteq> [] \<and>
       call_matches deps (stRefs (session_before deps now key sp))
         (call_dest c, apps_of (call_dest c) (stPerApp st)) c)"
proof -
  note eff = Upsert_effect [OF assms(1-3)]
  have st: "stPerApp st = fst (absorbed deps now key evs sp)" using assms(4) by (auto simp: eff(6))
  have "apps_of (call_dest c) (stPerApp st) \<noteq> [] \<and>
      call_matches deps (stRefs (session_before deps now key sp))
        (call_dest c, apps_of (call_dest c) (stPerApp st)) c"
    if c: "c \<in> set (dCalls (message_delivery deps now key evs sp w))" for c
  proof -
    obtain rk apps where "(rk, apps) \<in> set (message_groups deps now key evs sp)"
      and mt: "call_matches deps (stRefs (session_before deps now key sp)) (rk, apps) c"
      using deliver_matches [OF eff(2) c [unfolded message_delivery_def]] by auto
    then have "apps = apps_of rk (stPerApp st)" "apps \<noteq> []" "call_dest c = rk"
      by (auto simp: message_groups_eq mem_group_apps [OF eff(1)] st call_matches_def split: if_splits)
    with mt show ?thesis by simp
  qed
  with deliver_distinct [OF eff(2)] show ?thesis by (simp add: eff(4) message_delivery_def)
qed

section \<open>Nothing is left out\<close>

text \<open>
  The resolver of the program hands out remote backends only, and these implement \<open>Notify\<close>
  and \<open>PostThreadReply\<close>. \<open>total_notifiers\<close> adds that every name resolves.
\<close>

definition only_notifiers :: "('w, 'e) publisher_deps \<Rightarrow> bool" where
  "only_notifiers deps \<longleftrightarrow> (\<forall>w b be. spResolve deps w b = Some be \<longrightarrow> boNotify be \<noteq> None)"

definition total_notifiers :: "('w, 'e) publisher_deps \<Rightarrow> bool" where
  "total_notifiers deps \<longleftrightarrow> (\<forall>w b. \<exists>be. spResolve deps w b = Some be \<and> boNotify be \<noteq> None)"

lemma one_group_total:
  assumes "total_notifiers deps" and "spBuild deps (snd g) = Inr n"
  shows "map call_dest (dCalls (one_group deps refs g w)) = [fst g]"
proof -
  obtain be notify where "spResolve deps w (rkBackend (fst g)) = Some be" "boNotify be = Some notify"
    using assms(1) unfolding total_notifiers_def by blast
  with assms(2) show ?thesis
    by (cases g) (simp add: deliver_group_def Let_def split_beta split: sum.split)
qed

lemma deliver_total:
  assumes "total_notifiers deps" and "\<forall>g \<in> set groups. \<exists>n. spBuild deps (snd g) = Inr n"
  shows "map call_dest (dCalls (deliver deps refs groups w)) = map fst groups"
  using assms(2)
proof (induction groups rule: rev_induct)
  case (snoc g groups)
  then show ?case
    using one_group_total [OF assms(1), of g _ refs]
    by (auto simp: deliver_snoc add_delivery_def)
qed simp

lemma apps_of_nonempty:
  "gwf m \<Longrightarrow> apps_of rk m \<noteq> [] \<longleftrightarrow> (\<exists>a ev. map_of m a = Some ev \<and> routed rk ev)"
  by (auto simp: apps_of_def filter_empty_conv map_of_eq_Some_iff)

text \<open>
  C19: In a well-formed store, where every backend name resolves to a notifier and messages are
  made by Build, the destinations that get a message are, for a batch with news, all
  destinations any app of the session is routed to, and none for a batch the session knows
  already.
\<close>

theorem upsert_complete:
  assumes "publisher_ok cfg sp" and "evs \<noteq> []" and "Upsert deps now key evs sp w = (d, sp')"
    and "map_of (spSessions sp') key = Some st"
    and "total_notifiers deps" and "spBuild deps = Build"
  shows "call_dest ` set (message_calls d) =
    (if all_known (spSha256Hex deps) (stPerApp (session_before deps now key sp)) evs then {}
     else {rk. \<exists>a ev. map_of (stPerApp st) a = Some ev \<and> routed rk ev})"
proof -
  note eff = Upsert_effect [OF assms(1-3)]
  have st: "stPerApp st = fst (absorbed deps now key evs sp)" using assms(4) by (auto simp: eff(6))
  let ?g = "message_groups deps now key evs sp"
  have "\<forall>g \<in> set ?g. \<exists>n. spBuild deps (snd g) = Inr n"
    by (auto simp: message_groups_eq mem_group_apps [OF eff(1)] assms(6) Build_def Let_def split_beta
        split: if_splits)
  from deliver_total [OF assms(5) this]
  have "call_dest ` set (message_calls d) = fst ` set ?g"
    by (simp add: eff(4) message_delivery_def flip: set_map)
  also have "\<dots> = (if all_known (spSha256Hex deps) (stPerApp (session_before deps now key sp)) evs
      then {} else {rk. apps_of rk (stPerApp st) \<noteq> []})"
    by (simp add: message_groups_eq dests_group_apps [OF eff(1)] st)
  finally show ?thesis using eff(1) by (simp add: apps_of_nonempty st)
qed


section \<open>Edit in place\<close>

text \<open>The reference a destination is known by after some calls, where it was \<open>ref\<close> before.\<close>

fun known_ref :: "ref_key \<Rightarrow> string \<Rightarrow> 'e backend_call list \<Rightarrow> string" where
  "known_ref rk ref [] = ref"
| "known_ref rk ref (c # cs) =
     (case c of Notified rk' ref' n (Inr newRef) \<Rightarrow>
        known_ref rk (if rk' = rk then newRef else ref) cs
      | _ \<Rightarrow> known_ref rk ref cs)"

lemma known_ref_append: "known_ref rk ref (xs @ ys) = known_ref rk (known_ref rk ref xs) ys"
  by (induction xs arbitrary: ref) (auto split: backend_call.split sum.split)

lemma known_ref_skip: "\<forall>c \<in> set cs. call_note c = None \<Longrightarrow> known_ref rk ref cs = ref"
  by (induction cs) (auto split: backend_call.split)

text \<open>Where every backend is a notifier, \<open>newRefs\<close> holds exactly the results of the calls.\<close>

lemma one_group_refs:
  assumes "only_notifiers deps"
  shows "gget r (dNewRefs (one_group deps refs g w)) rk = known_ref rk r (dCalls (one_group deps refs g w))"
proof -
  have "boNotify be \<noteq> None" if "spResolve deps w (rkBackend (fst g)) = Some be" for be
    using assms that by (simp add: only_notifiers_def)
  then show ?thesis
    by (cases g) (auto simp: deliver_group_def Let_def split_beta gget_def split: sum.split option.split)
qed

lemma gget_maps_copy: "gwf src \<Longrightarrow> gget r (maps_copy dst src) rk = gget (gget r dst rk) src rk"
  by (auto simp: gget_def map_of_maps_copy map_add_def split: option.split)

lemma one_group_refs_wf: "gwf (dNewRefs (one_group deps refs g w))"
  by (cases rule: one_group_cases [of deps refs g w]) auto

lemma deliver_refs_wf: "gwf (dNewRefs (deliver deps refs groups w))"
  by (induction groups rule: rev_induct) (simp_all add: deliver_snoc add_delivery_def)

lemma deliver_refs:
  assumes "only_notifiers deps"
  shows "gget r (dNewRefs (deliver deps refs groups w)) rk = known_ref rk r (dCalls (deliver deps refs groups w))"
proof (induction groups rule: rev_induct)
  case Nil
  then show ?case by (simp add: gget_def)
next
  case (snoc g groups)
  then show ?case
    by (simp add: deliver_snoc add_delivery_def known_ref_append gget_maps_copy one_group_refs_wf
        one_group_refs [OF assms])
qed

text \<open>A sequence of calls for any sessions, each at its own time, one after the other.\<close>

fun upserts :: "('w, 'e) publisher_deps \<Rightarrow> (int \<times> session_key \<times> event list) list \<Rightarrow>
    session_publisher \<Rightarrow> 'w \<Rightarrow> ('w, 'e) delivery list \<times> session_publisher \<times> 'w" where
  "upserts deps [] sp w = ([], sp, w)"
| "upserts deps ((now, key, evs) # us) sp w =
     (let (d, sp) = Upsert deps now key evs sp w;
          (ds, sp, w) = upserts deps us sp (dWorld d)
      in (d # ds, sp, w))"

text \<open>The calls made for one session, and whether it outlives the sequence.\<close>

fun session_calls :: "session_key \<Rightarrow> (int \<times> session_key \<times> event list) list \<Rightarrow>
    ('w, 'e) delivery list \<Rightarrow> 'e backend_call list" where
  "session_calls key ((now, key', evs) # us) (d # ds) =
     (if key' = key then dCalls d else []) @ session_calls key us ds"
| "session_calls key us ds = []"

fun stays_alive :: "int \<Rightarrow> session_key \<Rightarrow> int \<Rightarrow> (int \<times> session_key \<times> event list) list \<Rightarrow> bool" where
  "stays_alive ttl key t [] = True"
| "stays_alive ttl key t ((now, key', evs) # us) =
     (if key' = key \<and> evs \<noteq> [] then time_sub now t \<le> ttl \<and> stays_alive ttl key now us
      else stays_alive ttl key t us)"

fun last_flush :: "session_key \<Rightarrow> int \<Rightarrow> (int \<times> session_key \<times> event list) list \<Rightarrow> int" where
  "last_flush key t [] = t"
| "last_flush key t ((now, key', evs) # us) =
     last_flush key (if key' = key \<and> evs \<noteq> [] then now else t) us"

lemma stays_alive_append:
  "stays_alive ttl key t (us @ v) \<longleftrightarrow> stays_alive ttl key t us \<and> stays_alive ttl key (last_flush key t us) v"
  by (induction ttl key t us rule: stays_alive.induct) auto

lemma session_before_live:
  "map_of (spSessions sp) key = Some st \<Longrightarrow> time_sub now (stLastFlush st) \<le> spSessionTTL deps \<Longrightarrow>
     session_before deps now key sp = st"
  by (simp add: session_before_def current_session_def)

lemma session_before_expired:
  "map_of (spSessions sp) key = None \<or>
     (\<exists>st. map_of (spSessions sp) key = Some st \<and> time_sub now (stLastFlush st) > spSessionTTL deps) \<Longrightarrow>
   stPerApp (session_before deps now key sp) = [] \<and> stRefs (session_before deps now key sp) = []"
  by (auto simp: session_before_def current_session_def Let_def)

lemma Upsert_refs:
  assumes "publisher_ok cfg sp" and "evs \<noteq> []" and "Upsert deps now key evs sp w = (d, sp')"
    and "only_notifiers deps"
  shows "\<exists>st. map_of (spSessions sp') key = Some st \<and> stLastFlush st = now \<and>
    gget [] (stRefs st) rk =
      known_ref rk (gget [] (stRefs (session_before deps now key sp)) rk) (dCalls d)"
proof -
  note eff = Upsert_effect [OF assms(1-3)]
  obtain cs where "dCalls d = dCalls (message_delivery deps now key evs sp w) @ cs"
    "\<forall>c \<in> set cs. call_note c = None"
    using eff(3) reply_ok_note by (fastforce simp: only_adds_def)
  then show ?thesis
    by (simp add: eff(6) gget_maps_copy known_ref_append known_ref_skip message_delivery_def
        deliver_refs_wf deliver_refs [OF assms(4)])
qed

lemma upserts_refs:
  assumes "publisher_ok cfg sp" and "only_notifiers deps"
    and "\<forall>(now, k, evs) \<in> set us. \<forall>ev \<in> set evs. in_session cfg k ev"
    and "map_of (spSessions sp) key = Some st" and "stays_alive (spSessionTTL deps) key (stLastFlush st) us"
    and "upserts deps us sp w = (ds, sp', w')"
  shows "publisher_ok cfg sp' \<and> (\<exists>st'. map_of (spSessions sp') key = Some st' \<and>
    stLastFlush st' = last_flush key (stLastFlush st) us \<and>
    gget [] (stRefs st') rk = known_ref rk (gget [] (stRefs st) rk) (session_calls key us ds))"
  using assms(1,3-)
proof (induction us arbitrary: sp st w ds)
  case Nil
  then show ?case by simp
next
  case (Cons u us)
  obtain now k evs where u: "u = (now, k, evs)" by (metis prod_cases3)
  obtain d sp1 where d: "Upsert deps now k evs sp w = (d, sp1)" by force
  obtain ds1 where rest: "upserts deps us sp1 (dWorld d) = (ds1, sp', w')" "ds = d # ds1"
    using Cons.prems(5) by (auto simp: u d Let_def split: prod.splits)
  have ok1: "publisher_ok cfg sp1"
    using publisher_ok_Upsert [of cfg sp evs k deps now w] Cons.prems(1,2) by (simp add: u d)
  show ?case
  proof (cases "k = key \<and> evs \<noteq> []")
    case True
    then have live: "session_before deps now key sp = st" "stays_alive (spSessionTTL deps) key now us"
      using Cons.prems(3,4) by (auto simp: u session_before_live)
    obtain st1 where "map_of (spSessions sp1) key = Some st1" "stLastFlush st1 = now"
      "gget [] (stRefs st1) rk = known_ref rk (gget [] (stRefs st) rk) (dCalls d)"
      using Upsert_refs [OF Cons.prems(1) _ _ assms(2), of evs now key w d sp1 rk] True d live(1) by auto
    with Cons.IH [OF ok1 _ _ _ rest(1), of st1] Cons.prems(2) live(2) True show ?thesis
      by (simp add: u rest(2) known_ref_append)
  next
    case False
    have "map_of (spSessions sp1) key = Some st \<and> session_calls key (u # us) ds = session_calls key us ds1"
    proof (cases "evs = []")
      case True
      then show ?thesis using d Cons.prems(3) by (auto simp: Upsert_def u rest(2))
    next
      case ne: False
      then show ?thesis
        using False Upsert_effect(6) [OF Cons.prems(1) ne d] Cons.prems(3) by (auto simp: u rest(2))
    qed
    with Cons.IH [OF ok1 _ _ _ rest(1), of st] Cons.prems(2,4) False show ?thesis
      by (auto simp: u)
  qed
qed

text \<open>
  C7: In a well-formed store, where every backend a name resolves to is a notifier, as those of
  the program are: along any sequence of Upsert calls for any sessions, each with events of its
  session, in which a session does not expire, each message sent for a destination of that
  session names the reference returned by the last successful message to it, so later batches
  edit the message in place.
\<close>

theorem edits_follow_last_ref:
  assumes "publisher_ok cfg sp" and "only_notifiers deps"
    and "\<forall>(now, k, evs) \<in> set us. \<forall>ev \<in> set evs. in_session cfg k ev"
    and "map_of (spSessions sp) key = Some st"
    and "stays_alive (spSessionTTL deps) key (stLastFlush st) (us @ [(now, key, evs)])"
    and "upserts deps us sp w = (ds, sp', w')" and "evs \<noteq> []"
    and "Upsert deps now key evs sp' w' = (d, sp'')" and "Notified rk ref n res \<in> set (dCalls d)"
  shows "ref = known_ref rk (gget [] (stRefs st) rk) (session_calls key us ds)"
proof -
  from assms(5,7) have alive: "stays_alive (spSessionTTL deps) key (stLastFlush st) us"
    "time_sub now (last_flush key (stLastFlush st) us) \<le> spSessionTTL deps"
    by (simp_all add: stays_alive_append)
  obtain st' where ok: "publisher_ok cfg sp'" and st': "map_of (spSessions sp') key = Some st'"
    "stLastFlush st' = last_flush key (stLastFlush st) us"
    "gget [] (stRefs st') rk = known_ref rk (gget [] (stRefs st) rk) (session_calls key us ds)"
    using upserts_refs [OF assms(1-4) alive(1) assms(6)] by blast
  have before: "session_before deps now key sp' = st'"
    using session_before_live st' alive(2) by metis
  have "call_note (Notified rk ref n res) \<noteq> None" by simp
  then have "Notified rk ref n res \<in> set (dCalls (message_delivery deps now key evs sp' w'))"
    using assms(9) Upsert_effect(4) [OF ok assms(7,8)] by (simp flip: Upsert_effect(4) [OF ok assms(7,8)] add: message_calls_def)
  then have "ref = gget [] (stRefs st') rk"
    using deliver_matches [OF Upsert_effect(2) [OF ok assms(7,8)]]
    by (fastforce simp: message_delivery_def before call_matches_def)
  with st'(3) show ?thesis by simp
qed


section \<open>Repeated batches and expired sessions\<close>

text \<open>A batch with no news sends nothing in drop mode; it only keeps the session alive.\<close>

lemma Upsert_known:
  assumes "publisher_ok cfg sp" and "evs \<noteq> []" and "Upsert deps now key evs sp w = (d, sp')"
    and "all_known (spSha256Hex deps) (stPerApp (session_before deps now key sp)) evs"
    and "spDuplicateAction deps \<noteq> DuplicateActionThread"
  shows "d = no_delivery w \<and> map_of (spSessions sp') =
    (map_of (spSessions sp))(key \<mapsto> (session_before deps now key sp)\<lparr>stLastFlush := now\<rparr>)"
proof -
  note eff = Upsert_effect [OF assms(1-3)]
  have m: "message_delivery deps now key evs sp w = no_delivery w"
    using assms(4) by (simp add: message_delivery_def message_groups_eq)
  have "absorbed deps now key evs sp = (stPerApp (session_before deps now key sp), evs, False)"
    using assms(4) absorb_duplicates [of evs "stPerApp (session_before deps now key sp)" "spSha256Hex deps" "[]" False]
    by (simp add: absorbed_def all_known_iff)
  then show ?thesis
    using eff(5) [OF assms(5)] eff(6) by (cases "session_before deps now key sp") (simp add: m)
qed

text \<open>
  C28: In drop mode and in a well-formed store, let every event of a batch repeat what the last
  event for its app said in the batch the session got just before, as the same batch does if it
  says one thing of each app. Within the TTL such a batch makes no backend call and reports no
  error, whether or not the delivery of the batch before succeeded; only the flush time of the
  session moves. So a delivery that failed is not made up for by sending its events again.
\<close>

theorem retry_is_silent:
  assumes "publisher_ok cfg sp" and "evs \<noteq> []" and "Upsert deps now key evs sp w = (d, sp1)"
    and "spDuplicateAction deps \<noteq> DuplicateActionThread" and "\<forall>ev \<in> set evs. in_session cfg key ev"
    and "evs' \<noteq> []" and "\<forall>ev \<in> set evs'. app_events (evAppName ev) evs \<noteq> [] \<and>
      same_content (spSha256Hex deps) (last (app_events (evAppName ev) evs)) ev"
    and "time_sub now' now \<le> spSessionTTL deps" and "Upsert deps now' key evs' sp1 w' = (d', sp2)"
  shows "d' = no_delivery w' \<and>
    (\<forall>k. map_option (\<lambda>st. st\<lparr>stLastFlush := 0\<rparr>) (map_of (spSessions sp2) k) =
         map_option (\<lambda>st. st\<lparr>stLastFlush := 0\<rparr>) (map_of (spSessions sp1) k))"
proof -
  have ok: "publisher_ok cfg sp1"
    using publisher_ok_Upsert [OF assms(1,5), of deps now w] assms(3) by simp
  note eff = Upsert_effect [OF assms(1-3)]
  obtain st where st: "map_of (spSessions sp1) key = Some st" "stLastFlush st = now"
    "stPerApp st = fst (absorbed deps now key evs sp)"
    by (simp add: eff(6))
  then have before: "session_before deps now' key sp1 = st"
    using session_before_live assms(8) by metis
  obtain m ds ch where m: "absorbed deps now key evs sp = (m, ds, ch)" by (metis prod_cases3)
  have "all_known (spSha256Hex deps) m evs'"
    unfolding all_known_iff
  proof
    fix ev assume ev: "ev \<in> set evs'"
    with absorb_latest [OF m [unfolded absorbed_def]] assms(7)
    show "\<exists>e. map_of m (evAppName ev) = Some e \<and> same_content (spSha256Hex deps) e ev"
      unfolding same_content_def by fastforce
  qed
  then have "d' = no_delivery w' \<and> map_of (spSessions sp2) = (map_of (spSessions sp1))(key \<mapsto> st\<lparr>stLastFlush := now'\<rparr>)"
    using Upsert_known [OF ok assms(6,9) _ assms(4)] by (simp add: before st(3) m)
  with st(1) show ?thesis by simp
qed

lemma absorb_values:
  "absorb sha es (m, ds, c) = (m', ds', c') \<Longrightarrow> gwf m \<Longrightarrow> snd ` set m' \<subseteq> snd ` set m \<union> set es"
proof (induction es arbitrary: m ds c)
  case (Cons e es)
  show ?case
  proof (cases "\<exists>p. map_of m (evAppName e) = Some p \<and> contentHash sha p = contentHash sha e")
    case True
    with Cons.prems have "absorb sha es (m, ds @ [e], c) = (m', ds', c')" by auto
    from Cons.IH [OF this Cons.prems(2)] show ?thesis by auto
  next
    case False
    with Cons.prems have "absorb sha es (gput (evAppName e) e m, ds, True) = (m', ds', c')"
      by (auto split: option.splits if_splits)
    with Cons.IH Cons.prems(2)
    have all: "snd ` set m' \<subseteq> snd ` set (gput (evAppName e) e m) \<union> set es" by simp
    have "snd ` set (gput (evAppName e) e m) \<subseteq> insert e (snd ` set m)"
      using Cons.prems(2) by (auto simp: mem_gput image_iff split: if_splits)
    from order_trans [OF all Un_mono [OF this subset_refl]] show ?thesis by simp
  qed
qed simp

text \<open>
  C29: When more than the TTL has passed since the last flush of a session in a well-formed
  store, the next message is a new one: it names no earlier reference and is built from events
  of the new batch only.
\<close>

theorem expired_session_starts_over:
  assumes "publisher_ok cfg sp" and "evs \<noteq> []" and "Upsert deps now key evs sp w = (d, sp')"
    and "map_of (spSessions sp) key = Some old" and "time_sub now (stLastFlush old) > spSessionTTL deps"
    and "Notified rk ref n res \<in> set (dCalls d)"
  shows "ref = [] \<and> (\<exists>m. spBuild deps m = Inr n \<and> set (map snd m) \<subseteq> set evs)"
proof -
  note eff = Upsert_effect [OF assms(1-3)]
  have new: "stPerApp (session_before deps now key sp) = []" "stRefs (session_before deps now key sp) = []"
    using session_before_expired [where sp = sp and key = key and now = now and deps = deps] assms(4,5) by auto
  obtain m ds ch where m: "absorbed deps now key evs sp = (m, ds, ch)" by (metis prod_cases3)
  have c: "Notified rk ref n res \<in> set (dCalls (message_delivery deps now key evs sp w))"
    using assms(6) by (simp flip: eff(4) add: message_calls_def)
  obtain g where g: "g \<in> set (message_groups deps now key evs sp)"
    "call_matches deps [] g (Notified rk ref n res)"
    using deliver_matches [OF eff(2) c [unfolded message_delivery_def]] by (auto simp: new)
  obtain rk' apps where "g = (rk', apps)" by force
  with g(1) have "snd g = apps_of (fst g) m"
    using mem_group_apps [OF eff(1), of rk' apps] by (simp add: message_groups_eq m split: if_splits)
  then have "snd ` set (snd g) \<subseteq> set evs"
    using absorb_values [OF m [unfolded absorbed_def]] by (auto simp: apps_of_def new)
  with g(2) show ?thesis by (auto simp: call_matches_def gget_def)
qed

section \<open>One destination cannot hold up another\<close>

text \<open>A destination the resolver does not know, whatever the state of the world.\<close>

definition unresolvable :: "('w, 'e) publisher_deps \<Rightarrow> ref_key \<Rightarrow> bool" where
  "unresolvable deps rk \<longleftrightarrow> (\<forall>w. spResolve deps w (rkBackend rk) = None)"

lemma one_group_unresolvable:
  "unresolvable deps (fst g) \<Longrightarrow>
     \<forall>w. \<exists>e. one_group deps refs g w = (no_delivery w)\<lparr>dErrs := [e]\<rparr>"
  by (cases g) (auto simp: deliver_group_def unresolvable_def split: sum.split)

text \<open>
  C27: Destinations whose backend does not resolve at any time of the delivery add one error
  each and nothing else: calls, references and outside world are those of a delivery to the
  other destinations alone.
\<close>

theorem deliver_isolation:
  assumes "\<forall>g. keep g \<longleftrightarrow> \<not> unresolvable deps (fst g)"
  shows "dCalls (deliver deps refs groups w) = dCalls (deliver deps refs (filter keep groups) w) \<and>
    dNewRefs (deliver deps refs groups w) = dNewRefs (deliver deps refs (filter keep groups) w) \<and>
    dWorld (deliver deps refs groups w) = dWorld (deliver deps refs (filter keep groups) w) \<and>
    length (dErrs (deliver deps refs groups w)) =
      length (dErrs (deliver deps refs (filter keep groups) w)) + length (filter (\<lambda>g. \<not> keep g) groups)"
proof (induction groups rule: rev_induct)
  case (snoc g groups)
  show ?case
  proof (cases "keep g")
    case True
    with snoc show ?thesis by (simp add: deliver_snoc add_delivery_def)
  next
    case False
    with assms have "unresolvable deps (fst g)" by blast
    then obtain e where "one_group deps refs g (dWorld (deliver deps refs groups w)) =
        (no_delivery (dWorld (deliver deps refs groups w)))\<lparr>dErrs := [e]\<rparr>"
      by (rule one_group_unresolvable [THEN spec, THEN exE])
    with snoc False show ?thesis by (simp add: deliver_snoc add_delivery_def)
  qed
qed simp

section \<open>Thread replies go to known messages\<close>

text \<open>
  C30: In a well-formed store a thread reply is posted in thread mode only, under the message
  the session already had for that destination, and its text is the note of an event of the
  batch that is routed there.
\<close>

theorem thread_replies_known:
  assumes "publisher_ok cfg sp" and "evs \<noteq> []" and "Upsert deps now key evs sp w = (d, sp')"
    and "Replied rk ref note res \<in> set (dCalls d)"
  shows "spDuplicateAction deps = DuplicateActionThread \<and>
    map_of (stRefs (session_before deps now key sp)) rk = Some ref \<and>
    (\<exists>ev \<in> set evs. routed rk ev \<and> note = thread_note deps now ev)"
proof -
  note eff = Upsert_effect [OF assms(1-3)]
  let ?r = "Replied rk ref note res"
  have no: "?r \<notin> set (dCalls (message_delivery deps now key evs sp w))"
    by (auto simp: message_delivery_def call_matches_def dest!: deliver_matches [OF eff(2)])
  then have thread: "spDuplicateAction deps = DuplicateActionThread"
    using assms(4) eff(5) by metis
  obtain m ds ch where m: "absorbed deps now key evs sp = (m, ds, ch)" by (metis prod_cases3)
  have "set ds \<subseteq> set evs" using absorb_dups [OF m [unfolded absorbed_def]] by auto
  moreover have "reply_ok deps now (stRefs (session_before deps now key sp)) ds ?r"
    using eff(3) no assms(4) by (auto simp: only_adds_def m)
  ultimately show ?thesis using thread by (auto simp: reply_ok_def)
qed

section \<open>Overlapping calls\<close>

text \<open>
  Two calls for one session, the second entering before the first has committed: both deliver
  with the references of the session they found.
\<close>

lemma overlapping_begins:
  assumes "publisher_ok cfg sp" and "\<forall>ev \<in> set evs1 \<union> set evs2. in_session cfg key ev"
    and "upsert_begin deps now1 key evs1 sp = (ul1, sp1)"
    and "upsert_begin deps now2 key evs2 sp1 = (ul2, sp2)"
    and "time_sub now2 now1 \<le> spSessionTTL deps"
  shows "ulAddr ul2 = ulAddr ul1 \<and> ulRefs ul2 = ulRefs ul1 \<and>
    ulRefs ul1 = stRefs (session_before deps now1 key sp) \<and> gwf (ulPerApp ul1) \<and> gwf (ulPerApp ul2)"
proof -
  let ?s = "session_before deps now1 key sp"
  obtain m ds ch where m: "absorb (spSha256Hex deps) evs1 (stPerApp ?s, [], False) = (m, ds, ch)"
    by (metis prod_cases3)
  have s: "perapp_ok cfg key (stPerApp ?s)" "gwf (stRefs ?s)"
    using current_session_ok [OF assms(1), of deps now1 key "?s" "snd (current_session deps now1 key sp)"]
    by (simp_all add: session_before_def)
  then have wf: "gwf m" using absorb_gwf [OF m] by (simp add: perapp_ok_def)
  note e1 = upsert_begin_eq [OF m wf s(2), unfolded assms(3)]
  let ?t = "?s\<lparr>stPerApp := m, stLastFlush := now1\<rparr>"
  have t: "session_before deps now2 key sp1 = ?t"
    using session_before_live [of sp1 key ?t now2 deps] e1 assms(5) by simp
  obtain m2 ds2 ch2 where m2: "absorb (spSha256Hex deps) evs2 (stPerApp ?t, [], False) = (m2, ds2, ch2)"
    by (metis prod_cases3)
  have wf2: "gwf m2" using absorb_gwf [OF m2] wf by simp
  then show ?thesis
    using upsert_begin_eq [of deps evs2 now2 key sp1 m2 ds2 ch2, unfolded t assms(4)] m2 s(2) e1 wf by simp
qed

text \<open>A destination of the delivery whose backend is a notifier gets its message.\<close>

definition resolves_to_notifier :: "('w, 'e) publisher_deps \<Rightarrow> string \<Rightarrow> bool" where
  "resolves_to_notifier deps b \<longleftrightarrow> (\<forall>w. \<exists>be. spResolve deps w b = Some be \<and> boNotify be \<noteq> None)"

lemma deliver_sends:
  assumes "(rk, apps) \<in> set groups" and "spBuild deps apps = Inr n" and "resolves_to_notifier deps (rkBackend rk)"
  shows "\<exists>res. Notified rk (gget [] refs rk) n res \<in> set (dCalls (deliver deps refs groups w))"
  using assms(1)
proof (induction groups rule: rev_induct)
  case (snoc g groups)
  let ?w = "dWorld (deliver deps refs groups w)"
  show ?case
  proof (cases "g = (rk, apps)")
    case True
    obtain be notify where "spResolve deps ?w (rkBackend rk) = Some be" "boNotify be = Some notify"
      using assms(3) unfolding resolves_to_notifier_def by blast
    with assms(2) True have "\<exists>res. Notified rk (gget [] refs rk) n res \<in> set (dCalls (one_group deps refs g ?w))"
      by (auto simp: deliver_group_def Let_def split_beta split: sum.split)
    then show ?thesis by (auto simp: deliver_snoc add_delivery_def)
  next
    case False
    with snoc show ?thesis by (auto simp: deliver_snoc add_delivery_def)
  qed
qed simp

lemma upsert_deliver_sends:
  assumes "gwf (ulPerApp ul)" and "ulChanged ul" and "spBuild deps = Build" and "resolves_to_notifier deps (rkBackend rk)"
    and "map_of (ulPerApp ul) a = Some ev" and "routed rk ev"
  shows "\<exists>n res. Build (apps_of rk (ulPerApp ul)) = Inr n \<and>
    Notified rk (gget [] (ulRefs ul) rk) n res \<in> set (dCalls (upsert_deliver deps ul w))"
proof -
  let ?apps = "apps_of rk (ulPerApp ul)"
  have ne: "?apps \<noteq> []" using apps_of_nonempty [OF assms(1)] assms(5,6) by blast
  then obtain n where n: "Build ?apps = Inr n" by (auto simp: Build_def Let_def split_beta)
  have "(rk, ?apps) \<in> set (groupAppsByBackendRecipient (ulPerApp ul))" using mem_group_apps [OF assms(1)] ne by simp
  from deliver_sends [OF this _ assms(4), where n = n and refs = "ulRefs ul" and w = w] n assms(2,3)
  show ?thesis by (auto simp: upsert_deliver_def)
qed

text \<open>
  C32: Of two overlapping Upsert calls for one session of a well-formed store, the second
  entering within the TTL and before the first has stored its references, both with news, the
  second works on the same session object as the first; and to a destination both views route
  an app to, whose backend resolves to a notifier, both send a message made by Build, under the
  reference the session had before either. So a destination without a message gets two new
  ones.
\<close>

theorem overlapping_calls_share_refs:
  assumes "publisher_ok cfg sp" and "\<forall>ev \<in> set evs1 \<union> set evs2. in_session cfg key ev"
    and "upsert_begin deps now1 key evs1 sp = (ul1, sp1)"
    and "upsert_begin deps now2 key evs2 sp1 = (ul2, sp2)"
    and "time_sub now2 now1 \<le> spSessionTTL deps"
    and "ulChanged ul1" and "ulChanged ul2" and "spBuild deps = Build" and "resolves_to_notifier deps (rkBackend rk)"
    and "map_of (ulPerApp ul1) a1 = Some ev1" and "routed rk ev1"
    and "map_of (ulPerApp ul2) a2 = Some ev2" and "routed rk ev2"
  shows "ulAddr ul2 = ulAddr ul1 \<and>
    (let ref = gget [] (stRefs (session_before deps now1 key sp)) rk in
       \<exists>n1 res1 n2 res2. Build (apps_of rk (ulPerApp ul1)) = Inr n1 \<and> Build (apps_of rk (ulPerApp ul2)) = Inr n2 \<and>
         Notified rk ref n1 res1 \<in> set (dCalls (upsert_deliver deps ul1 w1)) \<and>
         Notified rk ref n2 res2 \<in> set (dCalls (upsert_deliver deps ul2 w2)))"
proof -
  note begins = overlapping_begins [OF assms(1-5)]
  from upsert_deliver_sends [OF _ assms(6,8-11), of w1] upsert_deliver_sends [OF _ assms(7,8,9,12,13), of w2] begins
  show ?thesis by (simp add: Let_def) blast
qed


section \<open>Sample runs\<close>

text \<open>
  A publisher whose resolver knows one kind of backend, which answers the reference "m" followed
  by the number of the call; the number is the world. The digest is the text itself.
\<close>

definition sample_rk :: ref_key where
  "sample_rk = \<lparr>rkBackend = ''slack'', rkRecipient = ''ops''\<rparr>"

definition sample_backend :: "(nat, string) backend_obj" where
  "sample_backend = \<lparr>boNotify = Some (\<lambda>w recipient ref n. (Inr (''m'' @ itoa w), Suc w)),
     boPost = None, boUpdate = None,
     boThreadReply = Some (\<lambda>w recipient ref text. (None, Suc w))\<rparr>"

definition sample_deps :: "string \<Rightarrow> (nat, string) publisher_deps" where
  "sample_deps action = \<lparr>spSessionTTL = 1000, spDuplicateAction = action, spBuild = Build,
     spResolve = (\<lambda>w name. Some sample_backend), spSha256Hex = (\<lambda>s. s), spRFC3339 = (\<lambda>t. [])\<rparr>"

abbreviation sample_upsert where
  "sample_upsert action now evs sp w \<equiv> Upsert (sample_deps action) now sample_key evs sp w"

lemma publisher_ok_new [simp]: "publisher_ok cfg newSessionPublisher"
  by (simp add: publisher_ok_def newSessionPublisher_def)

lemma sample_total [simp]: "total_notifiers (sample_deps action)" "only_notifiers (sample_deps action)"
  by (simp_all add: total_notifiers_def only_notifiers_def sample_deps_def sample_backend_def)

lemma sample_fields [simp]: "spSessionTTL (sample_deps action) = 1000" "spSha256Hex (sample_deps action) = (\<lambda>s. s)"
  "spDuplicateAction (sample_deps action) = action" "spBuild (sample_deps action) = Build"
  by (simp_all add: sample_deps_def)

text \<open>The state after a first batch, as the witnesses start from it.\<close>

definition sample_first :: "(nat, string) delivery \<times> session_publisher" where
  "sample_first = sample_upsert ''drop'' 5 [created] newSessionPublisher 1"

lemma sample_first_session:
  "map_of (spSessions (snd sample_first)) sample_key =
     Some \<lparr>stAddr = 0, stPerApp = [(''a'', created)], stRefs = [(sample_rk, ''m1'')], stLastFlush = 5\<rparr>"
  by code_simp

lemma sample_first_ok: "publisher_ok sample_cfg (snd sample_first)"
  unfolding sample_first_def by (rule publisher_ok_Upsert) simp_all

definition sample_note :: notification where
  "sample_note = projr (Build [(''a'', created)])"

lemma upsert_last_write_wins_witness:
  "\<exists>st. map_of (spSessions (snd (sample_upsert ''drop'' 5 [created, deployed] newSessionPublisher 1))) sample_key = Some st \<and>
     stLastFlush st = 5 \<and> (\<exists>e. map_of (stPerApp st) ''a'' = Some e \<and> same_content (\<lambda>s. s) e deployed)"
proof -
  have "app_events ''a'' [created, deployed] = [created, deployed]" by code_simp
  with upsert_last_write_wins [OF publisher_ok_new [of sample_cfg] _ surjective_pairing,
      of "[created, deployed]" "sample_deps ''drop''" 5 sample_key 1]
  show ?thesis by (auto dest!: spec [of _ "''a''"])
qed

lemma sample_first_calls: "message_calls (fst sample_first) = [Notified sample_rk [] sample_note (Inr ''m1'')]"
  by code_simp

lemma upsert_delivery_witness:
  "call_matches (sample_deps ''drop'') [] (sample_rk, [(''a'', created)]) (hd (message_calls (fst sample_first)))"
proof -
  have "stRefs (session_before (sample_deps ''drop'') 5 sample_key newSessionPublisher) = []"
    "apps_of sample_rk [(''a'', created)] = [(''a'', created)]" by code_simp+
  with upsert_delivery [OF publisher_ok_new [of sample_cfg] _ surjective_pairing,
      of "[created]" "sample_deps ''drop''" 5 sample_key 1, OF _ sample_first_session [unfolded sample_first_def]]
  show ?thesis using sample_first_calls by (simp add: sample_first_def)
qed

lemma upsert_complete_witness: "call_dest ` set (message_calls (fst sample_first)) = {sample_rk}"
proof -
  have "\<not> all_known (\<lambda>s. s) (stPerApp (session_before (sample_deps ''drop'') 5 sample_key newSessionPublisher)) [created]"
    by code_simp
  moreover have "splitRecipients (evRecipient created) = [''ops'']" "evBackend created = ''slack''"
    by code_simp+
  then have "{rk. \<exists>a ev. map_of [(''a'', created)] a = Some ev \<and> routed rk ev} = {sample_rk}"
    by (auto simp: routed_def sample_rk_def)
  ultimately show ?thesis
    using upsert_complete [OF publisher_ok_new [of sample_cfg] _ surjective_pairing,
      of "[created]" "sample_deps ''drop''" 5 sample_key 1, OF _ sample_first_session [unfolded sample_first_def]]
    by (simp add: sample_first_def)
qed

lemma edits_follow_last_ref_witness:
  "''m2'' = known_ref sample_rk ''m1'' (session_calls sample_key [(9, sample_key, [deployed])]
     (fst (upserts (sample_deps ''drop'') [(9, sample_key, [deployed])] (snd sample_first) 2)))"
proof -
  let ?us = "[(9, sample_key, [deployed])]"
  let ?r = "upserts (sample_deps ''drop'') ?us (snd sample_first) 2"
  have c: "Notified sample_rk ''m2'' sample_note (Inr ''m3'') \<in>
      set (dCalls (fst (sample_upsert ''drop'' 12 [created] (fst (snd ?r)) (snd (snd ?r)))))"
    by code_simp
  have "stays_alive 1000 sample_key 5 (?us @ [(12, sample_key, [created])])" by code_simp
  with edits_follow_last_ref [OF sample_first_ok _ _ sample_first_session _ _ _ surjective_pairing c,
      where us = ?us and ds = "fst ?r" and w = 2]
  show ?thesis by (simp add: gget_def)
qed

lemma retry_is_silent_witness:
  "fst (sample_upsert ''drop'' 9 [deployed] (snd (sample_upsert ''drop'' 5 [created, deployed] newSessionPublisher 1)) 7) = no_delivery 7"
proof -
  have "time_sub 9 5 \<le> 1000" "app_events (evAppName deployed) [created, deployed] = [created, deployed]" by code_simp+
  with retry_is_silent [OF publisher_ok_new [of sample_cfg] _ surjective_pairing _ _ _ _ _ surjective_pairing,
      where evs = "[created, deployed]" and evs' = "[deployed]" and deps = "sample_deps ''drop''" and now = 5 and key = sample_key
        and w = 1 and now' = 9 and w' = 7]
  show ?thesis by (simp add: DuplicateActionThread_def same_content_def)
qed

lemma expired_session_starts_over_witness:
  "\<exists>n res m. Notified sample_rk [] n res \<in>
      set (dCalls (fst (sample_upsert ''drop'' 2000 [created] (snd sample_first) 2))) \<and>
    Build m = Inr n \<and> set (map snd m) \<subseteq> {created}"
proof -
  have c: "Notified sample_rk [] sample_note (Inr ''m2'') \<in>
      set (dCalls (fst (sample_upsert ''drop'' 2000 [created] (snd sample_first) 2)))" by code_simp
  have "time_sub 2000 5 > 1000" by code_simp
  with c expired_session_starts_over [OF sample_first_ok _ surjective_pairing sample_first_session _ c]
  show ?thesis by auto
qed

lemma deliver_isolation_witness:
  "dCalls (deliver ((sample_deps ''drop'')\<lparr>spResolve := \<lambda>w name. if name = ''x'' then None else Some sample_backend\<rparr>) []
      [(\<lparr>rkBackend = ''x'', rkRecipient = ''ops''\<rparr>, [(''a'', created)]), (sample_rk, [(''a'', created)])] 1) =
   dCalls (deliver ((sample_deps ''drop'')\<lparr>spResolve := \<lambda>w name. if name = ''x'' then None else Some sample_backend\<rparr>) []
      [(sample_rk, [(''a'', created)])] 1)"
  using deliver_isolation [of "\<lambda>g. rkBackend (fst g) \<noteq> ''x''"
      "(sample_deps ''drop'')\<lparr>spResolve := \<lambda>w name. if name = ''x'' then None else Some sample_backend\<rparr>" "[]"
      "[(\<lparr>rkBackend = ''x'', rkRecipient = ''ops''\<rparr>, [(''a'', created)]), (sample_rk, [(''a'', created)])]" 1]
  by (simp add: unresolvable_def sample_rk_def)

lemma thread_replies_known_witness:
  "\<exists>ref note res. Replied sample_rk ref note res \<in>
      set (dCalls (fst (sample_upsert ''thread'' 9 [created] (snd sample_first) 2))) \<and> ref = ''m1''"
proof -
  let ?note = "thread_note (sample_deps ''thread'') 9 created"
  have c: "Replied sample_rk ''m1'' ?note None \<in>
      set (dCalls (fst (sample_upsert ''thread'' 9 [created] (snd sample_first) 2)))" by code_simp
  from thread_replies_known [OF sample_first_ok _ surjective_pairing c] c show ?thesis by blast
qed

lemma overlapping_calls_share_refs_witness:
  "let (ul1, sp1) = upsert_begin (sample_deps ''drop'') 5 sample_key [created] newSessionPublisher;
       (ul2, sp2) = upsert_begin (sample_deps ''drop'') 6 sample_key [deployed] sp1
   in \<exists>n1 res1 n2 res2. Notified sample_rk [] n1 res1 \<in> set (dCalls (upsert_deliver (sample_deps ''drop'') ul1 1)) \<and>
        Notified sample_rk [] n2 res2 \<in> set (dCalls (upsert_deliver (sample_deps ''drop'') ul2 2))"
proof -
  let ?b1 = "upsert_begin (sample_deps ''drop'') 5 sample_key [created] newSessionPublisher"
  let ?b2 = "upsert_begin (sample_deps ''drop'') 6 sample_key [deployed] (snd ?b1)"
  have facts: "time_sub 6 5 \<le> 1000" "gget [] (stRefs (session_before (sample_deps ''drop'') 5 sample_key newSessionPublisher)) sample_rk = []"
    "ulChanged (fst ?b1)" "ulChanged (fst ?b2)" "map_of (ulPerApp (fst ?b1)) ''a'' = Some created"
    "map_of (ulPerApp (fst ?b2)) ''a'' = Some deployed" by code_simp+
  have "splitRecipients (evRecipient created) = [''ops'']" "evBackend created = ''slack''"
    "splitRecipients (evRecipient deployed) = [''ops'']" "evBackend deployed = ''slack''" by code_simp+
  then have "routed sample_rk created" "routed sample_rk deployed" by (auto simp: routed_def sample_rk_def)
  moreover have "resolves_to_notifier (sample_deps ''drop'') (rkBackend sample_rk)"
    by (simp add: resolves_to_notifier_def sample_deps_def sample_backend_def)
  ultimately show ?thesis
    using overlapping_calls_share_refs [OF publisher_ok_new [of sample_cfg] _ surjective_pairing surjective_pairing _ facts(3,4) _ _ facts(5) _ facts(6),
      of sample_rk 1 2] facts(1,2)
    by (simp add: split_beta) blast
qed

end
