(* ===== verification/Json.thy ===== *)
theory Json
  imports Prelude
begin

text \<open>
  Package \<open>encoding/json\<close> as far as the program uses it, on bytes: the text \<open>Marshal\<close> writes for
  a value, the value a decoder reads from a text, and the rules by which a struct is filled from
  an object. Strings are UTF-8; a byte that is not part of a valid rune is replaced by U+FFFD,
  on the way out and on the way in.
\<close>

datatype json =
    JNull
  | JBool bool
  | JNum string
  | JStr string
  | JArr "json list"
  | JObj "(string \<times> json) list"

section \<open>UTF-8\<close>

definition byte_in :: "nat \<Rightarrow> nat \<Rightarrow> char \<Rightarrow> bool" where
  "byte_in lo hi c \<longleftrightarrow> lo \<le> of_char c \<and> of_char c \<le> hi"

text \<open>The sequences of two, three and four bytes that are runes.\<close>

definition rune2 :: "char \<Rightarrow> char \<Rightarrow> bool" where
  "rune2 a b \<longleftrightarrow> byte_in 0xC2 0xDF a \<and> byte_in 0x80 0xBF b"

definition rune3 :: "char \<Rightarrow> char \<Rightarrow> char \<Rightarrow> bool" where
  "rune3 a b c \<longleftrightarrow> byte_in 0xE0 0xEF a \<and> byte_in 0x80 0xBF b \<and> byte_in 0x80 0xBF c \<and>
     (a = CHR 0xE0 \<longrightarrow> byte_in 0xA0 0xBF b) \<and> (a = CHR 0xED \<longrightarrow> byte_in 0x80 0x9F b)"

definition rune4 :: "char \<Rightarrow> char \<Rightarrow> char \<Rightarrow> char \<Rightarrow> bool" where
  "rune4 a b c d \<longleftrightarrow> byte_in 0xF0 0xF4 a \<and> byte_in 0x80 0xBF b \<and> byte_in 0x80 0xBF c \<and>
     byte_in 0x80 0xBF d \<and>
     (a = CHR 0xF0 \<longrightarrow> byte_in 0x90 0xBF b) \<and> (a = CHR 0xF4 \<longrightarrow> byte_in 0x80 0x8F b)"

text \<open>The length of the rune at the head of a string, 0 where there is none.\<close>

definition rune_len :: "string \<Rightarrow> nat" where
  "rune_len s = (case s of [] \<Rightarrow> 0
     | a # s1 \<Rightarrow> if byte_in 0 0x7F a then 1 else (case s1 of [] \<Rightarrow> 0
     | b # s2 \<Rightarrow> if rune2 a b then 2 else (case s2 of [] \<Rightarrow> 0
     | c # s3 \<Rightarrow> if rune3 a b c then 3 else (case s3 of [] \<Rightarrow> 0
     | d # s4 \<Rightarrow> if rune4 a b c d then 4 else 0))))"

lemma rune2_first: "rune2 a b \<Longrightarrow> byte_in 0xC2 0xF4 a"
  by (simp add: rune2_def byte_in_def)

lemma rune3_first: "rune3 a b c \<Longrightarrow> byte_in 0xC2 0xF4 a"
  by (simp add: rune3_def byte_in_def)

lemma rune4_first: "rune4 a b c d \<Longrightarrow> byte_in 0xC2 0xF4 a"
  by (simp add: rune4_def byte_in_def)

lemma rune_len_le: "rune_len s \<le> length s"
  by (auto simp: rune_len_def split: list.split)

lemma rune_len_pos: "rune_len s = Suc k \<Longrightarrow> s \<noteq> []"
  by (auto simp: rune_len_def)

text \<open>The runes of a string; a byte that belongs to none is a rune without bytes.\<close>

function runes :: "string \<Rightarrow> string list" where
  "runes s = (if s = [] then []
     else if rune_len s = 0 then [] # runes (tl s)
     else take (rune_len s) s # runes (drop (rune_len s) s))"
  by pat_completeness auto
termination
  by (relation "measure length") auto

declare runes.simps [simp del]

definition utf8_valid :: "string \<Rightarrow> bool" where
  "utf8_valid s \<longleftrightarrow> [] \<notin> set (runes s)"

definition replacement_char :: string where
  "replacement_char = [CHR 0xEF, CHR 0xBF, CHR 0xBD]"

text \<open>The UTF-8 encoding of a code point.\<close>

definition utf8_encode :: "nat \<Rightarrow> string" where
  "utf8_encode n =
     (if n < 0x80 then [char_of n]
      else if n < 0x800 then [char_of (0xC0 + n div 64), char_of (0x80 + n mod 64)]
      else if n < 0x10000 then
        [char_of (0xE0 + n div 4096), char_of (0x80 + n div 64 mod 64), char_of (0x80 + n mod 64)]
      else [char_of (0xF0 + n div 262144), char_of (0x80 + n div 4096 mod 64),
            char_of (0x80 + n div 64 mod 64), char_of (0x80 + n mod 64)])"

section \<open>Writing\<close>

definition hex_digit :: "nat \<Rightarrow> char" where
  "hex_digit n = ''0123456789abcdef'' ! n"

text \<open>\<open>Marshal\<close> escapes quotes, backslashes, control characters, and \<open><\<close>, \<open>>\<close>, \<open>&\<close>.\<close>

definition escape_ascii :: "char \<Rightarrow> string" where
  "escape_ascii c =
     (if c = CHR 0x22 \<or> c = CHR 0x5C then [CHR 0x5C, c]
      else if c = CHR 0x08 then [CHR 0x5C, CHR ''b'']
      else if c = CHR 0x0C then [CHR 0x5C, CHR ''f'']
      else if c = CHR 0x0A then [CHR 0x5C, CHR ''n'']
      else if c = CHR 0x0D then [CHR 0x5C, CHR ''r'']
      else if c = CHR 0x09 then [CHR 0x5C, CHR ''t'']
      else if byte_in 0 0x1F c \<or> c = CHR ''<'' \<or> c = CHR ''>'' \<or> c = CHR ''&''
      then [CHR 0x5C, CHR ''u'', CHR ''0'', CHR ''0'', hex_digit (of_char c div 16), hex_digit (of_char c mod 16)]
      else [c])"

definition escape_rune :: "string \<Rightarrow> string" where
  "escape_rune r =
     (case r of [] \<Rightarrow> [CHR 0x5C] @ ''ufffd''
      | [c] \<Rightarrow> escape_ascii c
      | _ \<Rightarrow> if r = [CHR 0xE2, CHR 0x80, CHR 0xA8] then [CHR 0x5C] @ ''u2028''
             else if r = [CHR 0xE2, CHR 0x80, CHR 0xA9] then [CHR 0x5C] @ ''u2029''
             else r)"

definition json_quote :: "string \<Rightarrow> string" where
  "json_quote s = [CHR 0x22] @ concat (map escape_rune (runes s)) @ [CHR 0x22]"

fun json_text :: "json \<Rightarrow> string" where
  "json_text JNull = ''null''"
| "json_text (JBool b) = (if b then ''true'' else ''false'')"
| "json_text (JNum s) = s"
| "json_text (JStr s) = json_quote s"
| "json_text (JArr js) = ''['' @ join '','' (map json_text js) @ '']''"
| "json_text (JObj kvs) =
     ''{'' @ join '','' (map (\<lambda>(k, v). json_quote k @ '':'' @ json_text v) kvs) @ ''}''"

section \<open>Reading\<close>

definition json_space :: "char \<Rightarrow> bool" where
  "json_space c \<longleftrightarrow> c \<in> {CHR 0x20, CHR 0x09, CHR 0x0A, CHR 0x0D}"

abbreviation skip_ws :: "string \<Rightarrow> string" where
  "skip_ws \<equiv> dropWhile json_space"

definition hex_value :: "char \<Rightarrow> nat option" where
  "hex_value c =
     (if byte_in 0x30 0x39 c then Some (of_char c - 0x30)
      else if byte_in 0x61 0x66 c then Some (of_char c - 0x57)
      else if byte_in 0x41 0x46 c then Some (of_char c - 0x37)
      else None)"

text \<open>Four hex digits.\<close>

definition hex4 :: "string \<Rightarrow> (nat \<times> string) option" where
  "hex4 s = (case s of a # b # c # d # r \<Rightarrow>
       (case (hex_value a, hex_value b, hex_value c, hex_value d) of
          (Some a, Some b, Some c, Some d) \<Rightarrow> Some (4096 * a + 256 * b + 16 * c + d, r)
        | _ \<Rightarrow> None)
     | _ \<Rightarrow> None)"

text \<open>The escape after \<open>\u\<close>: a surrogate needs its other half, or is replaced.\<close>

definition parse_unicode :: "string \<Rightarrow> (string \<times> string) option" where
  "parse_unicode s =
     (case hex4 s of None \<Rightarrow> None
      | Some (n, r) \<Rightarrow>
          if n < 0xD800 \<or> 0xDFFF < n then Some (utf8_encode n, r)
          else (case hex4 (drop 2 r) of
                  Some (m, r') \<Rightarrow>
                    if take 2 r = [CHR 0x5C, CHR ''u''] \<and> n < 0xDC00 \<and> 0xDC00 \<le> m \<and> m \<le> 0xDFFF
                    then Some (utf8_encode (0x10000 + (n - 0xD800) * 1024 + (m - 0xDC00)), r')
                    else Some (replacement_char, r)
                | None \<Rightarrow> Some (replacement_char, r)))"

definition parse_escape :: "string \<Rightarrow> (string \<times> string) option" where
  "parse_escape s = (case s of [] \<Rightarrow> None
     | e # r \<Rightarrow>
         if e = CHR 0x22 \<or> e = CHR 0x5C \<or> e = CHR ''/'' then Some ([e], r)
         else if e = CHR ''b'' then Some ([CHR 0x08], r)
         else if e = CHR ''f'' then Some ([CHR 0x0C], r)
         else if e = CHR ''n'' then Some ([CHR 0x0A], r)
         else if e = CHR ''r'' then Some ([CHR 0x0D], r)
         else if e = CHR ''t'' then Some ([CHR 0x09], r)
         else if e = CHR ''u'' then parse_unicode r
         else None)"

lemma hex4_length: "hex4 s = Some (n, r) \<Longrightarrow> length r < length s"
  by (auto simp: hex4_def split: list.splits option.splits)

lemma parse_unicode_length: "parse_unicode s = Some (t, r) \<Longrightarrow> length r < length s"
  by (fastforce simp: parse_unicode_def dest: hex4_length split: option.splits if_splits)

lemma parse_escape_length: "parse_escape s = Some (t, r) \<Longrightarrow> length r < length s"
  by (auto simp: parse_escape_def dest: parse_unicode_length split: list.splits if_splits)

text \<open>The rest of a string literal after its opening quote.\<close>

function parse_string :: "string \<Rightarrow> (string \<times> string) option" where
  "parse_string s = (case s of [] \<Rightarrow> None
     | c # r \<Rightarrow>
         if c = CHR 0x22 then Some ([], r)
         else if c = CHR 0x5C then
           (case parse_escape r of None \<Rightarrow> None
            | Some (t, r') \<Rightarrow> map_option (\<lambda>(u, r''). (t @ u, r'')) (parse_string r'))
         else if byte_in 0 0x1F c then None
         else if rune_len s = 0 then
           map_option (\<lambda>(u, r''). (replacement_char @ u, r'')) (parse_string r)
         else map_option (\<lambda>(u, r''). (take (rune_len s) s @ u, r'')) (parse_string (drop (rune_len s) s)))"
  by pat_completeness auto
termination
  by (relation "measure length") (auto dest: parse_escape_length)

declare parse_string.simps [simp del]

definition is_digit :: "char \<Rightarrow> bool" where
  "is_digit = byte_in 0x30 0x39"

text \<open>A number, as the text it is written with: an optional sign, digits, fraction and exponent.\<close>

definition parse_exponent :: "string \<Rightarrow> (string \<times> string) option" where
  "parse_exponent s = (case s of [] \<Rightarrow> Some ([], [])
     | e # r \<Rightarrow>
         if e = CHR ''e'' \<or> e = CHR ''E'' then
           (let sign = (case r of [] \<Rightarrow> [] | c # _ \<Rightarrow> if c = CHR ''+'' \<or> c = CHR ''-'' then [c] else []);
                r = drop (length sign) r; ds = takeWhile is_digit r
            in if ds = [] then None else Some (e # sign @ ds, drop (length ds) r))
         else Some ([], s))"

definition parse_fraction :: "string \<Rightarrow> (string \<times> string) option" where
  "parse_fraction s = (case s of [] \<Rightarrow> Some ([], [])
     | p # r \<Rightarrow>
         if p = CHR ''.'' then
           (let ds = takeWhile is_digit r in if ds = [] then None else Some (p # ds, drop (length ds) r))
         else Some ([], s))"

definition parse_number :: "string \<Rightarrow> (string \<times> string) option" where
  "parse_number s =
     (let sign = (case s of [] \<Rightarrow> [] | c # _ \<Rightarrow> if c = CHR ''-'' then [c] else []);
          r = drop (length sign) s;
          ds = (case r of [] \<Rightarrow> [] | c # _ \<Rightarrow> if c = CHR ''0'' then [c] else takeWhile is_digit r)
      in if ds = [] then None
         else (case parse_fraction (drop (length ds) r) of None \<Rightarrow> None
               | Some (f, r) \<Rightarrow>
                   (case parse_exponent r of None \<Rightarrow> None
                    | Some (e, r) \<Rightarrow> Some (sign @ ds @ f @ e, r))))"

definition parse_literal :: "string \<Rightarrow> json \<Rightarrow> string \<Rightarrow> (json \<times> string) option" where
  "parse_literal word j s = (if take (length word) s = word then Some (j, drop (length word) s) else None)"

text \<open>
  A value at the head of the text, with the text that follows it. \<open>n\<close> is fuel, \<open>d\<close> the number
  of arrays and objects that may still be opened (the decoder allows 10000).
\<close>

fun parse_value :: "nat \<Rightarrow> nat \<Rightarrow> string \<Rightarrow> (json \<times> string) option"
  and parse_elems :: "nat \<Rightarrow> nat \<Rightarrow> string \<Rightarrow> (json list \<times> string) option"
  and parse_members :: "nat \<Rightarrow> nat \<Rightarrow> string \<Rightarrow> ((string \<times> json) list \<times> string) option" where
  "parse_value 0 d s = None"
| "parse_value (Suc n) d s =
     (case skip_ws s of [] \<Rightarrow> None
      | c # r \<Rightarrow>
          if c = CHR ''['' then
            (if d = 0 then None
             else (case skip_ws r of [] \<Rightarrow> None
                   | x # r' \<Rightarrow> if x = CHR '']'' then Some (JArr [], r')
                               else map_option (\<lambda>(js, t). (JArr js, t)) (parse_elems n (d - 1) r)))
          else if c = CHR ''{'' then
            (if d = 0 then None
             else (case skip_ws r of [] \<Rightarrow> None
                   | x # r' \<Rightarrow> if x = CHR ''}'' then Some (JObj [], r')
                               else map_option (\<lambda>(kvs, t). (JObj kvs, t)) (parse_members n (d - 1) r)))
          else if c = CHR 0x22 then map_option (\<lambda>(u, t). (JStr u, t)) (parse_string r)
          else if c = CHR ''t'' then parse_literal ''true'' (JBool True) (c # r)
          else if c = CHR ''f'' then parse_literal ''false'' (JBool False) (c # r)
          else if c = CHR ''n'' then parse_literal ''null'' JNull (c # r)
          else map_option (\<lambda>(u, t). (JNum u, t)) (parse_number (c # r)))"
| "parse_elems 0 d s = None"
| "parse_elems (Suc n) d s =
     (case parse_value n d s of None \<Rightarrow> None
      | Some (j, r) \<Rightarrow>
          (case skip_ws r of [] \<Rightarrow> None
           | c # r \<Rightarrow>
               if c = CHR '']'' then Some ([j], r)
               else if c = CHR '','' then map_option (\<lambda>(js, t). (j # js, t)) (parse_elems n d r)
               else None))"
| "parse_members 0 d s = None"
| "parse_members (Suc n) d s =
     (case skip_ws s of [] \<Rightarrow> None
      | q # r \<Rightarrow>
          if q \<noteq> CHR 0x22 then None
          else (case parse_string r of None \<Rightarrow> None
           | Some (k, r) \<Rightarrow>
               (case skip_ws r of [] \<Rightarrow> None
                | c # r \<Rightarrow>
                    if c \<noteq> CHR '':'' then None
                    else (case parse_value n d r of None \<Rightarrow> None
                     | Some (j, r) \<Rightarrow>
                         (case skip_ws r of [] \<Rightarrow> None
                          | c # r \<Rightarrow>
                              if c = CHR ''}'' then Some ([(k, j)], r)
                              else if c = CHR '','' then
                                map_option (\<lambda>(kvs, t). ((k, j) # kvs, t)) (parse_members n d r)
                              else None)))))"

definition max_depth :: nat where
  "max_depth = 10000"

text \<open>\<open>Decoder.Decode\<close>: the first value of a stream; what follows is not looked at.\<close>

definition json_decode :: "string \<Rightarrow> json option" where
  "json_decode s = map_option fst (parse_value (2 * length s + 2) max_depth s)"

text \<open>\<open>json.Unmarshal\<close> and \<open>json.Valid\<close>: nothing but space may follow.\<close>

definition json_unmarshal :: "string \<Rightarrow> json option" where
  "json_unmarshal s = (case parse_value (2 * length s + 2) max_depth s of None \<Rightarrow> None
     | Some (j, r) \<Rightarrow> if skip_ws r = [] then Some j else None)"

definition json_valid :: "string \<Rightarrow> bool" where
  "json_valid s \<longleftrightarrow> json_unmarshal s \<noteq> None"

section \<open>Structs\<close>

text \<open>
  A key of an object names the field with the same name up to case folding. Folding maps lower
  to upper case, U+017F (bytes C5 BF) to \<open>S\<close> and U+212A (bytes E2 84 AA) to \<open>K\<close>.
\<close>

definition upper_char :: "char \<Rightarrow> char" where
  "upper_char c = (if byte_in 0x61 0x7A c then char_of ((of_char c :: nat) - 32) else c)"

fun fold_key :: "string \<Rightarrow> string" where
  "fold_key [] = []"
| "fold_key [a] = [upper_char a]"
| "fold_key [a, b] =
     (if a = CHR 0xC5 \<and> b = CHR 0xBF then [CHR ''S''] else upper_char a # fold_key [b])"
| "fold_key (a # b # c # s) =
     (if a = CHR 0xC5 \<and> b = CHR 0xBF then CHR ''S'' # fold_key (c # s)
      else if a = CHR 0xE2 \<and> b = CHR 0x84 \<and> c = CHR 0xAA then CHR ''K'' # fold_key s
      else upper_char a # fold_key (b # c # s))"

text \<open>How the value of one field updates a struct; \<open>None\<close> is a type error.\<close>

type_synonym 'a field_decoder = "json \<Rightarrow> 'a \<Rightarrow> 'a option"

fun decode_members :: "(string \<times> 'a field_decoder) list \<Rightarrow> (string \<times> json) list \<Rightarrow> 'a \<Rightarrow> 'a option" where
  "decode_members fields [] r = Some r"
| "decode_members fields ((k, v) # kvs) r =
     (case find (\<lambda>(name, dec). fold_key name = fold_key k) fields of
        None \<Rightarrow> decode_members fields kvs r
      | Some (name, dec) \<Rightarrow>
          (case dec v r of None \<Rightarrow> None | Some r' \<Rightarrow> decode_members fields kvs r'))"

definition decode_struct :: "(string \<times> 'a field_decoder) list \<Rightarrow> 'a field_decoder" where
  "decode_struct fields j r = (case j of JNull \<Rightarrow> Some r | JObj kvs \<Rightarrow> decode_members fields kvs r | _ \<Rightarrow> None)"

definition decode_string :: "string field_decoder" where
  "decode_string j r = (case j of JNull \<Rightarrow> Some r | JStr s \<Rightarrow> Some s | _ \<Rightarrow> None)"

definition decode_bool :: "bool field_decoder" where
  "decode_bool j r = (case j of JNull \<Rightarrow> Some r | JBool b \<Rightarrow> Some b | _ \<Rightarrow> None)"

text \<open>A pointer: \<open>null\<close> makes it nil, another value is decoded into what it points to.\<close>

definition decode_pointer :: "'a \<Rightarrow> 'a field_decoder \<Rightarrow> 'a option field_decoder" where
  "decode_pointer zero dec j r = (case j of JNull \<Rightarrow> Some None
     | _ \<Rightarrow> map_option Some (dec j (case r of None \<Rightarrow> zero | Some x \<Rightarrow> x)))"

text \<open>A slice; its elements are decoded into zero values.\<close>

fun decode_all :: "'a \<Rightarrow> 'a field_decoder \<Rightarrow> json list \<Rightarrow> 'a list option" where
  "decode_all zero dec [] = Some []"
| "decode_all zero dec (j # js) =
     (case dec j zero of None \<Rightarrow> None | Some x \<Rightarrow> map_option ((#) x) (decode_all zero dec js))"

definition decode_slice :: "'a \<Rightarrow> 'a field_decoder \<Rightarrow> 'a list field_decoder" where
  "decode_slice zero dec j r = (case j of JNull \<Rightarrow> Some [] | JArr js \<Rightarrow> decode_all zero dec js | _ \<Rightarrow> None)"

text \<open>A map from strings to strings; an object adds to the map that is there.\<close>

fun decode_entries :: "(string \<times> json) list \<Rightarrow> (string, string) gomap \<Rightarrow> (string, string) gomap option" where
  "decode_entries [] m = Some m"
| "decode_entries ((k, v) # kvs) m =
     (case decode_string v [] of None \<Rightarrow> None | Some s \<Rightarrow> decode_entries kvs (gput k s m))"

definition decode_string_map :: "(string, string) gomap field_decoder" where
  "decode_string_map j r = (case j of JNull \<Rightarrow> Some [] | JObj kvs \<Rightarrow> decode_entries kvs r | _ \<Rightarrow> None)"

text \<open>A field of a record, by its selector and its update.\<close>

definition decode_field :: "('r \<Rightarrow> 'a) \<Rightarrow> ('a \<Rightarrow> 'r \<Rightarrow> 'r) \<Rightarrow> 'a field_decoder \<Rightarrow> 'r field_decoder" where
  "decode_field get put dec j r = map_option (\<lambda>x. put x r) (dec j (get r))"


section \<open>What is written is read back\<close>

lemma runes_Nil [simp]: "runes [] = []"
  by (subst runes.simps) simp

lemma runes_Cons: "s \<noteq> [] \<Longrightarrow> runes s =
    (if rune_len s = 0 then [] # runes (tl s) else take (rune_len s) s # runes (drop (rune_len s) s))"
  by (subst runes.simps) simp

lemma concat_runes: "utf8_valid s \<Longrightarrow> concat (runes s) = s"
proof (induction s rule: runes.induct)
  case (1 s)
  then show ?case by (cases "s = []") (auto simp: runes_Cons utf8_valid_def)
qed

lemma rune_len_append: "rune_len s = k \<Longrightarrow> 0 < k \<Longrightarrow> rune_len (take k s @ t) = k"
  by (auto simp: rune_len_def split: list.splits if_splits)

text \<open>A rune, escaped, is read as the rune.\<close>

abbreviation read_as :: "string \<Rightarrow> string \<Rightarrow> string \<Rightarrow> bool" where
  "read_as e r t \<equiv> parse_string (e @ t) = map_option (\<lambda>(u, r'). (r @ u, r')) (parse_string t)"

lemma hex_value_digit: "n < 16 \<Longrightarrow> hex_value (hex_digit n) = Some n"
proof -
  have "\<forall>n \<in> {0..<16}. hex_value (hex_digit n) = Some n" by code_simp
  then show "n < 16 \<Longrightarrow> hex_value (hex_digit n) = Some n" by simp
qed

lemma hex4_escape: "of_char c < (0x100 :: nat) \<Longrightarrow>
    hex4 (CHR ''0'' # CHR ''0'' # hex_digit (of_char c div 16) # hex_digit (of_char c mod 16) # t) =
      Some (of_char c, t)"
proof -
  assume c: "of_char c < (0x100 :: nat)"
  have "hex_value CHR ''0'' = Some 0" by code_simp
  moreover have "of_char c div 16 < (16 :: nat)" using c by linarith
  ultimately show ?thesis using hex_value_digit by (simp add: hex4_def)
qed

lemma parse_string_Cons:
  "parse_string (c # r) =
     (if c = CHR 0x22 then Some ([], r)
      else if c = CHR 0x5C then
        (case parse_escape r of None \<Rightarrow> None
         | Some (t, r') \<Rightarrow> map_option (\<lambda>(u, r''). (t @ u, r'')) (parse_string r'))
      else if byte_in 0 0x1F c then None
      else if rune_len (c # r) = 0 then
        map_option (\<lambda>(u, r''). (replacement_char @ u, r'')) (parse_string r)
      else map_option (\<lambda>(u, r''). (take (rune_len (c # r)) (c # r) @ u, r''))
        (parse_string (drop (rune_len (c # r)) (c # r))))"
  by (subst parse_string.simps) simp

lemma parse_string_escape:
  "parse_string (CHR 0x5C # r) = (case parse_escape r of None \<Rightarrow> None
     | Some (t, r') \<Rightarrow> map_option (\<lambda>(u, r''). (t @ u, r'')) (parse_string r'))"
  by (subst parse_string_Cons) simp

lemma read_escape: "parse_escape (e @ t) = Some (r, t) \<Longrightarrow> read_as (CHR 0x5C # e) r t"
  by (simp add: parse_string_escape)

lemma read_ascii:
  assumes "byte_in 0 0x7F c"
  shows "read_as (escape_ascii c) [c] t"
proof -
  have c: "of_char c < (0x80 :: nat)" using assms by (simp add: byte_in_def)
  have plain: "read_as [c] [c] t" if "c \<noteq> CHR 0x22" "c \<noteq> CHR 0x5C" "\<not> byte_in 0 0x1F c"
    using that assms by (simp add: parse_string_Cons rune_len_def)
  have hex: "parse_escape ([CHR ''u'', CHR ''0'', CHR ''0'', hex_digit (of_char c div 16), hex_digit (of_char c mod 16)] @ t)
      = Some ([c], t)"
    using c hex4_escape [of c t] by (simp add: parse_escape_def parse_unicode_def utf8_encode_def)
  show ?thesis
    unfolding escape_ascii_def using plain read_escape [OF hex]
    by (auto simp: parse_string_escape parse_escape_def)
qed

lemma rune_ascii: "rune_len (c # s') = Suc 0 \<Longrightarrow> byte_in 0 0x7F c"
  by (simp add: rune_len_def split: list.splits if_splits)

lemma rune_wide: "rune_len (a # s') = Suc (Suc k) \<Longrightarrow> byte_in 0xC2 0xF4 a \<and> s' \<noteq> []"
  by (auto simp: rune_len_def dest: rune2_first rune3_first rune4_first split: list.splits if_splits)

lemma rune_cases:
  assumes "rune_len s = k" and "0 < k"
  obtains (ascii) c where "take k s = [c]" "byte_in 0 0x7F c"
    | (wide) a b r where "take k s = a # b # r" "byte_in 0xC2 0xF4 a"
proof -
  obtain a s' where s: "s = a # s'" using assms by (cases s) (auto simp: rune_len_def)
  show ?thesis
  proof (cases "k = 1")
    case True
    with assms(1) rune_ascii [of a s'] s show ?thesis by (intro ascii [of a]) simp_all
  next
    case False
    with assms(2) obtain l where k: "k = Suc (Suc l)" by (cases k; cases "k - 1") auto
    with assms(1) s have "byte_in 0xC2 0xF4 a" "s' \<noteq> []" using rune_wide [of a s' l] by simp_all
    with k s show ?thesis by (cases s') (simp_all add: wide)
  qed
qed

lemma parse_separators:
  "parse_escape (''u2028'' @ t) = Some ([CHR 0xE2, CHR 0x80, CHR 0xA8], t)"
  "parse_escape (''u2029'' @ t) = Some ([CHR 0xE2, CHR 0x80, CHR 0xA9], t)"
proof -
  have "hex_value CHR ''2'' = Some 2" "hex_value CHR ''0'' = Some 0" "hex_value CHR ''8'' = Some 8"
    "hex_value CHR ''9'' = Some 9" by code_simp+
  then have hex: "hex4 (''2028'' @ t) = Some (0x2028, t)" "hex4 (''2029'' @ t) = Some (0x2029, t)"
    by (simp_all add: hex4_def)
  have "char_of (226 :: nat) = CHR 0xE2" "char_of (128 :: nat) = CHR 0x80"
    "char_of (168 :: nat) = CHR 0xA8" "char_of (169 :: nat) = CHR 0xA9" by code_simp+
  then have enc: "utf8_encode 0x2028 = [CHR 0xE2, CHR 0x80, CHR 0xA8]"
    "utf8_encode 0x2029 = [CHR 0xE2, CHR 0x80, CHR 0xA9]" by (simp_all add: utf8_encode_def)
  have "parse_unicode (''2028'' @ t) = Some (utf8_encode 0x2028, t)"
    "parse_unicode (''2029'' @ t) = Some (utf8_encode 0x2029, t)"
    unfolding parse_unicode_def hex by simp_all
  moreover have "parse_escape (CHR ''u'' # r) = parse_unicode r" for r by (simp add: parse_escape_def)
  ultimately show "parse_escape (''u2028'' @ t) = Some ([CHR 0xE2, CHR 0x80, CHR 0xA8], t)"
    "parse_escape (''u2029'' @ t) = Some ([CHR 0xE2, CHR 0x80, CHR 0xA9], t)"
    by (simp_all only: append_Cons enc)
qed

lemma read_rune:
  assumes "rune_len s = k" and "0 < k"
  shows "read_as (escape_rune (take k s)) (take k s) t"
  using assms
proof (cases rule: rune_cases)
  case (ascii c)
  then show ?thesis using read_ascii by (simp add: escape_rune_def)
next
  case (wide a b r)
  have len: "rune_len (take k s @ t) = k" using rune_len_append [OF assms] by simp
  have k: "length (take k s) = k" using assms rune_len_le [of s] by simp
  have "a \<noteq> CHR 0x22" "a \<noteq> CHR 0x5C" "\<not> byte_in 0 0x1F a"
    using wide(2) by (auto simp: byte_in_def)
  then have "parse_string (take k s @ t) =
      map_option (\<lambda>(u, r''). (take k (take k s @ t) @ u, r'')) (parse_string (drop k (take k s @ t)))"
    using len assms(2) wide(1) parse_string_Cons [of a "(b # r) @ t"] by simp
  then have plain: "read_as (take k s) (take k s) t" using k by simp
  have special: "parse_escape (''u2028'' @ t) = Some ([CHR 0xE2, CHR 0x80, CHR 0xA8], t)"
    "parse_escape (''u2029'' @ t) = Some ([CHR 0xE2, CHR 0x80, CHR 0xA9], t)"
    by (rule parse_separators)+
  show ?thesis
    using plain read_escape [OF special(1)] read_escape [OF special(2)] wide(1)
    by (simp add: escape_rune_def)
qed

text \<open>What a reader sees of a string: its runes, invalid bytes replaced.\<close>

definition clean_string :: "string \<Rightarrow> string" where
  "clean_string s = concat (map (\<lambda>r. if r = [] then replacement_char else r) (runes s))"

lemma clean_string_valid: "utf8_valid s \<Longrightarrow> clean_string s = s"
proof -
  assume valid: "utf8_valid s"
  then have "map (\<lambda>r. if r = [] then replacement_char else r) (runes s) = runes s"
    by (intro map_idI) (auto simp: utf8_valid_def)
  with concat_runes [OF valid] show "clean_string s = s" by (simp add: clean_string_def)
qed

lemma read_replacement: "read_as (escape_rune []) replacement_char t"
proof -
  have "hex_value CHR ''f'' = Some 15" "hex_value CHR ''d'' = Some 13" by code_simp+
  then have hex: "hex4 (''fffd'' @ t) = Some (0xFFFD, t)" by (simp add: hex4_def)
  have "char_of (239 :: nat) = CHR 0xEF" "char_of (191 :: nat) = CHR 0xBF" "char_of (189 :: nat) = CHR 0xBD"
    by code_simp+
  then have enc: "utf8_encode 0xFFFD = replacement_char"
    by (simp add: utf8_encode_def replacement_char_def)
  have "parse_unicode (''fffd'' @ t) = Some (utf8_encode 0xFFFD, t)"
    unfolding parse_unicode_def hex by simp
  moreover have "parse_escape (CHR ''u'' # r) = parse_unicode r" for r by (simp add: parse_escape_def)
  ultimately have "parse_escape (''ufffd'' @ t) = Some (replacement_char, t)"
    by (simp only: append_Cons enc)
  from read_escape [OF this] show ?thesis by (simp add: escape_rune_def)
qed

lemma parse_quoted:
  "parse_string (concat (map escape_rune (runes s)) @ CHR 0x22 # t) = Some (clean_string s, t)"
proof (induction s rule: runes.induct)
  case (1 s)
  show ?case
  proof (cases "s = []")
    case True
    then show ?thesis by (simp add: parse_string_Cons clean_string_def)
  next
    case False
    show ?thesis
    proof (cases "rune_len s = 0")
      case True
      with 1(1) False have "parse_string (concat (map escape_rune (runes (tl s))) @ CHR 0x22 # t) =
          Some (clean_string (tl s), t)" by simp
      with read_replacement [of "concat (map escape_rune (runes (tl s))) @ CHR 0x22 # t"]
      show ?thesis using False True by (simp add: runes_Cons clean_string_def)
    next
      case pos: False
      with 1(2) False have "parse_string (concat (map escape_rune (runes (drop (rune_len s) s))) @ CHR 0x22 # t) =
          Some (clean_string (drop (rune_len s) s), t)" by simp
      with read_rune [OF refl, of s "concat (map escape_rune (runes (drop (rune_len s) s))) @ CHR 0x22 # t"]
      show ?thesis using False pos by (simp add: runes_Cons clean_string_def)
    qed
  qed
qed

text \<open>
  The values the program writes hold no numbers; their strings are valid UTF-8 and they are not
  nested too deeply.
\<close>

fun json_ok :: "json \<Rightarrow> bool" where
  "json_ok (JNum s) = False"
| "json_ok (JStr s) = utf8_valid s"
| "json_ok (JArr js) = list_all json_ok js"
| "json_ok (JObj kvs) = list_all (\<lambda>(k, v). utf8_valid k \<and> json_ok v) kvs"
| "json_ok j = True"

text \<open>Without numbers; and what a reader sees of such a value.\<close>

fun json_plain :: "json \<Rightarrow> bool" where
  "json_plain (JNum s) = False"
| "json_plain (JArr js) = list_all json_plain js"
| "json_plain (JObj kvs) = list_all (\<lambda>(k, v). json_plain v) kvs"
| "json_plain j = True"

fun clean :: "json \<Rightarrow> json" where
  "clean (JStr s) = JStr (clean_string s)"
| "clean (JArr js) = JArr (map clean js)"
| "clean (JObj kvs) = JObj (map (\<lambda>(k, v). (clean_string k, clean v)) kvs)"
| "clean j = j"

lemma json_ok_plain: "json_ok j \<Longrightarrow> json_plain j \<and> clean j = j"
proof (induction j rule: json.induct)
  case (JArr js)
  then show ?case by (auto simp: list_all_iff intro: map_idI)
next
  case (JObj kvs)
  then show ?case by (fastforce simp: list_all_iff clean_string_valid intro!: map_idI)
qed (simp_all add: clean_string_valid)

fun json_depth :: "json \<Rightarrow> nat" where
  "json_depth (JArr js) = Suc (foldr max (map json_depth js) 0)"
| "json_depth (JObj kvs) = Suc (foldr max (map (\<lambda>(k, v). json_depth v) kvs) 0)"
| "json_depth j = 0"

lemma foldr_max_le: "foldr max xs 0 \<le> d \<longleftrightarrow> (\<forall>x \<in> set xs. x \<le> (d :: nat))"
  by (induction xs) auto

lemma json_text_head:
  "json_plain j \<Longrightarrow> \<exists>c r. json_text j = c # r \<and> \<not> json_space c \<and> c \<noteq> CHR '']'' \<and> c \<noteq> CHR ''}''"
  by (cases j) (auto simp: json_quote_def json_space_def)

lemma skip_ws_text: "json_plain j \<Longrightarrow> skip_ws (json_text j @ t) = json_text j @ t"
  using json_text_head [of j] by auto

text \<open>Elements and members, given that each value is read back.\<close>

definition reads_back :: "json \<Rightarrow> bool" where
  "reads_back j \<longleftrightarrow> (\<forall>n d t. json_plain j \<longrightarrow> 2 * length (json_text j) \<le> n \<longrightarrow> json_depth j \<le> d \<longrightarrow>
     parse_value n d (json_text j @ t) = Some (clean j, t))"

lemma reads_backD:
  "reads_back j \<Longrightarrow> json_plain j \<Longrightarrow> 2 * length (json_text j) \<le> n \<Longrightarrow> json_depth j \<le> d \<Longrightarrow>
     parse_value n d (json_text j @ t) = Some (clean j, t)"
  by (simp add: reads_back_def)

lemma json_text_pos: "json_plain j \<Longrightarrow> 0 < length (json_text j)"
  using json_text_head [of j] by auto

lemma parse_elems_text:
  assumes "\<forall>j \<in> set js. reads_back j \<and> json_plain j \<and> json_depth j \<le> d" and "js \<noteq> []"
    and "2 * length (join '','' (map json_text js)) < n"
  shows "parse_elems n d (join '','' (map json_text js) @ CHR '']'' # t) = Some (map clean js, t)"
  using assms
proof (induction js arbitrary: n)
  case (Cons j js)
  obtain m where n: "n = Suc m" using Cons.prems(3) by (cases n) auto
  show ?case
  proof (cases "js = []")
    case True
    with Cons.prems n show ?thesis
      by (simp add: reads_backD json_space_def)
  next
    case False
    have "parse_elems m d (join '','' (map json_text js) @ CHR '']'' # t) = Some (map clean js, t)"
      by (rule Cons.IH) (use Cons.prems False n json_text_pos [of j] in \<open>simp_all add: join_Cons\<close>)
    moreover have "parse_value m d (json_text j @ CHR '','' # join '','' (map json_text js) @ CHR '']'' # t) =
        Some (clean j, CHR '','' # join '','' (map json_text js) @ CHR '']'' # t)"
      by (rule reads_backD) (use Cons.prems False n in \<open>simp_all add: join_Cons\<close>)
    ultimately show ?thesis using False n by (simp add: join_Cons json_space_def)
  qed
qed simp

abbreviation member_text :: "string \<times> json \<Rightarrow> string" where
  "member_text \<equiv> \<lambda>(k, v). json_quote k @ '':'' @ json_text v"

lemma parse_members_text:
  assumes "\<forall>(k, j) \<in> set kvs. reads_back j \<and> json_plain j \<and> json_depth j \<le> d" and "kvs \<noteq> []"
    and "2 * length (join '','' (map member_text kvs)) < n"
  shows "parse_members n d (join '','' (map member_text kvs) @ CHR ''}'' # t) = Some (map (\<lambda>(k, v). (clean_string k, clean v)) kvs, t)"
  using assms
proof (induction kvs arbitrary: n)
  case (Cons kv kvs)
  obtain m where n: "n = Suc m" using Cons.prems(3) by (cases n) auto
  obtain k j where kv: "kv = (k, j)" by force
  have k: "parse_string (concat (map escape_rune (runes k)) @ CHR 0x22 # u) = Some (clean_string k, u)" for u
    by (rule parse_quoted)
  show ?case
  proof (cases "kvs = []")
    case True
    with Cons.prems n kv show ?thesis
      by (simp add: json_quote_def k reads_backD json_space_def)
  next
    case False
    have "parse_members m d (join '','' (map member_text kvs) @ CHR ''}'' # t) = Some (map (\<lambda>(k, v). (clean_string k, clean v)) kvs, t)"
      by (rule Cons.IH) (use Cons.prems False n kv in \<open>simp_all add: join_Cons\<close>)
    moreover have "parse_value m d (json_text j @ CHR '','' # join '','' (map member_text kvs) @ CHR ''}'' # t) =
        Some (clean j, CHR '','' # join '','' (map member_text kvs) @ CHR ''}'' # t)"
      by (rule reads_backD) (use Cons.prems False n kv in \<open>simp_all add: join_Cons\<close>)
    ultimately show ?thesis using False n kv
      by (simp add: join_Cons json_space_def json_quote_def k)
  qed
qed simp

lemma join_nonempty: "js \<noteq> [] \<Longrightarrow> list_all json_plain js \<Longrightarrow>
    \<exists>c r. join '','' (map json_text js) = c # r \<and> \<not> json_space c \<and> c \<noteq> CHR '']''"
  using json_text_head [of "hd js"] by (cases js; cases "tl js") auto

lemma parse_value_text: "reads_back j"
proof (induction j rule: json.induct)
  case (JArr js)
  show ?case
    unfolding reads_back_def
  proof (intro allI impI)
    fix n d t
    assume ok: "json_plain (JArr js)" and n: "2 * length (json_text (JArr js)) \<le> n" and d: "json_depth (JArr js) \<le> d"
    obtain m where m: "n = Suc m" using n by (cases n) auto
    show "parse_value n d (json_text (JArr js) @ t) = Some (clean (JArr js), t)"
    proof (cases "js = []")
      case True
      with m d show ?thesis by (simp add: json_space_def)
    next
      case False
      have all: "\<forall>j \<in> set js. reads_back j \<and> json_plain j \<and> json_depth j \<le> d - 1"
        using JArr ok foldr_max_le [of "map json_depth js" "d - 1"] d by (auto simp: list_all_iff)
      have "list_all json_plain js" using ok by simp
      from join_nonempty [OF False this] obtain c r
        where "join '','' (map json_text js) = c # r" "\<not> json_space c" "c \<noteq> CHR '']''" by blast
      moreover have "parse_elems m (d - 1) (join '','' (map json_text js) @ CHR '']'' # t) = Some (map clean js, t)"
        by (rule parse_elems_text [OF all False]) (use n m in simp)
      ultimately show ?thesis using m d by (simp add: json_space_def)
    qed
  qed
next
  case (JObj kvs)
  show ?case
    unfolding reads_back_def
  proof (intro allI impI)
    fix n d t
    assume ok: "json_plain (JObj kvs)" and n: "2 * length (json_text (JObj kvs)) \<le> n" and d: "json_depth (JObj kvs) \<le> d"
    obtain m where m: "n = Suc m" using n by (cases n) auto
    show "parse_value n d (json_text (JObj kvs) @ t) = Some (clean (JObj kvs), t)"
    proof (cases "kvs = []")
      case True
      with m d show ?thesis by (simp add: json_space_def)
    next
      case False
      have all: "\<forall>(k, j) \<in> set kvs. reads_back j \<and> json_plain j \<and> json_depth j \<le> d - 1"
        using JObj ok foldr_max_le [of "map (\<lambda>(k, v). json_depth v) kvs" "d - 1"] d
        by (fastforce simp: list_all_iff)
      from False obtain r where "join '','' (map member_text kvs) = CHR 0x22 # r"
        by (cases kvs; cases "tl kvs") (auto simp: json_quote_def split_beta)
      moreover have "parse_members m (d - 1) (join '','' (map member_text kvs) @ CHR ''}'' # t) = Some (map (\<lambda>(k, v). (clean_string k, clean v)) kvs, t)"
        by (rule parse_members_text [OF all False]) (use n m in simp)
      ultimately show ?thesis using m d by (simp add: json_space_def)
    qed
  qed
next
  case (JStr s)
  show ?case
    unfolding reads_back_def
  proof (intro allI impI)
    fix n d t
    assume "json_plain (JStr s)" and "2 * length (json_text (JStr s)) \<le> n"
    then show "parse_value n d (json_text (JStr s) @ t) = Some (clean (JStr s), t)"
      by (cases n) (simp_all add: json_quote_def json_space_def parse_quoted)
  qed
next
  case (JBool b)
  have "parse_value (Suc m) d (json_text (JBool b) @ t) = Some (clean (JBool b), t)" for m d t
    by (cases b) (simp_all add: json_space_def parse_literal_def)
  then show ?case
    unfolding reads_back_def
  proof (intro allI impI)
    fix n d t
    assume "2 * length (json_text (JBool b)) \<le> n"
    then obtain m where "n = Suc m" by (cases n; cases b) auto
    then show "parse_value n d (json_text (JBool b) @ t) = Some (clean (JBool b), t)"
      using \<open>\<And>m d t. parse_value (Suc m) d (json_text (JBool b) @ t) = Some (clean (JBool b), t)\<close> by blast
  qed
next
  case JNull
  have "parse_value (Suc m) d (json_text JNull @ t) = Some (clean JNull, t)" for m d t
    by (simp add: json_space_def parse_literal_def)
  then show ?case
    unfolding reads_back_def
  proof (intro allI impI)
    fix n d t
    assume "2 * length (json_text JNull) \<le> n"
    then obtain m where "n = Suc m" by (cases n) auto
    then show "parse_value n d (json_text JNull @ t) = Some (clean JNull, t)"
      using \<open>\<And>m d t. parse_value (Suc m) d (json_text JNull @ t) = Some (clean JNull, t)\<close> by blast
  qed
next
  case (JNum s)
  then show ?case by (simp add: reads_back_def)
qed

lemma parse_text:
  assumes "json_plain j" and "json_depth j \<le> max_depth"
  shows "parse_value (2 * length (json_text j @ t) + 2) max_depth (json_text j @ t) = Some (clean j, t)"
  by (rule reads_backD [OF parse_value_text]) (use assms in simp_all)

lemma json_decode_text:
  assumes "json_ok j" and "json_depth j \<le> max_depth"
  shows "json_decode (json_text j @ t) = Some j"
  using json_ok_plain [OF assms(1)] parse_text [of j t] assms(2) unfolding json_decode_def by simp

lemma json_unmarshal_clean:
  assumes "json_plain j" and "json_depth j \<le> max_depth"
  shows "json_unmarshal (json_text j) = Some (clean j)"
  using parse_text [OF assms, of "[]"] unfolding json_unmarshal_def append_Nil2 by simp

lemma json_unmarshal_text:
  assumes "json_ok j" and "json_depth j \<le> max_depth"
  shows "json_unmarshal (json_text j) = Some j"
  using json_ok_plain [OF assms(1)] json_unmarshal_clean [of j] assms(2) by simp

lemma json_valid_text: "json_plain j \<Longrightarrow> json_depth j \<le> max_depth \<Longrightarrow> json_valid (json_text j)"
  by (simp add: json_valid_def json_unmarshal_clean)

end
