(* ===== verification/Wire.thy ===== *)
theory Wire
  imports Notification Json
begin

text \<open>
  The wire: the types of \<open>api/backendapi\<close> and \<open>api/core\<close> with their JSON, the conversions
  between them and the domain model (\<open>internal/remotebackend\<close> on the sending side,
  \<open>internal/slackbackend/convert.go\<close> on the receiving one), and HTTP messages. A field with
  \<open>omitempty\<close> behind a pointer is an \<open>option\<close>.
\<close>

section \<open>HTTP messages\<close>

record http_request =
  rqMethod :: string
  rqURL :: string
  rqHeader :: "(string, string) gomap"
  rqBody :: string

record http_response =
  rsStatus :: int
  rsContentType :: string
  rsBody :: string

text \<open>\<open>http.Error\<close>.\<close>

definition http_error :: "string \<Rightarrow> int \<Rightarrow> http_response" where
  "http_error msg code = \<lparr>rsStatus = code, rsContentType = ''text/plain; charset=utf-8'',
     rsBody = msg @ [CHR 0x0A]\<rparr>"

definition no_content :: http_response where
  "no_content = \<lparr>rsStatus = 204, rsContentType = [], rsBody = []\<rparr>"

text \<open>
  Reading a request body: \<open>MaxBytesReader\<close> and \<open>Decoder.Decode\<close>. A value that is not complete
  within the limit is an error.
\<close>

definition maxBodyBytes :: nat where
  "maxBodyBytes = 1048576"

definition decode_body :: "'a field_decoder \<Rightarrow> 'a \<Rightarrow> string \<Rightarrow> 'a option" where
  "decode_body dec zero body = (case json_decode (take maxBodyBytes body) of None \<Rightarrow> None | Some j \<Rightarrow> dec j zero)"

section \<open>The wire types\<close>

record wire_field =
  wfLabel :: string
  wfValue :: string

record wire_item =
  wiAppName :: string
  wiCluster :: string
  wiCommitSHA :: "string option"
  wiCommitURL :: "string option"
  wiDetailText :: "string option"
  wiFields :: "wire_field list option"
  wiImages :: "string list option"
  wiLink :: "string option"
  wiTargetRevision :: "string option"
  wiTrigger :: string
  wiTriggeredBy :: "string option"

record wire_notification =
  wnItems :: "wire_item list"
  wnSummary :: string

record notify_request =
  nqNotification :: wire_notification
  nqRecipient :: string
  nqRef :: string

record notify_result =
  nrRef :: string

record thread_reply_request =
  tqRecipient :: string
  tqRef :: string
  tqText :: string

record register_request =
  gqBaseURL :: string
  gqName :: string
  gqSupportsThreadReply :: bool

text \<open>Their zero values.\<close>

definition zero_wire_item :: wire_item where
  "zero_wire_item = \<lparr>wiAppName = [], wiCluster = [], wiCommitSHA = None, wiCommitURL = None,
     wiDetailText = None, wiFields = None, wiImages = None, wiLink = None, wiTargetRevision = None,
     wiTrigger = [], wiTriggeredBy = None\<rparr>"

definition zero_wire_notification :: wire_notification where
  "zero_wire_notification = \<lparr>wnItems = [], wnSummary = []\<rparr>"

definition zero_notify_request :: notify_request where
  "zero_notify_request = \<lparr>nqNotification = zero_wire_notification, nqRecipient = [], nqRef = []\<rparr>"

definition zero_thread_reply_request :: thread_reply_request where
  "zero_thread_reply_request = \<lparr>tqRecipient = [], tqRef = [], tqText = []\<rparr>"

definition zero_register_request :: register_request where
  "zero_register_request = \<lparr>gqBaseURL = [], gqName = [], gqSupportsThreadReply = False\<rparr>"

section \<open>Conversions\<close>

definition non_empty :: "'a list \<Rightarrow> 'a list option" where
  "non_empty s = (if s = [] then None else Some s)"

definition toWireItem :: "item \<Rightarrow> wire_item" where
  "toWireItem it = \<lparr>wiAppName = itAppName it, wiCluster = itCluster it,
     wiCommitSHA = non_empty (itCommitSHA it), wiCommitURL = non_empty (itCommitURL it),
     wiDetailText = non_empty (itDetailText it),
     wiFields = (if itFields it = [] then None
       else Some (map (\<lambda>f. \<lparr>wfLabel = fLabel f, wfValue = fValue f\<rparr>) (itFields it))),
     wiImages = non_empty (itImages it), wiLink = non_empty (itLink it),
     wiTargetRevision = non_empty (itTargetRevision it), wiTrigger = itTrigger it,
     wiTriggeredBy = non_empty (itTriggeredBy it)\<rparr>"

definition toWireNotification :: "notification \<Rightarrow> wire_notification" where
  "toWireNotification n = \<lparr>wnItems = map toWireItem (nItems n), wnSummary = nSummary n\<rparr>"

text \<open>A nil pointer leaves the zero value of the field in place.\<close>

definition or_zero :: "'a list option \<Rightarrow> 'a list" where
  "or_zero p = (case p of None \<Rightarrow> [] | Some x \<Rightarrow> x)"

definition fromWireItem :: "wire_item \<Rightarrow> item" where
  "fromWireItem w = \<lparr>itAppName = wiAppName w, itCluster = wiCluster w, itTrigger = wiTrigger w,
     itCommitURL = or_zero (wiCommitURL w), itCommitSHA = or_zero (wiCommitSHA w),
     itTargetRevision = or_zero (wiTargetRevision w), itTriggeredBy = or_zero (wiTriggeredBy w),
     itImages = or_zero (wiImages w),
     itFields = map (\<lambda>f. \<lparr>fLabel = wfLabel f, fValue = wfValue f\<rparr>) (or_zero (wiFields w)),
     itDetailText = or_zero (wiDetailText w), itLink = or_zero (wiLink w)\<rparr>"

definition fromWireNotification :: "wire_notification \<Rightarrow> notification" where
  "fromWireNotification w = \<lparr>nSummary = wnSummary w, nItems = map fromWireItem (wnItems w)\<rparr>"

section \<open>Marshalling\<close>

text \<open>The member of a pointer field, left out where it is nil.\<close>

definition opt_member :: "string \<Rightarrow> ('a \<Rightarrow> json) \<Rightarrow> 'a option \<Rightarrow> (string \<times> json) list" where
  "opt_member k enc p = (case p of None \<Rightarrow> [] | Some x \<Rightarrow> [(k, enc x)])"

definition wire_field_json :: "wire_field \<Rightarrow> json" where
  "wire_field_json f = JObj [(''label'', JStr (wfLabel f)), (''value'', JStr (wfValue f))]"

definition strings_json :: "string list \<Rightarrow> json" where
  "strings_json ss = JArr (map JStr ss)"

definition wire_item_json :: "wire_item \<Rightarrow> json" where
  "wire_item_json w = JObj
     ([(''appName'', JStr (wiAppName w)), (''cluster'', JStr (wiCluster w))] @
      opt_member ''commitSHA'' JStr (wiCommitSHA w) @
      opt_member ''commitURL'' JStr (wiCommitURL w) @
      opt_member ''detailText'' JStr (wiDetailText w) @
      opt_member ''fields'' (\<lambda>fs. JArr (map wire_field_json fs)) (wiFields w) @
      opt_member ''images'' strings_json (wiImages w) @
      opt_member ''link'' JStr (wiLink w) @
      opt_member ''targetRevision'' JStr (wiTargetRevision w) @
      [(''trigger'', JStr (wiTrigger w))] @
      opt_member ''triggeredBy'' JStr (wiTriggeredBy w))"

definition wire_notification_json :: "wire_notification \<Rightarrow> json" where
  "wire_notification_json w = JObj
     [(''items'', JArr (map wire_item_json (wnItems w))), (''summary'', JStr (wnSummary w))]"

definition notify_request_json :: "notify_request \<Rightarrow> json" where
  "notify_request_json q = JObj
     [(''notification'', wire_notification_json (nqNotification q)),
      (''recipient'', JStr (nqRecipient q)), (''ref'', JStr (nqRef q))]"

definition notify_result_json :: "notify_result \<Rightarrow> json" where
  "notify_result_json r = JObj [(''ref'', JStr (nrRef r))]"

definition thread_reply_request_json :: "thread_reply_request \<Rightarrow> json" where
  "thread_reply_request_json q = JObj
     [(''recipient'', JStr (tqRecipient q)), (''ref'', JStr (tqRef q)), (''text'', JStr (tqText q))]"

definition register_request_json :: "register_request \<Rightarrow> json" where
  "register_request_json q = JObj
     [(''baseURL'', JStr (gqBaseURL q)), (''name'', JStr (gqName q)),
      (''supportsThreadReply'', JBool (gqSupportsThreadReply q))]"

section \<open>Unmarshalling\<close>

definition wire_field_fields :: "(string \<times> wire_field field_decoder) list" where
  "wire_field_fields =
     [(''label'', decode_field wfLabel (\<lambda>x. wfLabel_update (\<lambda>_. x)) decode_string),
      (''value'', decode_field wfValue (\<lambda>x. wfValue_update (\<lambda>_. x)) decode_string)]"

abbreviation decode_string_pointer :: "string option field_decoder" where
  "decode_string_pointer \<equiv> decode_pointer [] decode_string"

definition wire_item_fields :: "(string \<times> wire_item field_decoder) list" where
  "wire_item_fields =
     [(''appName'', decode_field wiAppName (\<lambda>x. wiAppName_update (\<lambda>_. x)) decode_string),
      (''cluster'', decode_field wiCluster (\<lambda>x. wiCluster_update (\<lambda>_. x)) decode_string),
      (''commitSHA'', decode_field wiCommitSHA (\<lambda>x. wiCommitSHA_update (\<lambda>_. x)) decode_string_pointer),
      (''commitURL'', decode_field wiCommitURL (\<lambda>x. wiCommitURL_update (\<lambda>_. x)) decode_string_pointer),
      (''detailText'', decode_field wiDetailText (\<lambda>x. wiDetailText_update (\<lambda>_. x)) decode_string_pointer),
      (''fields'', decode_field wiFields (\<lambda>x. wiFields_update (\<lambda>_. x))
         (decode_pointer [] (decode_slice \<lparr>wfLabel = [], wfValue = []\<rparr> (decode_struct wire_field_fields)))),
      (''images'', decode_field wiImages (\<lambda>x. wiImages_update (\<lambda>_. x))
         (decode_pointer [] (decode_slice [] decode_string))),
      (''link'', decode_field wiLink (\<lambda>x. wiLink_update (\<lambda>_. x)) decode_string_pointer),
      (''targetRevision'', decode_field wiTargetRevision (\<lambda>x. wiTargetRevision_update (\<lambda>_. x)) decode_string_pointer),
      (''trigger'', decode_field wiTrigger (\<lambda>x. wiTrigger_update (\<lambda>_. x)) decode_string),
      (''triggeredBy'', decode_field wiTriggeredBy (\<lambda>x. wiTriggeredBy_update (\<lambda>_. x)) decode_string_pointer)]"

definition wire_notification_fields :: "(string \<times> wire_notification field_decoder) list" where
  "wire_notification_fields =
     [(''items'', decode_field wnItems (\<lambda>x. wnItems_update (\<lambda>_. x))
         (decode_slice zero_wire_item (decode_struct wire_item_fields))),
      (''summary'', decode_field wnSummary (\<lambda>x. wnSummary_update (\<lambda>_. x)) decode_string)]"

definition decode_notify_request :: "notify_request field_decoder" where
  "decode_notify_request = decode_struct
     [(''notification'', decode_field nqNotification (\<lambda>x. nqNotification_update (\<lambda>_. x))
         (decode_struct wire_notification_fields)),
      (''recipient'', decode_field nqRecipient (\<lambda>x. nqRecipient_update (\<lambda>_. x)) decode_string),
      (''ref'', decode_field nqRef (\<lambda>x. nqRef_update (\<lambda>_. x)) decode_string)]"

definition decode_notify_result :: "notify_result field_decoder" where
  "decode_notify_result = decode_struct
     [(''ref'', decode_field nrRef (\<lambda>x. nrRef_update (\<lambda>_. x)) decode_string)]"

definition decode_thread_reply_request :: "thread_reply_request field_decoder" where
  "decode_thread_reply_request = decode_struct
     [(''recipient'', decode_field tqRecipient (\<lambda>x. tqRecipient_update (\<lambda>_. x)) decode_string),
      (''ref'', decode_field tqRef (\<lambda>x. tqRef_update (\<lambda>_. x)) decode_string),
      (''text'', decode_field tqText (\<lambda>x. tqText_update (\<lambda>_. x)) decode_string)]"

definition decode_register_request :: "register_request field_decoder" where
  "decode_register_request = decode_struct
     [(''baseURL'', decode_field gqBaseURL (\<lambda>x. gqBaseURL_update (\<lambda>_. x)) decode_string),
      (''name'', decode_field gqName (\<lambda>x. gqName_update (\<lambda>_. x)) decode_string),
      (''supportsThreadReply'', decode_field gqSupportsThreadReply (\<lambda>x. gqSupportsThreadReply_update (\<lambda>_. x)) decode_bool)]"

text \<open>The event, by the JSON names of its struct tags.\<close>

definition decode_event :: "event field_decoder" where
  "decode_event = decode_struct
     [(''groupKey'', decode_field evGroupKey (\<lambda>x. evGroupKey_update (\<lambda>_. x)) decode_string),
      (''appName'', decode_field evAppName (\<lambda>x. evAppName_update (\<lambda>_. x)) decode_string),
      (''trigger'', decode_field evTrigger (\<lambda>x. evTrigger_update (\<lambda>_. x)) decode_string),
      (''revision'', decode_field evRevision (\<lambda>x. evRevision_update (\<lambda>_. x)) decode_string),
      (''recipient'', decode_field evRecipient (\<lambda>x. evRecipient_update (\<lambda>_. x)) decode_string),
      (''backend'', decode_field evBackend (\<lambda>x. evBackend_update (\<lambda>_. x)) decode_string),
      (''labels'', decode_field evLabels (\<lambda>x. evLabels_update (\<lambda>_. x)) decode_string_map),
      (''target'', decode_field evTarget (\<lambda>x. evTarget_update (\<lambda>_. x)) decode_string),
      (''healthStatus'', decode_field evHealthStatus (\<lambda>x. evHealthStatus_update (\<lambda>_. x)) decode_string),
      (''syncPhase'', decode_field evSyncPhase (\<lambda>x. evSyncPhase_update (\<lambda>_. x)) decode_string),
      (''syncStatus'', decode_field evSyncStatus (\<lambda>x. evSyncStatus_update (\<lambda>_. x)) decode_string),
      (''operationMessage'', decode_field evOperationMsg (\<lambda>x. evOperationMsg_update (\<lambda>_. x)) decode_string),
      (''repoURL'', decode_field evRepoURL (\<lambda>x. evRepoURL_update (\<lambda>_. x)) decode_string),
      (''images'', decode_field evImages (\<lambda>x. evImages_update (\<lambda>_. x)) (decode_slice [] decode_string)),
      (''initiatedBy'', decode_field evInitiatedBy (\<lambda>x. evInitiatedBy_update (\<lambda>_. x)) decode_string),
      (''argocdUrl'', decode_field evArgoCDURL (\<lambda>x. evArgoCDURL_update (\<lambda>_. x)) decode_string),
      (''targetRevision'', decode_field evTargetRevision (\<lambda>x. evTargetRevision_update (\<lambda>_. x)) decode_string)]"


section \<open>Filling a struct from its own members\<close>

text \<open>No two fields have the same name up to folding.\<close>

definition fields_wf :: "(string \<times> 'a field_decoder) list \<Rightarrow> bool" where
  "fields_wf fds \<longleftrightarrow> distinct (map (\<lambda>f. fold_key (fst f)) fds)"

lemma fields_wf_names: "distinct (map fold_key (map fst fds)) \<Longrightarrow> fields_wf fds"
  by (simp add: fields_wf_def comp_def)

lemma find_field:
  "fields_wf fds \<Longrightarrow> (k, dec) \<in> set fds \<Longrightarrow>
     find (\<lambda>(name, dec). fold_key name = fold_key k) fds = Some (k, dec)"
  by (induction fds) (force simp: fields_wf_def)+

lemma decode_members_append:
  "decode_members fds (xs @ ys) r = Option.bind (decode_members fds xs r) (decode_members fds ys)"
  by (induction fds xs r rule: decode_members.induct) (auto split: option.splits)

lemma decode_member:
  "fields_wf fds \<Longrightarrow> (k, dec) \<in> set fds \<Longrightarrow> decode_members fds [(k, v)] r = dec v r"
  by (simp add: find_field split: option.split)

lemma decode_member_Cons:
  "fields_wf fds \<Longrightarrow> (k, dec) \<in> set fds \<Longrightarrow>
     decode_members fds ((k, v) # kvs) r = Option.bind (dec v r) (decode_members fds kvs)"
  by (simp add: find_field split: option.split)

lemma decode_opt:
  assumes "fields_wf fds" and "(k, decode_field get put (decode_pointer z dec)) \<in> set fds"
    and "\<And>x. p = Some x \<Longrightarrow> enc x \<noteq> JNull \<and> dec (enc x) z = Some x"
    and "get r = None" and "put None r = r"
  shows "decode_members fds (opt_member k enc p) r = Some (put p r)"
proof (cases p)
  case None
  with assms(5) show ?thesis by (simp add: opt_member_def)
next
  case (Some x)
  then have "enc x \<noteq> JNull" "dec (enc x) z = Some x" using assms(3) by auto
  then have "decode_field get put (decode_pointer z dec) (enc x) r = Some (put (Some x) r)"
    using assms(4) by (cases "enc x") (simp_all add: decode_field_def decode_pointer_def)
  with Some decode_member [OF assms(1,2), of "enc x" r] show ?thesis by (simp add: opt_member_def)
qed

lemma decode_all_map:
  "(\<And>x. x \<in> set xs \<Longrightarrow> dec (enc x) z = Some x) \<Longrightarrow> decode_all z dec (map enc xs) = Some xs"
  by (induction xs) simp_all

lemma decode_string_JStr [simp]: "decode_string (JStr s) r = Some s"
  by (simp add: decode_string_def)

lemma decode_strings: "decode_slice [] decode_string (strings_json ss) r = Some ss"
  by (simp add: decode_slice_def strings_json_def decode_all_map)

lemma wire_field_wf: "fields_wf wire_field_fields"
  by (rule fields_wf_names) (unfold wire_field_fields_def list.map fst_conv, code_simp)

lemma wire_item_wf: "fields_wf wire_item_fields"
  by (rule fields_wf_names) (unfold wire_item_fields_def list.map fst_conv, code_simp)

lemma wire_notification_wf: "fields_wf wire_notification_fields"
  by (rule fields_wf_names) (unfold wire_notification_fields_def list.map fst_conv, code_simp)

lemma wire_field_mem:
  "(''label'', decode_field wfLabel (\<lambda>x. wfLabel_update (\<lambda>_. x)) decode_string) \<in> set wire_field_fields"
  "(''value'', decode_field wfValue (\<lambda>x. wfValue_update (\<lambda>_. x)) decode_string) \<in> set wire_field_fields"
  by (simp_all add: wire_field_fields_def)

lemma wire_item_mem:
  "(''appName'', decode_field wiAppName (\<lambda>x. wiAppName_update (\<lambda>_. x)) decode_string) \<in> set wire_item_fields"
  "(''cluster'', decode_field wiCluster (\<lambda>x. wiCluster_update (\<lambda>_. x)) decode_string) \<in> set wire_item_fields"
  "(''commitSHA'', decode_field wiCommitSHA (\<lambda>x. wiCommitSHA_update (\<lambda>_. x)) decode_string_pointer) \<in> set wire_item_fields"
  "(''commitURL'', decode_field wiCommitURL (\<lambda>x. wiCommitURL_update (\<lambda>_. x)) decode_string_pointer) \<in> set wire_item_fields"
  "(''detailText'', decode_field wiDetailText (\<lambda>x. wiDetailText_update (\<lambda>_. x)) decode_string_pointer) \<in> set wire_item_fields"
  "(''fields'', decode_field wiFields (\<lambda>x. wiFields_update (\<lambda>_. x)) (decode_pointer [] (decode_slice \<lparr>wfLabel = [], wfValue = []\<rparr> (decode_struct wire_field_fields)))) \<in> set wire_item_fields"
  "(''images'', decode_field wiImages (\<lambda>x. wiImages_update (\<lambda>_. x)) (decode_pointer [] (decode_slice [] decode_string))) \<in> set wire_item_fields"
  "(''link'', decode_field wiLink (\<lambda>x. wiLink_update (\<lambda>_. x)) decode_string_pointer) \<in> set wire_item_fields"
  "(''targetRevision'', decode_field wiTargetRevision (\<lambda>x. wiTargetRevision_update (\<lambda>_. x)) decode_string_pointer) \<in> set wire_item_fields"
  "(''trigger'', decode_field wiTrigger (\<lambda>x. wiTrigger_update (\<lambda>_. x)) decode_string) \<in> set wire_item_fields"
  "(''triggeredBy'', decode_field wiTriggeredBy (\<lambda>x. wiTriggeredBy_update (\<lambda>_. x)) decode_string_pointer) \<in> set wire_item_fields"
  by (simp_all add: wire_item_fields_def)

lemma wire_notification_mem:
  "(''items'', decode_field wnItems (\<lambda>x. wnItems_update (\<lambda>_. x)) (decode_slice zero_wire_item (decode_struct wire_item_fields))) \<in> set wire_notification_fields"
  "(''summary'', decode_field wnSummary (\<lambda>x. wnSummary_update (\<lambda>_. x)) decode_string) \<in> set wire_notification_fields"
  by (simp_all add: wire_notification_fields_def)

lemmas wire_field_step = wire_field_mem [THEN decode_member_Cons [OF wire_field_wf]]
lemmas wire_item_step = wire_item_mem [THEN decode_member_Cons [OF wire_item_wf]]
lemmas wire_notification_step = wire_notification_mem [THEN decode_member_Cons [OF wire_notification_wf]]

lemma strings_json_not_null [simp]: "strings_json ss \<noteq> JNull"
  by (simp add: strings_json_def)

lemma decode_wire_field: "decode_struct wire_field_fields (wire_field_json f) r = Some f"
  by (cases f) (simp add: wire_field_json_def decode_struct_def wire_field_step decode_field_def
      del: decode_members.simps(2))

lemma decode_wire_fields:
  "decode_slice z (decode_struct wire_field_fields) (JArr (map wire_field_json fs)) r = Some fs"
  by (simp add: decode_slice_def decode_all_map decode_wire_field)

text \<open>The members of an item in their order; a pointer member changes its own field only.\<close>

lemma decode_wire_item_opts:
  "wiCommitSHA r = None \<Longrightarrow> decode_members wire_item_fields (opt_member ''commitSHA'' JStr p) r = Some (r\<lparr>wiCommitSHA := p\<rparr>)"
  "wiCommitURL r = None \<Longrightarrow> decode_members wire_item_fields (opt_member ''commitURL'' JStr p) r = Some (r\<lparr>wiCommitURL := p\<rparr>)"
  "wiDetailText r = None \<Longrightarrow> decode_members wire_item_fields (opt_member ''detailText'' JStr p) r = Some (r\<lparr>wiDetailText := p\<rparr>)"
  "wiFields r = None \<Longrightarrow> decode_members wire_item_fields (opt_member ''fields'' (\<lambda>fs. JArr (map wire_field_json fs)) q) r = Some (r\<lparr>wiFields := q\<rparr>)"
  "wiImages r = None \<Longrightarrow> decode_members wire_item_fields (opt_member ''images'' strings_json t) r = Some (r\<lparr>wiImages := t\<rparr>)"
  "wiLink r = None \<Longrightarrow> decode_members wire_item_fields (opt_member ''link'' JStr p) r = Some (r\<lparr>wiLink := p\<rparr>)"
  "wiTargetRevision r = None \<Longrightarrow> decode_members wire_item_fields (opt_member ''targetRevision'' JStr p) r = Some (r\<lparr>wiTargetRevision := p\<rparr>)"
  "wiTriggeredBy r = None \<Longrightarrow> decode_members wire_item_fields (opt_member ''triggeredBy'' JStr p) r = Some (r\<lparr>wiTriggeredBy := p\<rparr>)"
  subgoal by (rule decode_opt [OF wire_item_wf wire_item_mem(3)]) (simp_all)
  subgoal by (rule decode_opt [OF wire_item_wf wire_item_mem(4)]) (simp_all)
  subgoal by (rule decode_opt [OF wire_item_wf wire_item_mem(5)]) (simp_all)
  subgoal by (rule decode_opt [OF wire_item_wf wire_item_mem(6)]) (simp_all add: decode_wire_fields)
  subgoal by (rule decode_opt [OF wire_item_wf wire_item_mem(7)]) (simp_all add: decode_strings)
  subgoal by (rule decode_opt [OF wire_item_wf wire_item_mem(8)]) (simp_all)
  subgoal by (rule decode_opt [OF wire_item_wf wire_item_mem(9)]) (simp_all)
  subgoal by (rule decode_opt [OF wire_item_wf wire_item_mem(11)]) (simp_all)
  done

lemma decode_wire_item:
  "decode_struct wire_item_fields (wire_item_json w) zero_wire_item = Some w"
  by (cases w) (simp add: wire_item_json_def decode_struct_def zero_wire_item_def wire_item_step
      decode_members_append decode_wire_item_opts decode_field_def del: decode_members.simps(2))

lemma decode_wire_notification:
  "decode_struct wire_notification_fields (wire_notification_json w) r = Some w"
proof -
  have "decode_slice zero_wire_item (decode_struct wire_item_fields) (JArr (map wire_item_json ws)) x = Some ws" for ws x
    by (simp add: decode_slice_def decode_all_map decode_wire_item)
  then show ?thesis
    by (cases w; cases r) (simp add: wire_notification_json_def decode_struct_def wire_notification_step
        decode_field_def del: decode_members.simps(2))
qed


text \<open>The three requests and the result.\<close>

lemma decode_notify_request_json: "decode_notify_request (notify_request_json q) zero_notify_request = Some q"
proof -
  let ?F = "[(''notification'', decode_field nqNotification (\<lambda>x. nqNotification_update (\<lambda>_. x))
         (decode_struct wire_notification_fields)),
      (''recipient'', decode_field nqRecipient (\<lambda>x. nqRecipient_update (\<lambda>_. x)) decode_string),
      (''ref'', decode_field nqRef (\<lambda>x. nqRef_update (\<lambda>_. x)) decode_string)]"
  have wf: "fields_wf ?F" by (rule fields_wf_names) (unfold list.map fst_conv, code_simp)
  note step = decode_member_Cons [OF wf]
  show ?thesis
    unfolding decode_notify_request_def notify_request_json_def
    by (cases q) (simp add: decode_struct_def step decode_field_def decode_wire_notification [unfolded decode_struct_def]
        zero_notify_request_def del: decode_members.simps(2))
qed


lemma decode_notify_result_json: "decode_notify_result (notify_result_json q) r = Some q"
  by (cases q; cases r) (simp add: decode_notify_result_def notify_result_json_def decode_struct_def decode_field_def)

lemma decode_thread_reply_request_json:
  "decode_thread_reply_request (thread_reply_request_json q) zero_thread_reply_request = Some q"
proof -
  let ?F = "[(''recipient'', decode_field tqRecipient (\<lambda>x. tqRecipient_update (\<lambda>_. x)) decode_string),
      (''ref'', decode_field tqRef (\<lambda>x. tqRef_update (\<lambda>_. x)) decode_string),
      (''text'', decode_field tqText (\<lambda>x. tqText_update (\<lambda>_. x)) decode_string)]"
  have wf: "fields_wf ?F" by (rule fields_wf_names) (unfold list.map fst_conv, code_simp)
  show ?thesis
    unfolding decode_thread_reply_request_def thread_reply_request_json_def
    by (cases q) (simp add: decode_struct_def decode_member_Cons [OF wf] decode_field_def
        zero_thread_reply_request_def del: decode_members.simps(2))
qed

lemma decode_register_request_json:
  "decode_register_request (register_request_json q) zero_register_request = Some q"
proof -
  let ?F = "[(''baseURL'', decode_field gqBaseURL (\<lambda>x. gqBaseURL_update (\<lambda>_. x)) decode_string),
      (''name'', decode_field gqName (\<lambda>x. gqName_update (\<lambda>_. x)) decode_string),
      (''supportsThreadReply'', decode_field gqSupportsThreadReply (\<lambda>x. gqSupportsThreadReply_update (\<lambda>_. x)) decode_bool)]"
  have wf: "fields_wf ?F" by (rule fields_wf_names) (unfold list.map fst_conv, code_simp)
  show ?thesis
    unfolding decode_register_request_def register_request_json_def
    by (cases q) (simp add: decode_struct_def decode_member_Cons [OF wf] decode_field_def decode_bool_def
        zero_register_request_def del: decode_members.simps(2))
qed

section \<open>Round trips\<close>

lemma or_zero_non_empty [simp]: "or_zero (non_empty s) = s"
  by (simp add: or_zero_def non_empty_def)

lemma or_zero_simps [simp]: "or_zero None = []" "or_zero (Some x) = x"
  by (simp_all add: or_zero_def)

lemma fromWireItem_toWireItem [simp]: "fromWireItem (toWireItem it) = it"
  by (cases it) (simp add: fromWireItem_def toWireItem_def comp_def map_idI)

lemma fromWireNotification_toWireNotification [simp]:
  "fromWireNotification (toWireNotification n) = n"
  by (cases n) (simp add: fromWireNotification_def toWireNotification_def comp_def map_idI)

text \<open>The strings of a message are valid UTF-8.\<close>

definition item_utf8 :: "item \<Rightarrow> bool" where
  "item_utf8 it \<longleftrightarrow> list_all utf8_valid
     ([itAppName it, itCluster it, itTrigger it, itCommitURL it, itCommitSHA it, itTargetRevision it,
       itTriggeredBy it, itDetailText it, itLink it] @ itImages it @
      concat (map (\<lambda>f. [fLabel f, fValue f]) (itFields it)))"

definition notification_utf8 :: "notification \<Rightarrow> bool" where
  "notification_utf8 n \<longleftrightarrow> utf8_valid (nSummary n) \<and> list_all item_utf8 (nItems n)"

lemma utf8_names:
  "list_all utf8_valid [''appName'', ''cluster'', ''commitSHA'', ''commitURL'', ''detailText'', ''fields'',
     ''images'', ''link'', ''targetRevision'', ''trigger'', ''triggeredBy'', ''label'', ''value'', ''items'',
     ''summary'', ''notification'', ''recipient'', ''ref'', ''text'', ''baseURL'', ''name'', ''supportsThreadReply'']"
  by code_simp

lemmas utf8_name = utf8_names [simplified]

lemma json_ok_opt_member:
  "list_all (\<lambda>(k, v). utf8_valid k \<and> json_ok v) (opt_member k enc p) \<longleftrightarrow>
     (\<forall>x. p = Some x \<longrightarrow> utf8_valid k \<and> json_ok (enc x))"
  by (cases p) (simp_all add: opt_member_def)

lemma non_empty_Some [simp]: "non_empty s = Some x \<longleftrightarrow> x = s \<and> s \<noteq> []"
  by (auto simp: non_empty_def)

lemma json_depth_JObj: "json_depth (JObj kvs) \<le> Suc d \<longleftrightarrow> (\<forall>(k, v) \<in> set kvs. json_depth v \<le> d)"
  by (auto simp: foldr_max_le)

lemma json_depth_JArr: "json_depth (JArr js) \<le> Suc d \<longleftrightarrow> (\<forall>j \<in> set js. json_depth j \<le> d)"
  by (simp add: foldr_max_le)

lemma mem_opt_member: "(k', v) \<in> set (opt_member k enc p) \<longleftrightarrow> k' = k \<and> (\<exists>x. p = Some x \<and> v = enc x)"
  by (cases p) (auto simp: opt_member_def)

lemma wire_field_ok: "utf8_valid (fLabel f) \<Longrightarrow> utf8_valid (fValue f) \<Longrightarrow>
    json_ok (wire_field_json \<lparr>wfLabel = fLabel f, wfValue = fValue f\<rparr>)"
  by (simp add: wire_field_json_def utf8_name)

lemma wire_item_ok:
  assumes "item_utf8 it"
  shows "json_ok (wire_item_json (toWireItem it))"
proof -
  have "list_all (\<lambda>f. utf8_valid (fLabel f) \<and> utf8_valid (fValue f)) (itFields it)"
    and "list_all utf8_valid (itImages it)"
    using assms by (auto simp: item_utf8_def list_all_iff)
  then have "list_all json_ok (map wire_field_json (map (\<lambda>f. \<lparr>wfLabel = fLabel f, wfValue = fValue f\<rparr>) (itFields it)))"
    "json_ok (strings_json (itImages it))"
    by (simp_all add: list_all_iff wire_field_ok strings_json_def)
  with assms show ?thesis
    by (simp add: wire_item_json_def toWireItem_def json_ok_opt_member utf8_name item_utf8_def)
qed

lemma wire_item_depth: "json_depth (wire_item_json w) \<le> Suc (Suc (Suc 0))"
  unfolding wire_item_json_def json_depth_JObj
  by (auto simp: mem_opt_member json_depth_JArr json_depth_JObj strings_json_def wire_field_json_def
      simp del: json_depth.simps(1,2))

lemma notify_request_ok:
  assumes "notification_utf8 n" and "utf8_valid recipient" and "utf8_valid ref"
  shows "json_ok (notify_request_json \<lparr>nqNotification = toWireNotification n, nqRecipient = recipient, nqRef = ref\<rparr>)"
    and "json_depth (notify_request_json \<lparr>nqNotification = toWireNotification n, nqRecipient = recipient, nqRef = ref\<rparr>) \<le> max_depth"
proof -
  show "json_ok (notify_request_json \<lparr>nqNotification = toWireNotification n, nqRecipient = recipient, nqRef = ref\<rparr>)"
    using assms
    by (auto simp: notify_request_json_def wire_notification_json_def toWireNotification_def notification_utf8_def
        utf8_name list_all_iff wire_item_ok)
  have "json_depth (notify_request_json \<lparr>nqNotification = toWireNotification n, nqRecipient = recipient, nqRef = ref\<rparr>)
      \<le> Suc (Suc (Suc (Suc (Suc (Suc 0)))))"
    unfolding notify_request_json_def wire_notification_json_def
    by (simp add: json_depth_JObj json_depth_JArr wire_item_depth del: json_depth.simps(1,2))
  then show "json_depth (notify_request_json \<lparr>nqNotification = toWireNotification n, nqRecipient = recipient, nqRef = ref\<rparr>) \<le> max_depth"
    by (simp add: max_depth_def)
qed

lemma decode_body_text:
  assumes "json_ok j" and "json_depth j \<le> max_depth" and "length (json_text j) \<le> maxBodyBytes"
  shows "decode_body dec zero (json_text j) = dec j zero"
  using json_decode_text [OF assms(1,2), of "[]"] assms(3) by (simp add: decode_body_def)

text \<open>
  What the core posts is what the backend handles: \<open>toWireNotification\<close> and \<open>Marshal\<close> on one
  side, \<open>Decode\<close> and \<open>fromWireNotification\<close> on the other.
\<close>

text \<open>
  C20: What the core sends is what a backend handles: a notification whose strings are valid
  UTF-8, converted, marshalled, read back by the body decoder within its size limit and
  converted again, is the same notification with the same recipient and reference.
\<close>

theorem wire_roundtrip:
  assumes "notification_utf8 n" and "utf8_valid recipient" and "utf8_valid ref"
    and "body = json_text (notify_request_json
           \<lparr>nqNotification = toWireNotification n, nqRecipient = recipient, nqRef = ref\<rparr>)"
    and "length body \<le> maxBodyBytes"
  shows "map_option (\<lambda>q. (fromWireNotification (nqNotification q), nqRecipient q, nqRef q))
    (decode_body decode_notify_request zero_notify_request body) = Some (n, recipient, ref)"
  unfolding assms(4)
  using assms(5)
  by (simp add: decode_body_text notify_request_ok [OF assms(1-3)] decode_notify_request_json assms(4))


section \<open>A sample message\<close>

lemma utf8_sample: "notification_utf8 \<lparr>nSummary = ''g'', nItems = [buildDeployedItem deployed]\<rparr>"
  "utf8_valid ''ops''" "utf8_valid ''m1''"
  by code_simp+

lemma wire_roundtrip_witness:
  "map_option (\<lambda>q. (fromWireNotification (nqNotification q), nqRecipient q, nqRef q))
    (decode_body decode_notify_request zero_notify_request
      (json_text (notify_request_json \<lparr>nqNotification = toWireNotification \<lparr>nSummary = ''g'', nItems = [buildDeployedItem deployed]\<rparr>,
         nqRecipient = ''ops'', nqRef = ''m1''\<rparr>))) =
   Some (\<lparr>nSummary = ''g'', nItems = [buildDeployedItem deployed]\<rparr>, ''ops'', ''m1'')"
proof (rule wire_roundtrip [OF utf8_sample refl])
  have "length (json_text (notify_request_json \<lparr>nqNotification = toWireNotification \<lparr>nSummary = ''g'', nItems = [buildDeployedItem deployed]\<rparr>,
     nqRecipient = ''ops'', nqRef = ''m1''\<rparr>)) \<le> 1000" by code_simp
  then show "length (json_text (notify_request_json \<lparr>nqNotification = toWireNotification \<lparr>nSummary = ''g'', nItems = [buildDeployedItem deployed]\<rparr>,
     nqRecipient = ''ops'', nqRef = ''m1''\<rparr>)) \<le> maxBodyBytes" by (simp add: maxBodyBytes_def)
qed

end
