(* ===== verification/Registry.thy ===== *)
theory Registry
  imports Wire
begin

text \<open>
  Package \<open>internal/registry\<close>: the backends that have registered themselves, by name. An entry
  older than the TTL is stale; \<open>Lookup\<close> ignores it, and \<open>Register\<close> removes it when it comes
  along. The clock is an argument; every operation holds the lock throughout.
\<close>

datatype register_error = ErrMissingName | ErrMissingBaseURL

record reg_backend =
  rbName :: string
  rbBaseURL :: string
  rbSupportsThreadReply :: bool
  rbLastSeen :: int

record registry =
  rgTTL :: int
  rgBackends :: "(string, reg_backend) gomap"

definition NewRegistry :: "int \<Rightarrow> registry" where
  "NewRegistry ttl = \<lparr>rgTTL = ttl, rgBackends = []\<rparr>"

definition stale :: "int \<Rightarrow> int \<Rightarrow> reg_backend \<Rightarrow> bool" where
  "stale ttl now b \<longleftrightarrow> time_sub now (rbLastSeen b) > ttl"

definition pruneLocked :: "int \<Rightarrow> string \<Rightarrow> registry \<Rightarrow> registry" where
  "pruneLocked now skip r =
     r\<lparr>rgBackends := filter (\<lambda>(name, b). name = skip \<or> \<not> stale (rgTTL r) now b) (rgBackends r)\<rparr>"

definition register_errors :: "string \<Rightarrow> string \<Rightarrow> register_error list" where
  "register_errors name baseURL =
     (let errs = [];
          errs = (if name = [] then errs @ [ErrMissingName] else errs);
          errs = (if baseURL = [] then errs @ [ErrMissingBaseURL] else errs)
      in errs)"

definition Register :: "int \<Rightarrow> string \<Rightarrow> string \<Rightarrow> bool \<Rightarrow> registry \<Rightarrow>
    (register_error list + bool) \<times> registry" where
  "Register now name baseURL supportsThreadReply r =
     (let errs = register_errors name baseURL in
      if length errs > 0 then (Inl errs, r)
      else (let isNew = (case map_of (rgBackends r) name of
                  None \<Rightarrow> True | Some prior \<Rightarrow> stale (rgTTL r) now prior);
                b = \<lparr>rbName = name, rbBaseURL = trim_suffix baseURL ''/'',
                     rbSupportsThreadReply = supportsThreadReply, rbLastSeen = now\<rparr>;
                r = r\<lparr>rgBackends := gput name b (rgBackends r)\<rparr>
            in (Inr isNew, pruneLocked now name r)))"

definition Lookup :: "int \<Rightarrow> string \<Rightarrow> registry \<Rightarrow> reg_backend option" where
  "Lookup now name r =
     (case map_of (rgBackends r) name of
        None \<Rightarrow> None
      | Some b \<Rightarrow> if stale (rgTTL r) now b then None else Some b)"

definition Len :: "registry \<Rightarrow> nat" where
  "Len r = length (rgBackends r)"

section \<open>The HTTP handler\<close>

definition register_error_text :: "register_error \<Rightarrow> string" where
  "register_error_text e = (case e of ErrMissingName \<Rightarrow> ''MissingName'' | ErrMissingBaseURL \<Rightarrow> ''MissingBaseURL'')"

text \<open>\<open>decode_error\<close> is the text of the decoder's error for a body it cannot read.\<close>

definition RegisterBackend :: "(string \<Rightarrow> string) \<Rightarrow> int \<Rightarrow> string \<Rightarrow> registry \<Rightarrow> http_response \<times> registry" where
  "RegisterBackend decode_error now body r =
     (case decode_body decode_register_request zero_register_request body of
        None \<Rightarrow> (http_error (''invalid payload: '' @ decode_error body) 400, r)
      | Some req \<Rightarrow>
          (case Register now (gqName req) (gqBaseURL req) (gqSupportsThreadReply req) r of
             (Inl errs, r) \<Rightarrow>
               (http_error (''invalid registration: '' @ join [CHR 0x0A] (map register_error_text errs)) 400, r)
           | (Inr isNew, r) \<Rightarrow> (no_content, r)))"

section \<open>Well-formedness\<close>

text \<open>Entries are stored under their own name.\<close>

definition registry_ok :: "int \<Rightarrow> registry \<Rightarrow> bool" where
  "registry_ok ttl r \<longleftrightarrow> rgTTL r = ttl \<and> gwf (rgBackends r) \<and>
     (\<forall>name b. map_of (rgBackends r) name = Some b \<longrightarrow> rbName b = name \<and> name \<noteq> [])"

lemma registry_ok_new [simp, wf_intros]: "registry_ok ttl (NewRegistry ttl)"
  by (simp add: registry_ok_def NewRegistry_def)

lemma map_of_prune:
  assumes "gwf (rgBackends r)"
  shows "map_of (rgBackends (pruneLocked now skip r)) name =
    (case map_of (rgBackends r) name of None \<Rightarrow> None
     | Some b \<Rightarrow> if name = skip \<or> \<not> stale (rgTTL r) now b then Some b else None)"
proof -
  have "map_of (filter (\<lambda>(n, b). P n b) m) k =
      (case map_of m k of None \<Rightarrow> None | Some b \<Rightarrow> if P k b then Some b else None)"
    if "gwf m" for P :: "string \<Rightarrow> reg_backend \<Rightarrow> bool" and m k
    using that by (induction m) (auto split: option.split simp: map_of_eq_None_iff image_iff)
  then show ?thesis using assms by (simp add: pruneLocked_def)
qed

lemma gwf_prune: "gwf (rgBackends r) \<Longrightarrow> gwf (rgBackends (pruneLocked now skip r))"
  by (simp add: pruneLocked_def distinct_map_filter)

lemma prune_TTL [simp]: "rgTTL (pruneLocked now skip r) = rgTTL r"
  by (simp add: pruneLocked_def)

lemma register_errors_Nil [simp]: "register_errors name url = [] \<longleftrightarrow> name \<noteq> [] \<and> url \<noteq> []"
  by (simp add: register_errors_def)

lemma Register_invalid: "name = [] \<or> url = [] \<Longrightarrow> snd (Register now name url s r) = r"
  by (auto simp: Register_def register_errors_def)

lemma Register_state:
  assumes "name \<noteq> []" and "url \<noteq> []"
  shows "snd (Register now name url s r) = pruneLocked now name (r\<lparr>rgBackends := gput name
     \<lparr>rbName = name, rbBaseURL = trim_suffix url ''/'', rbSupportsThreadReply = s, rbLastSeen = now\<rparr> (rgBackends r)\<rparr>)"
  using assms by (simp add: Register_def Let_def)

lemma registry_ok_Register [wf_intros]:
  assumes "registry_ok ttl r"
  shows "registry_ok ttl (snd (Register now name url s r))"
proof (cases "name = [] \<or> url = []")
  case True
  with assms show ?thesis by (simp add: Register_invalid)
next
  case False
  with assms show ?thesis
    by (auto simp: Register_state registry_ok_def map_of_prune gwf_prune split: option.splits if_splits)
qed

lemma stale_later: "stale ttl now b \<Longrightarrow> now \<le> now' \<Longrightarrow> stale ttl now' b"
  using time_sub_mono [of now now' "rbLastSeen b"] by (auto simp: stale_def)

section \<open>What clients of a registry rely on\<close>

text \<open>
  The contract of a store of registrations: a valid one is found until it is older than the TTL,
  and does not affect other names; an invalid one changes nothing. The last valid registration
  of a name then decides what is found.
\<close>

definition last_registration :: "string \<Rightarrow> (int \<times> string \<times> string \<times> bool) list \<Rightarrow>
    (int \<times> string \<times> string \<times> bool) option" where
  "last_registration name regs =
     find (\<lambda>(t, n, u, s). n = name \<and> n \<noteq> [] \<and> u \<noteq> []) (rev regs)"

locale registration_store =
  fixes register :: "int \<Rightarrow> string \<Rightarrow> string \<Rightarrow> bool \<Rightarrow> 'r \<Rightarrow> 'r"
    and lookup :: "int \<Rightarrow> string \<Rightarrow> 'r \<Rightarrow> reg_backend option"
    and empty :: 'r
    and inv :: "'r \<Rightarrow> bool"
    and ttl :: int
  assumes inv_empty: "inv empty"
    and inv_register: "inv r \<Longrightarrow> inv (register now name url s r)"
    and lookup_empty: "lookup now name empty = None"
    and register_invalid: "name = [] \<or> url = [] \<Longrightarrow> register now name url s r = r"
    and lookup_same: "inv r \<Longrightarrow> name \<noteq> [] \<Longrightarrow> url \<noteq> [] \<Longrightarrow> lookup now' name (register now name url s r) =
      (if time_sub now' now > ttl then None
       else Some \<lparr>rbName = name, rbBaseURL = trim_suffix url ''/'', rbSupportsThreadReply = s, rbLastSeen = now\<rparr>)"
    and lookup_other: "inv r \<Longrightarrow> name' \<noteq> name \<Longrightarrow> now \<le> now' \<Longrightarrow>
      lookup now' name' (register now name url s r) = lookup now' name' r"
begin

definition registers :: "(int \<times> string \<times> string \<times> bool) list \<Rightarrow> 'r" where
  "registers regs = fold (\<lambda>(t, name, url, s). register t name url s) regs empty"

lemma registers_snoc:
  "registers (regs @ [(t, name, url, s)]) = register t name url s (registers regs)"
  by (simp add: registers_def)

lemma registers_inv: "inv (registers regs)"
  by (induction regs rule: rev_induct) (auto simp: registers_def inv_empty inv_register)

lemma lookup_latest:
  assumes "\<forall>(t, n, u, s) \<in> set regs. t \<le> now"
  shows "lookup now name (registers regs) =
    (case last_registration name regs of None \<Rightarrow> None
     | Some (t, n, u, s) \<Rightarrow>
         if time_sub now t > ttl then None
         else Some \<lparr>rbName = n, rbBaseURL = trim_suffix u ''/'', rbSupportsThreadReply = s, rbLastSeen = t\<rparr>)"
  using assms
proof (induction regs rule: rev_induct)
  case Nil
  then show ?case by (simp add: registers_def lookup_empty last_registration_def)
next
  case (snoc reg regs)
  obtain t n u s where reg: "reg = (t, n, u, s)" by (metis prod_cases4)
  show ?case
  proof (cases "n = name \<and> n \<noteq> [] \<and> u \<noteq> []")
    case True
    then show ?thesis
      by (auto simp: reg registers_snoc lookup_same registers_inv last_registration_def)
  next
    case False
    then have "lookup now name (registers (regs @ [reg])) = lookup now name (registers regs)"
      using snoc.prems
      by (cases "n = [] \<or> u = []") (auto simp: reg registers_snoc register_invalid lookup_other registers_inv)
    moreover have "last_registration name (regs @ [reg]) = last_registration name regs"
      using False by (auto simp: reg last_registration_def)
    ultimately show ?thesis using snoc by simp
  qed
qed

end

interpretation reg: registration_store "\<lambda>now name url s r. snd (Register now name url s r)" Lookup
  "NewRegistry ttl" "registry_ok ttl" ttl
  for ttl
proof
  fix r now name url s
  assume ok: "registry_ok ttl r"
  then show "registry_ok ttl (snd (Register now name url s r))" by (rule registry_ok_Register)
next
  fix r and now now' :: int and name name' url :: string and s
  assume ok: "registry_ok ttl r"
  { assume "name \<noteq> []" "url \<noteq> []"
    with ok show "Lookup now' name (snd (Register now name url s r)) =
      (if time_sub now' now > ttl then None
       else Some \<lparr>rbName = name, rbBaseURL = trim_suffix url ''/'', rbSupportsThreadReply = s, rbLastSeen = now\<rparr>)"
      by (simp add: Lookup_def Register_state map_of_prune registry_ok_def stale_def) }
  { assume "name' \<noteq> name" "now \<le> now'"
    with ok stale_later [of ttl now _ now'] show "Lookup now' name' (snd (Register now name url s r)) = Lookup now' name' r"
      by (cases "name = [] \<or> url = []")
        (auto simp: Lookup_def Register_invalid Register_state map_of_prune registry_ok_def split: option.split) }
qed (auto simp: Lookup_def NewRegistry_def Register_invalid registry_ok_def)

section \<open>Properties\<close>

definition register_all :: "int \<Rightarrow> (int \<times> string \<times> string \<times> bool) list \<Rightarrow> registry" where
  "register_all ttl regs =
     fold (\<lambda>(t, name, url, s) r. snd (Register t name url s r)) regs (NewRegistry ttl)"

lemma register_all_registers: "register_all ttl regs = reg.registers ttl regs"
  by (simp add: register_all_def reg.registers_def)

text \<open>
  C16: Along any sequence of registrations, none of them later than now, Lookup implements the
  abstract rule: it finds the last valid registration of the name, without a trailing slash in
  its address, unless that is older than the TTL.
\<close>

theorem registry_lookup_latest:
  assumes "\<forall>(t, n, u, s) \<in> set regs. t \<le> now"
  shows "Lookup now name (register_all ttl regs) =
    (case last_registration name regs of None \<Rightarrow> None
     | Some (t, n, u, s) \<Rightarrow>
         if time_sub now t > ttl then None
         else Some \<lparr>rbName = n, rbBaseURL = trim_suffix u ''/'', rbSupportsThreadReply = s, rbLastSeen = t\<rparr>)"
  unfolding register_all_registers by (rule reg.lookup_latest [OF assms])

text \<open>
  A valid registration reports whether the name was unknown or stale, and afterwards no
  stale entry of another name is left; an invalid one reports every missing field and changes
  nothing.
\<close>

lemma register_reports_and_prunes:
  assumes "registry_ok ttl r" and "name \<noteq> []" and "url \<noteq> []" and "0 \<le> ttl"
  shows "fst (Register now name url s r) = Inr (Lookup now name r = None) \<and>
    (\<forall>(n, b) \<in> set (rgBackends (snd (Register now name url s r))). \<not> stale ttl now b) \<and>
    Len (snd (Register now name url s r)) =
      Suc (card {n. n \<noteq> name \<and> Lookup now n r \<noteq> None})"
proof -
  let ?r = "snd (Register now name url s r)"
  have ttl: "rgTTL r = ttl" and wf: "gwf (rgBackends r)" using assms(1) by (simp_all add: registry_ok_def)
  have ok: "registry_ok ttl ?r" by (rule registry_ok_Register [OF assms(1)])
  have fresh: "Lookup now n ?r = map_of (rgBackends ?r) n" for n
    using assms ttl wf
    by (auto simp: Lookup_def Register_state map_of_prune stale_def split: option.split)
  have "\<not> stale ttl now b" if "(n, b) \<in> set (rgBackends ?r)" for n b
  proof -
    have "map_of (rgBackends ?r) n = Some b"
      using that ok by (simp add: registry_ok_def map_of_eq_Some_iff)
    with fresh [of n] ok show ?thesis by (auto simp: Lookup_def registry_ok_def split: if_splits)
  qed
  moreover have "dom (map_of (rgBackends ?r)) = insert name {n. n \<noteq> name \<and> Lookup now n r \<noteq> None}"
    using fresh reg.lookup_other [OF assms(1), of _ name now now url s] reg.lookup_same [OF assms(1-3), of now now s] assms(4)
    by (fastforce simp: dom_def)
  moreover have "Len ?r = card (dom (map_of (rgBackends ?r)))"
    using ok by (simp add: Len_def registry_ok_def dom_map_of_conv_image_fst card_image distinct_map distinct_card)
  moreover have "finite {n. n \<noteq> name \<and> Lookup now n r \<noteq> None}"
    by (rule finite_subset [OF _ finite_dom_map_of [of "rgBackends r"]]) (auto simp: Lookup_def split: option.splits)
  moreover have "fst (Register now name url s r) = Inr (Lookup now name r = None)"
    using assms(2,3) ttl by (auto simp: Register_def Let_def Lookup_def split: option.split)
  ultimately show ?thesis by auto
qed

text \<open>
  The registration endpoint answers 204 exactly when the body is a valid registration, and
  400 otherwise, with the registry unchanged.
\<close>

lemma register_handler:
  assumes "registry_ok ttl r" and "RegisterBackend decode_error now body r = (resp, r')"
  shows "case decode_body decode_register_request zero_register_request body of
      None \<Rightarrow> rsStatus resp = 400 \<and> r' = r
    | Some req \<Rightarrow>
        if gqName req = [] \<or> gqBaseURL req = [] then rsStatus resp = 400 \<and> r' = r
        else rsStatus resp = 204 \<and> Lookup now (gqName req) r' =
          (if ttl < 0 then None
           else Some \<lparr>rbName = gqName req, rbBaseURL = trim_suffix (gqBaseURL req) ''/'',
              rbSupportsThreadReply = gqSupportsThreadReply req, rbLastSeen = now\<rparr>)"
proof (cases "decode_body decode_register_request zero_register_request body")
  case None
  with assms(2) show ?thesis by (auto simp: RegisterBackend_def http_error_def)
next
  case (Some req)
  show ?thesis
  proof (cases "gqName req = [] \<or> gqBaseURL req = []")
    case True
    with Some assms(2) show ?thesis
      by (auto simp: RegisterBackend_def http_error_def Register_def Let_def)
  next
    case False
    then have "\<exists>isNew. fst (Register now (gqName req) (gqBaseURL req) (gqSupportsThreadReply req) r) = Inr isNew"
      by (auto simp: Register_def Let_def)
    with Some False assms(2) have "rsStatus resp = 204 \<and>
        r' = snd (Register now (gqName req) (gqBaseURL req) (gqSupportsThreadReply req) r)"
      by (auto simp: RegisterBackend_def no_content_def split: prod.splits sum.splits)
    with Some False reg.lookup_same [OF assms(1), of "gqName req" "gqBaseURL req" now now "gqSupportsThreadReply req"]
    show ?thesis by simp
  qed
qed


section \<open>Sample registrations\<close>

abbreviation sample_regs where
  "sample_regs \<equiv> [(0, ''slack'', ''http://old'', False), (50, ''slack'', ''http://s/'', True), (60, ''mail'', ''http://m'', False)]"

lemma registry_lookup_latest_witness:
  "Lookup 100 ''slack'' (register_all 90 sample_regs) =
     Some \<lparr>rbName = ''slack'', rbBaseURL = ''http://s'', rbSupportsThreadReply = True, rbLastSeen = 50\<rparr>"
proof -
  have "last_registration ''slack'' sample_regs = Some (50, ''slack'', ''http://s/'', True)"
    "trim_suffix ''http://s/'' ''/'' = ''http://s''" "\<not> time_sub 100 50 > 90" by code_simp+
  with registry_lookup_latest [of sample_regs 100 "''slack''" 90] show ?thesis by simp
qed

lemma register_reports_and_prunes_witness:
  "fst (Register 145 ''slack'' ''http://s'' True (register_all 90 sample_regs)) = Inr True \<and>
   list_all (\<lambda>(n, b). \<not> stale 90 145 b)
     (rgBackends (snd (Register 145 ''slack'' ''http://s'' True (register_all 90 sample_regs))))"
proof -
  let ?r = "register_all 90 sample_regs"
  have ok: "registry_ok 90 ?r" unfolding register_all_registers by (rule reg.registers_inv)
  have "Lookup 145 ''slack'' ?r = None" by code_simp
  with register_reports_and_prunes [OF ok, of "''slack''" "''http://s''" 145 True]
  show ?thesis by (simp add: list_all_iff)
qed

lemma register_handler_witness:
  "rsStatus (fst (RegisterBackend (\<lambda>s. s) 5
     (json_text (register_request_json \<lparr>gqBaseURL = ''http://s'', gqName = ''slack'', gqSupportsThreadReply = True\<rparr>))
     (NewRegistry 90))) = 204"
proof -
  let ?q = "\<lparr>gqBaseURL = ''http://s'', gqName = ''slack'', gqSupportsThreadReply = True\<rparr>"
  have "json_ok (register_request_json ?q)" "json_depth (register_request_json ?q) \<le> 1" "length (json_text (register_request_json ?q)) \<le> 1000" by code_simp+
  then have "decode_body decode_register_request zero_register_request (json_text (register_request_json ?q)) = Some ?q"
    by (simp add: decode_body_text decode_register_request_json maxBodyBytes_def max_depth_def)
  with register_handler [OF registry_ok_new [of 90] surjective_pairing, of "\<lambda>s. s" 5 "json_text (register_request_json ?q)"]
  show ?thesis by simp
qed

end
