(* ===== verification/RemoteBackend.thy ===== *)
theory RemoteBackend
  imports Delivery Registry
begin

text \<open>
  Package \<open>internal/remotebackend\<close> and the client of \<open>api/backendapi\<close> it calls: a registered
  backend as a notifier and thread replier of the session store.

  The environment gives what the calls need from outside: the registry and the time of a world,
  one HTTP exchange, and \<open>net/url\<close>'s resolution of a relative reference. The registry is looked
  up again on every call.
\<close>

record ('w, 'e) remote_env =
  reRegistry :: "'w \<Rightarrow> registry"
  reNow :: "'w \<Rightarrow> int"
  reDo :: "'w \<Rightarrow> http_request \<Rightarrow> ('e + http_response) \<times> 'w"
  reResolveURL :: "string \<Rightarrow> string \<Rightarrow> string option"

datatype 'e remote_error =
    ErrBackendNotRegistered
  | ErrThreadReplyNotSupported
  | InvalidURL string
  | TransportFailed 'e
  | InvalidResponse string
  | UnexpectedStatus int string

section \<open>The generated client\<close>

definition client_server :: "string \<Rightarrow> string" where
  "client_server server = (if has_suffix server ''/'' then server else server @ ''/'')"

definition new_json_request :: "(string \<Rightarrow> string \<Rightarrow> string option) \<Rightarrow> string \<Rightarrow> string \<Rightarrow> string \<Rightarrow>
    http_request option" where
  "new_json_request resolve server operationPath body =
     (case resolve server (if operationPath \<noteq> [] \<and> hd operationPath = CHR ''/''
                           then CHR ''.'' # operationPath else operationPath) of
        None \<Rightarrow> None
      | Some u \<Rightarrow> Some \<lparr>rqMethod = ''POST'', rqURL = u,
          rqHeader = [(''Content-Type'', ''application/json'')], rqBody = body\<rparr>)"

definition NewNotifyRequest :: "(string \<Rightarrow> string \<Rightarrow> string option) \<Rightarrow> string \<Rightarrow> notify_request \<Rightarrow>
    http_request option" where
  "NewNotifyRequest resolve server q =
     new_json_request resolve server ''/notify'' (json_text (notify_request_json q))"

definition NewThreadReplyRequest :: "(string \<Rightarrow> string \<Rightarrow> string option) \<Rightarrow> string \<Rightarrow> thread_reply_request \<Rightarrow>
    http_request option" where
  "NewThreadReplyRequest resolve server q =
     new_json_request resolve server ''/thread-reply'' (json_text (thread_reply_request_json q))"

fun contains :: "string \<Rightarrow> string \<Rightarrow> bool" where
  "contains [] sub = (sub = [])"
| "contains (c # s) sub = (take (length sub) (c # s) = sub \<or> contains s sub)"

text \<open>\<open>ParseNotifyResponse\<close>: \<open>JSON200\<close> is set for a 200 with a JSON content type only.\<close>

definition ParseNotifyResponse :: "http_response \<Rightarrow> 'e remote_error + notify_result option" where
  "ParseNotifyResponse rsp =
     (if contains (rsContentType rsp) ''json'' \<and> rsStatus rsp = 200
      then (case json_unmarshal (rsBody rsp) of
              None \<Rightarrow> Inl (InvalidResponse (rsBody rsp))
            | Some j \<Rightarrow> (case decode_notify_result j \<lparr>nrRef = []\<rparr> of
                None \<Rightarrow> Inl (InvalidResponse (rsBody rsp))
              | Some r \<Rightarrow> Inr (Some r)))
      else Inr None)"

section \<open>Backend\<close>

text \<open>The exchange: a request that cannot be built is not sent.\<close>

definition exchange :: "('w, 'e) remote_env \<Rightarrow> 'w \<Rightarrow> http_request option \<Rightarrow> string \<Rightarrow>
    ('e remote_error + http_response) \<times> 'w" where
  "exchange env w req server =
     (case req of
        None \<Rightarrow> (Inl (InvalidURL server), w)
      | Some req \<Rightarrow>
          (case reDo env w req of
             (Inl e, w) \<Rightarrow> (Inl (TransportFailed e), w)
           | (Inr rsp, w) \<Rightarrow> (Inr rsp, w)))"

definition remote_notify :: "('w, 'e) remote_env \<Rightarrow> string \<Rightarrow> ('w, 'e remote_error) notify_method" where
  "remote_notify env name w recipient ref n =
     (case Lookup (reNow env w) name (reRegistry env w) of
        None \<Rightarrow> (Inl ErrBackendNotRegistered, w)
      | Some be \<Rightarrow>
          (let server = client_server (rbBaseURL be);
               q = \<lparr>nqNotification = toWireNotification n, nqRecipient = recipient, nqRef = ref\<rparr>
           in case exchange env w (NewNotifyRequest (reResolveURL env) server q) server of
                (Inl e, w) \<Rightarrow> (Inl e, w)
              | (Inr rsp, w) \<Rightarrow>
                  (case ParseNotifyResponse rsp of
                     Inl e \<Rightarrow> (Inl e, w)
                   | Inr json200 \<Rightarrow>
                       (case (rsStatus rsp \<noteq> 200, json200) of
                          (False, Some r) \<Rightarrow> (Inr (nrRef r), w)
                        | _ \<Rightarrow> (Inl (UnexpectedStatus (rsStatus rsp) (rsBody rsp)), w)))))"

definition remote_thread_reply :: "('w, 'e) remote_env \<Rightarrow> string \<Rightarrow> ('w, 'e remote_error) reply_method" where
  "remote_thread_reply env name w recipient ref text =
     (case Lookup (reNow env w) name (reRegistry env w) of
        None \<Rightarrow> (Some ErrBackendNotRegistered, w)
      | Some be \<Rightarrow>
          if \<not> rbSupportsThreadReply be then (Some ErrThreadReplyNotSupported, w)
          else (let server = client_server (rbBaseURL be);
                    q = \<lparr>tqRecipient = recipient, tqRef = ref, tqText = text\<rparr>
                in case exchange env w (NewThreadReplyRequest (reResolveURL env) server q) server of
                     (Inl e, w) \<Rightarrow> (Some e, w)
                   | (Inr rsp, w) \<Rightarrow>
                       if rsStatus rsp \<noteq> 204 then (Some (UnexpectedStatus (rsStatus rsp) (rsBody rsp)), w)
                       else (None, w)))"

text \<open>\<open>Resolver.Resolve\<close>: the methods of \<open>Backend\<close>; it has neither \<open>Post\<close> nor \<open>Update\<close>.\<close>

definition Resolve :: "('w, 'e) remote_env \<Rightarrow> 'w \<Rightarrow> string \<Rightarrow> ('w, 'e remote_error) backend_obj option" where
  "Resolve env w name =
     (case Lookup (reNow env w) name (reRegistry env w) of
        None \<Rightarrow> None
      | Some _ \<Rightarrow> Some \<lparr>boNotify = Some (remote_notify env name), boPost = None, boUpdate = None,
          boThreadReply = Some (remote_thread_reply env name)\<rparr>)"

section \<open>Properties\<close>

text \<open>What is relied on of \<open>net/url\<close>: resolving a dot-relative path against a base with a final slash.\<close>

definition resolves_dot :: "(string \<Rightarrow> string \<Rightarrow> string option) \<Rightarrow> string \<Rightarrow> bool" where
  "resolves_dot resolve base \<longleftrightarrow>
     (\<forall>path. path \<in> {''notify'', ''thread-reply''} \<longrightarrow> resolve (base @ ''/'') (''./'' @ path) = Some (base @ ''/'' @ path))"

lemma client_server_slash: "\<not> has_suffix base ''/'' \<Longrightarrow> client_server base = base @ ''/''"
  by (simp add: client_server_def)

text \<open>The contract of the method: one POST, and success exactly on a readable 200.\<close>

lemma remote_notify_request:
  assumes "Lookup (reNow env w) name (reRegistry env w) = Some be"
    and "\<not> has_suffix (rbBaseURL be) ''/''" and "resolves_dot (reResolveURL env) (rbBaseURL be)"
  shows "remote_notify env name w recipient ref n =
    (case reDo env w \<lparr>rqMethod = ''POST'', rqURL = rbBaseURL be @ ''/notify'',
            rqHeader = [(''Content-Type'', ''application/json'')],
            rqBody = json_text (notify_request_json
              \<lparr>nqNotification = toWireNotification n, nqRecipient = recipient, nqRef = ref\<rparr>)\<rparr> of
       (Inl e, w') \<Rightarrow> (Inl (TransportFailed e), w')
     | (Inr rsp, w') \<Rightarrow>
         (if rsStatus rsp \<noteq> 200 \<or> \<not> contains (rsContentType rsp) ''json''
          then Inl (UnexpectedStatus (rsStatus rsp) (rsBody rsp))
          else case Option.bind (json_unmarshal (rsBody rsp)) (\<lambda>j. decode_notify_result j \<lparr>nrRef = []\<rparr>) of
                 None \<Rightarrow> Inl (InvalidResponse (rsBody rsp)) | Some r \<Rightarrow> Inr (nrRef r), w'))"
proof -
  define q where "q = \<lparr>nqNotification = toWireNotification n, nqRecipient = recipient, nqRef = ref\<rparr>"
  define req where "req = \<lparr>rqMethod = ''POST'', rqURL = rbBaseURL be @ ''/notify'',
     rqHeader = [(''Content-Type'', ''application/json'')], rqBody = json_text (notify_request_json q)\<rparr>"
  have req: "NewNotifyRequest (reResolveURL env) (client_server (rbBaseURL be)) q = Some req"
    using assms(2,3)
    by (simp add: NewNotifyRequest_def new_json_request_def client_server_slash resolves_dot_def req_def)
  obtain res w' where res: "reDo env w req = (res, w')" by force
  show ?thesis
  proof (cases res)
    case (Inl e)
    with assms(1) res show ?thesis
      by (simp add: remote_notify_def exchange_def req flip: q_def req_def)
  next
    case (Inr rsp)
    have "remote_notify env name w recipient ref n =
        (case ParseNotifyResponse rsp of Inl e \<Rightarrow> (Inl e, w')
         | Inr json200 \<Rightarrow> (case (rsStatus rsp \<noteq> 200, json200) of
              (False, Some r) \<Rightarrow> (Inr (nrRef r), w')
            | _ \<Rightarrow> (Inl (UnexpectedStatus (rsStatus rsp) (rsBody rsp)), w')))"
      using assms(1) res Inr by (simp add: remote_notify_def exchange_def req flip: q_def)
    with res Inr show ?thesis
      by (cases "rsStatus rsp = 200"; cases "contains (rsContentType rsp) ''json''";
          cases "json_unmarshal (rsBody rsp)")
        (auto simp: ParseNotifyResponse_def simp flip: q_def req_def split: option.split)
  qed
qed

lemma remote_thread_reply_eq:
  assumes "Lookup (reNow env w) name (reRegistry env w) = Some be" and "rbSupportsThreadReply be"
    and "\<not> has_suffix (rbBaseURL be) ''/''" and "resolves_dot (reResolveURL env) (rbBaseURL be)"
  shows "remote_thread_reply env name w recipient ref msg =
    (case reDo env w \<lparr>rqMethod = ''POST'', rqURL = rbBaseURL be @ ''/thread-reply'',
            rqHeader = [(''Content-Type'', ''application/json'')],
            rqBody = json_text (thread_reply_request_json
              \<lparr>tqRecipient = recipient, tqRef = ref, tqText = msg\<rparr>)\<rparr> of
       (Inl e, w') \<Rightarrow> (Some (TransportFailed e), w')
     | (Inr rsp, w') \<Rightarrow>
         (if rsStatus rsp \<noteq> 204 then Some (UnexpectedStatus (rsStatus rsp) (rsBody rsp)) else None, w'))"
  using assms
  by (simp add: remote_thread_reply_def exchange_def NewThreadReplyRequest_def new_json_request_def
      client_server_slash resolves_dot_def split: prod.split sum.split)

text \<open>A backend that is not registered, or is stale at the time of the call, gets no request.\<close>

lemma remote_backend_guards:
  "Lookup (reNow env w) name (reRegistry env w) = None \<Longrightarrow>
     Resolve env w name = None \<and>
     remote_notify env name w recipient ref n = (Inl ErrBackendNotRegistered, w) \<and>
     remote_thread_reply env name w recipient ref text = (Some ErrBackendNotRegistered, w)"
  by (simp add: Resolve_def remote_notify_def remote_thread_reply_def)

text \<open>A thread reply to a backend that did not declare support fails without a request.\<close>

lemma thread_reply_needs_support:
  assumes "Lookup (reNow env w) name (reRegistry env w) = Some be" and "\<not> rbSupportsThreadReply be"
  shows "remote_thread_reply env name w recipient ref text = (Some ErrThreadReplyNotSupported, w)"
  using assms by (simp add: remote_thread_reply_def)

text \<open>The resolver hands out notifiers only, which is what the session store's guarantees ask for.\<close>

lemma Resolve_only_notifiers: "spResolve deps = Resolve env \<Longrightarrow> only_notifiers deps"
  by (auto simp: only_notifiers_def Resolve_def split: option.splits)


section \<open>A sample exchange\<close>

text \<open>A backend that answers every request with the reference "C|1"; the world counts requests.\<close>

definition sample_answer :: http_response where
  "sample_answer = \<lparr>rsStatus = 200, rsContentType = ''application/json'',
     rsBody = json_text (notify_result_json \<lparr>nrRef = ''C|1''\<rparr>)\<rparr>"

definition sample_env :: "(nat, string) remote_env" where
  "sample_env = \<lparr>reRegistry = (\<lambda>w. register_all 90 sample_regs), reNow = (\<lambda>w. 100),
     reDo = (\<lambda>w req. (Inr sample_answer, Suc w)), reResolveURL = (\<lambda>base path. Some (base @ drop 2 path))\<rparr>"

lemma sample_lookups:
  "Lookup 100 ''slack'' (register_all 90 sample_regs) =
     Some \<lparr>rbName = ''slack'', rbBaseURL = ''http://s'', rbSupportsThreadReply = True, rbLastSeen = 50\<rparr>"
  "Lookup 100 ''mail'' (register_all 90 sample_regs) =
     Some \<lparr>rbName = ''mail'', rbBaseURL = ''http://m'', rbSupportsThreadReply = False, rbLastSeen = 60\<rparr>"
  "Lookup 100 ''chat'' (register_all 90 sample_regs) = None"
  by code_simp+

lemma remote_notify_request_witness:
  "remote_notify sample_env ''slack'' 0 ''ops'' ''m1'' sample_note = (Inr ''C|1'', 1)"
proof -
  have "json_ok (notify_result_json \<lparr>nrRef = ''C|1''\<rparr>)" "json_depth (notify_result_json \<lparr>nrRef = ''C|1''\<rparr>) \<le> 1"
    by code_simp+
  then have "json_unmarshal (rsBody sample_answer) = Some (notify_result_json \<lparr>nrRef = ''C|1''\<rparr>)"
    by (simp add: sample_answer_def json_unmarshal_text max_depth_def)
  moreover have "contains (rsContentType sample_answer) ''json''" "\<not> has_suffix ''http://s'' ''/''" by code_simp+
  moreover have "rsStatus sample_answer = 200" by (simp add: sample_answer_def)
  ultimately show ?thesis
    using remote_notify_request [of sample_env 0 "''slack''" _ "''ops''" "''m1''" sample_note, OF _ _ _]
      sample_lookups(1)
    by (simp add: sample_env_def resolves_dot_def decode_notify_result_json)
qed

lemma remote_backend_guards_witness:
  "remote_notify sample_env ''chat'' 0 ''ops'' ''m1'' sample_note = (Inl ErrBackendNotRegistered, 0)"
  using remote_backend_guards [of sample_env 0 "''chat''"] sample_lookups(3) by (simp add: sample_env_def)

lemma thread_reply_needs_support_witness:
  "remote_thread_reply sample_env ''mail'' 0 ''ops'' ''m1'' ''again'' = (Some ErrThreadReplyNotSupported, 0)"
  using thread_reply_needs_support [of sample_env 0 "''mail''"] sample_lookups(2) by (simp add: sample_env_def)

end
