(* ===== verification/SlackRender.thy ===== *)
theory SlackRender
  imports Wire
begin

text \<open>
  Package \<open>internal/slack\<close>, files render.go, template.go and watcher.go: how a notification
  becomes the text and the attachments of a Slack message. Attachments are raw JSON text;
  \<open>None\<close> is a nil \<open>RawMessage\<close>.
\<close>

section \<open>The built-in renderer\<close>

record attachment =
  atColor :: string
  atBlocks :: "json list"

text \<open>A \<open>map[string]any\<close>: \<open>Marshal\<close> writes its keys in sorted order.\<close>

definition go_map :: "(string \<times> json) list \<Rightarrow> json" where
  "go_map kvs = JObj (sort_key fst kvs)"

definition attachment_json :: "attachment \<Rightarrow> json" where
  "attachment_json a = JObj [(''color'', JStr (atColor a)), (''blocks'', JArr (atBlocks a))]"

definition maxAttachments :: nat where
  "maxAttachments = 100"

definition mrkdwnText :: "string \<Rightarrow> json" where
  "mrkdwnText text = go_map [(''type'', JStr ''mrkdwn''), (''text'', JStr text)]"

definition mrkdwnField :: "string \<Rightarrow> string \<Rightarrow> json" where
  "mrkdwnField label val = mrkdwnText (''*'' @ label @ ''*'' @ [CHR 0x0A] @ val)"

definition fieldsAsMrkdwn :: "field list \<Rightarrow> json list" where
  "fieldsAsMrkdwn fs = map (\<lambda>f. mrkdwnField (fLabel f) (fValue f)) fs"

definition baseFields :: "item \<Rightarrow> json list" where
  "baseFields it = [mrkdwnField ''App'' (itAppName it), mrkdwnField ''Cluster'' (itCluster it)]"

definition openInArgoCDBlock :: "string \<Rightarrow> json" where
  "openInArgoCDBlock link = go_map
     [(''type'', JStr ''actions''),
      (''elements'', JArr [go_map
         [(''type'', JStr ''button''),
          (''text'', go_map [(''type'', JStr ''plain_text''), (''text'', JStr ''Open in ArgoCD'')]),
          (''url'', JStr link)]])]"

definition formatImages :: "string list \<Rightarrow> string" where
  "formatImages images = (if length images = 0 then ''none'' else join '', '' images)"

definition commitText :: "item \<Rightarrow> string" where
  "commitText it = (if itCommitURL it = [] then [CHR 0x60] @ itCommitSHA it @ [CHR 0x60]
     else ''<'' @ itCommitURL it @ ''|'' @ [CHR 0x60] @ itCommitSHA it @ [CHR 0x60] @ ''>'')"

text \<open>A section block with fields, and one with a text.\<close>

abbreviation section_fields :: "json list \<Rightarrow> json" where
  "section_fields fs \<equiv> go_map [(''type'', JStr ''section''), (''fields'', JArr fs)]"

abbreviation section_text :: "json \<Rightarrow> json" where
  "section_text t \<equiv> go_map [(''type'', JStr ''section''), (''text'', t)]"

definition renderCreated :: "item \<Rightarrow> attachment" where
  "renderCreated it = \<lparr>atColor = ''#2eb1f2'', atBlocks =
     [section_fields [mrkdwnField ''App'' (itAppName it), mrkdwnField ''Cluster'' (itCluster it)],
      openInArgoCDBlock (itLink it)]\<rparr>"

definition renderDeleted :: "item \<Rightarrow> attachment" where
  "renderDeleted it = \<lparr>atColor = ''#8a8a8a'', atBlocks =
     [section_fields [mrkdwnField ''App'' (itAppName it), mrkdwnField ''Cluster'' (itCluster it)]]\<rparr>"

definition renderDeployed :: "item \<Rightarrow> attachment" where
  "renderDeployed it = \<lparr>atColor = ''#18be52'', atBlocks =
     [section_fields [mrkdwnField ''App'' (itAppName it), mrkdwnField ''Cluster'' (itCluster it),
        mrkdwnField ''Commit'' (commitText it), mrkdwnField ''Triggered by'' (itTriggeredBy it),
        mrkdwnField ''Images'' (formatImages (itImages it))],
      openInArgoCDBlock (itLink it)]\<rparr>"

definition renderSyncFailed :: "item \<Rightarrow> attachment" where
  "renderSyncFailed it = \<lparr>atColor = ''#E96D76'', atBlocks =
     [section_fields (baseFields it @ fieldsAsMrkdwn (itFields it)),
      section_text (mrkdwnText (itDetailText it)),
      openInArgoCDBlock (itLink it)]\<rparr>"

definition renderHealthDegraded :: "item \<Rightarrow> attachment" where
  "renderHealthDegraded it = \<lparr>atColor = ''#f4c030'', atBlocks =
     [section_fields (baseFields it @ fieldsAsMrkdwn (itFields it)),
      openInArgoCDBlock (itLink it)]\<rparr>"

definition renderSyncRunning :: "item \<Rightarrow> attachment" where
  "renderSyncRunning it = \<lparr>atColor = ''#2496ed'', atBlocks =
     [section_fields [mrkdwnField ''App'' (itAppName it), mrkdwnField ''Cluster'' (itCluster it),
        mrkdwnField ''Commit'' (commitText it), mrkdwnField ''Triggered by'' (itTriggeredBy it)],
      openInArgoCDBlock (itLink it)]\<rparr>"

definition renderSyncStatusUnknown :: "item \<Rightarrow> attachment" where
  "renderSyncStatusUnknown it = \<lparr>atColor = ''#9b9b9b'', atBlocks =
     [section_fields (baseFields it @ fieldsAsMrkdwn (itFields it)),
      openInArgoCDBlock (itLink it)]\<rparr>"

definition renderSyncSucceeded :: "item \<Rightarrow> attachment" where
  "renderSyncSucceeded it = \<lparr>atColor = ''#2eb886'', atBlocks =
     [section_fields [mrkdwnField ''App'' (itAppName it), mrkdwnField ''Cluster'' (itCluster it),
        mrkdwnField ''Commit'' (commitText it)],
      openInArgoCDBlock (itLink it)]\<rparr>"

definition triggerRenderers :: "(string, item \<Rightarrow> attachment) gomap" where
  "triggerRenderers =
     [(''on-created'', renderCreated),
      (''on-deleted'', renderDeleted),
      (''on-deployed'', renderDeployed),
      (''on-health-degraded'', renderHealthDegraded),
      (''on-sync-failed'', renderSyncFailed),
      (''on-sync-running'', renderSyncRunning),
      (''on-sync-status-unknown'', renderSyncStatusUnknown),
      (''on-sync-succeeded'', renderSyncSucceeded)]"

definition moreAttachment :: "nat \<Rightarrow> attachment" where
  "moreAttachment overflow = \<lparr>atColor = ''#9b9b9b'', atBlocks =
     [section_text (mrkdwnText (''_+'' @ itoa overflow @ '' more_''))]\<rparr>"

fun render_items :: "item list \<Rightarrow> attachment list" where
  "render_items [] = []"
| "render_items (it # its) =
     (case map_of triggerRenderers (itTrigger it) of
        None \<Rightarrow> render_items its
      | Some render \<Rightarrow> render it # render_items its)"

definition renderNotification :: "notification \<Rightarrow> string \<times> attachment list" where
  "renderNotification n =
     (let attachments = render_items (nItems n);
          attachments = (if length attachments > maxAttachments
            then (let overflow = length attachments - (maxAttachments - 1)
                  in take (maxAttachments - 1) attachments @ [moreAttachment overflow])
            else attachments)
      in (nSummary n, attachments))"

type_synonym 'e render_result = "'e + (string \<times> string option)"

definition DefaultRenderer_Render :: "notification \<Rightarrow> 'e render_result" where
  "DefaultRenderer_Render n =
     (let (text, attachments) = renderNotification n
      in if length attachments = 0 then Inr (text, None)
         else Inr (text, Some (json_text (JArr (map attachment_json attachments)))))"

section \<open>Templates\<close>

text \<open>
  \<open>text/template\<close> with the Sprig functions is a parameter: parsing a source yields the two named
  blocks, each \<open>None\<close> where it is not defined, and a block renders a notification or fails.
\<close>

record 'e template =
  tpText :: "(notification \<Rightarrow> 'e + string) option"
  tpAttachments :: "(notification \<Rightarrow> 'e + string) option"

record 'e template_renderer =
  trText :: "notification \<Rightarrow> 'e + string"
  trAttachments :: "notification \<Rightarrow> 'e + string"

datatype 'e template_error =
    ParseTemplate 'e
  | MissingTextBlock
  | MissingAttachmentsBlock
  | ExecuteText 'e
  | ExecuteAttachments 'e
  | InvalidAttachments string

definition ParseTemplateRenderer :: "(string \<Rightarrow> 'e + 'e template) \<Rightarrow> string \<Rightarrow>
    'e template_error + 'e template_renderer" where
  "ParseTemplateRenderer parse src =
     (case parse src of
        Inl e \<Rightarrow> Inl (ParseTemplate e)
      | Inr t \<Rightarrow>
          (case tpText t of
             None \<Rightarrow> Inl MissingTextBlock
           | Some text \<Rightarrow>
               (case tpAttachments t of
                  None \<Rightarrow> Inl MissingAttachmentsBlock
                | Some attachments \<Rightarrow> Inr \<lparr>trText = text, trAttachments = attachments\<rparr>)))"

definition TemplateRenderer_Render :: "'e template_renderer \<Rightarrow> notification \<Rightarrow> 'e template_error render_result" where
  "TemplateRenderer_Render r n =
     (case trText r n of
        Inl e \<Rightarrow> Inl (ExecuteText e)
      | Inr text \<Rightarrow>
          (case trAttachments r n of
             Inl e \<Rightarrow> Inl (ExecuteAttachments e)
           | Inr out \<Rightarrow>
               (let trimmed = trim_space out
                in if length trimmed = 0 then Inr (text, None)
                   else if \<not> json_valid trimmed then Inl (InvalidAttachments trimmed)
                   else Inr (text, Some trimmed))))"

section \<open>The watcher\<close>

text \<open>
  The file system as seen by one \<open>Reload\<close>: the modification time from \<open>os.Stat\<close> and the
  contents from \<open>os.ReadFile\<close>, \<open>None\<close> where the call fails.
\<close>

record template_watcher =
  twFallback :: bool
  twModTime :: int

record 'e watcher = template_watcher +
  twCurrent :: "'e template_renderer option"

definition NewTemplateWatcher :: "bool \<Rightarrow> 'e watcher" where
  "NewTemplateWatcher fallbackToDefault = \<lparr>twFallback = fallbackToDefault, twModTime = 0, twCurrent = None\<rparr>"

definition Reload :: "(string \<Rightarrow> 'e + 'e template) \<Rightarrow> int option \<Rightarrow> string option \<Rightarrow> 'e watcher \<Rightarrow> 'e watcher" where
  "Reload parse stat contents w =
     (case stat of
        None \<Rightarrow> w
      | Some mtime \<Rightarrow>
          if twCurrent w \<noteq> None \<and> mtime = twModTime w then w
          else (case contents of
                  None \<Rightarrow> w
                | Some src \<Rightarrow>
                    (case ParseTemplateRenderer parse src of
                       Inl e \<Rightarrow> w
                     | Inr r \<Rightarrow> w\<lparr>twModTime := mtime, twCurrent := Some r\<rparr>)))"

definition TemplateWatcher_Render :: "'e watcher \<Rightarrow> notification \<Rightarrow> 'e template_error render_result" where
  "TemplateWatcher_Render w n =
     (case twCurrent w of
        None \<Rightarrow> DefaultRenderer_Render n
      | Some r \<Rightarrow>
          (case TemplateRenderer_Render r n of
             Inr out \<Rightarrow> Inr out
           | Inl e \<Rightarrow> if \<not> twFallback w then Inl e else DefaultRenderer_Render n))"

text \<open>\<open>Run\<close>: a reload at once, then one per tick, each with what the file system holds then.\<close>

definition watcher_run :: "(string \<Rightarrow> 'e + 'e template) \<Rightarrow> (int option \<times> string option) list \<Rightarrow> 'e watcher \<Rightarrow> 'e watcher" where
  "watcher_run parse ticks w = fold (\<lambda>(stat, contents). Reload parse stat contents) ticks w"

section \<open>Every item is accounted for\<close>

lemma triggerRenderers_known: "(map_of triggerRenderers t = None) \<longleftrightarrow> \<not> known_trigger t"
  by (simp add: map_of_eq_None_iff known_trigger_def triggerRenderers_def triggerBuilders_def)

lemma length_render_items: "length (render_items its) = length (filter (\<lambda>it. known_trigger (itTrigger it)) its)"
  by (induction its) (auto split: option.split simp flip: triggerRenderers_known)

text \<open>
  C35: A message has one attachment per item of a known trigger, in order, up to 100; beyond
  that the first 99 and one that says how many are left out, so no more than 100 are ever sent.
\<close>

theorem attachments_account_for_items:
  "let k = length (filter (\<lambda>it. known_trigger (itTrigger it)) (nItems n));
       as = snd (renderNotification n)
   in length as \<le> 100 \<and>
      (if k \<le> 100 then as = render_items (nItems n) \<and> length as = k
       else as = take 99 (render_items (nItems n)) @ [moreAttachment (k - 99)])"
  by (simp add: renderNotification_def maxAttachments_def length_render_items Let_def)

section \<open>Renderers produce valid JSON\<close>

text \<open>
  What the client relies on: attachments that are there are a valid JSON text, so that embedding
  them in a request cannot fail.
\<close>

locale renderer =
  fixes render :: "notification \<Rightarrow> 'e render_result"
  assumes attachments_valid: "render n = Inr (text, Some raw) \<Longrightarrow> json_valid raw"
begin

definition marshals :: "notification \<Rightarrow> bool" where
  "marshals n \<longleftrightarrow> (case render n of Inl e \<Rightarrow> True | Inr (text, None) \<Rightarrow> True
     | Inr (text, Some raw) \<Rightarrow> json_valid raw)"

lemma always_marshals: "marshals n"
  using attachments_valid by (auto simp: marshals_def split: sum.split option.split)

end

lemma go_map_plain: "json_plain (go_map kvs) \<longleftrightarrow> (\<forall>(k, v) \<in> set kvs. json_plain v)"
  by (auto simp: go_map_def list_all_iff)

lemma go_map_depth: "json_depth (go_map kvs) \<le> Suc d \<longleftrightarrow> (\<forall>(k, v) \<in> set kvs. json_depth v \<le> d)"
  unfolding go_map_def json_depth_JObj by simp

lemma blocks_plain:
  "json_plain (mrkdwnField l v)" "json_plain (mrkdwnText t)" "json_plain (openInArgoCDBlock link)"
  "list_all json_plain (baseFields it)" "list_all json_plain (fieldsAsMrkdwn fs)"
  by (auto simp: mrkdwnField_def mrkdwnText_def openInArgoCDBlock_def baseFields_def fieldsAsMrkdwn_def
      go_map_plain list_all_iff)

lemma blocks_depth:
  "json_depth (mrkdwnField l v) \<le> Suc 0" "json_depth (mrkdwnText t) \<le> Suc 0"
  "json_depth (openInArgoCDBlock link) \<le> Suc (Suc (Suc (Suc 0)))"
  "list_all (\<lambda>j. json_depth j \<le> Suc 0) (baseFields it)" "list_all (\<lambda>j. json_depth j \<le> Suc 0) (fieldsAsMrkdwn fs)"
  by (auto simp: mrkdwnField_def mrkdwnText_def openInArgoCDBlock_def baseFields_def fieldsAsMrkdwn_def
      go_map_depth json_depth_JArr list_all_iff simp del: json_depth.simps(1,2))


definition attachment_ok :: "attachment \<Rightarrow> bool" where
  "attachment_ok a \<longleftrightarrow> (\<forall>b \<in> set (atBlocks a). json_plain b \<and> json_depth b \<le> Suc (Suc (Suc (Suc 0))))"

lemma blocks_list_depth:
  "j \<in> set (baseFields it) \<Longrightarrow> json_depth j \<le> Suc 0" "j \<in> set (fieldsAsMrkdwn fs) \<Longrightarrow> json_depth j \<le> Suc 0"
  using blocks_depth(4,5) by (auto simp: list_all_iff)

lemma section_ok:
  "\<forall>f \<in> set fs. json_plain f \<and> json_depth f \<le> Suc 0 \<Longrightarrow>
     json_plain (section_fields fs) \<and> json_depth (section_fields fs) \<le> Suc (Suc (Suc (Suc 0)))"
  "json_plain (section_text (mrkdwnText t)) \<and> json_depth (section_text (mrkdwnText t)) \<le> Suc (Suc (Suc (Suc 0)))"
  using blocks_depth(2) [of t]
  by (auto simp: go_map_plain go_map_depth json_depth_JArr blocks_plain list_all_iff
      simp del: json_depth.simps(1,2))

lemma render_ok:
  assumes "map_of triggerRenderers t = Some render"
  shows "attachment_ok (render it)"
proof -
  have fields: "\<forall>f \<in> set (baseFields it @ fieldsAsMrkdwn (itFields it)). json_plain f \<and> json_depth f \<le> Suc 0"
    using blocks_plain(4,5) blocks_list_depth by (auto simp: list_all_iff)
  from assms have "(t, render) \<in> set triggerRenderers" by (rule map_of_SomeD)
  then show ?thesis
    unfolding triggerRenderers_def
    using section_ok(1) [OF fields] section_ok(2) blocks_plain(3) blocks_depth(3)
    by (auto simp: attachment_ok_def renderCreated_def renderDeleted_def renderDeployed_def
        renderSyncFailed_def renderHealthDegraded_def renderSyncRunning_def renderSyncStatusUnknown_def
        renderSyncSucceeded_def blocks_plain blocks_depth intro!: section_ok(1) [THEN conjunct1] section_ok(1) [THEN conjunct2])
qed

lemma renderNotification_ok: "a \<in> set (snd (renderNotification n)) \<Longrightarrow> attachment_ok a"
proof -
  have items: "a \<in> set (render_items its) \<Longrightarrow> attachment_ok a" for a its
    by (induction its) (auto intro: render_ok split: option.splits)
  have "attachment_ok (moreAttachment k)" for k
    using section_ok(2) by (simp add: attachment_ok_def moreAttachment_def)
  with items show "a \<in> set (snd (renderNotification n)) \<Longrightarrow> attachment_ok a"
    by (auto simp: renderNotification_def Let_def dest: in_set_takeD split: if_splits)
qed

lemma attachments_valid_json:
  assumes "\<forall>a \<in> set as. attachment_ok a"
  shows "json_valid (json_text (JArr (map attachment_json as)))"
proof (rule json_valid_text)
  show "json_plain (JArr (map attachment_json as))"
    using assms by (simp add: list_all_iff attachment_json_def attachment_ok_def)
  have "json_depth (JArr (map attachment_json as)) \<le> Suc (Suc (Suc (Suc (Suc (Suc (Suc 0))))))"
    using assms by (simp add: json_depth_JArr json_depth_JObj attachment_json_def attachment_ok_def
        del: json_depth.simps(1,2))
  then show "json_depth (JArr (map attachment_json as)) \<le> max_depth" by (simp add: max_depth_def)
qed

lemma default_valid: "DefaultRenderer_Render n = Inr (text, Some raw) \<Longrightarrow> json_valid raw"
proof -
  assume "DefaultRenderer_Render n = Inr (text, Some raw)"
  then have "raw = json_text (JArr (map attachment_json (snd (renderNotification n))))"
    by (simp add: DefaultRenderer_Render_def Let_def split_beta del: json_text.simps split: if_splits)
  with attachments_valid_json [of "snd (renderNotification n)"] renderNotification_ok
  show "json_valid raw" by blast
qed

lemma template_valid: "TemplateRenderer_Render r n = Inr (text, Some raw) \<Longrightarrow> json_valid raw"
  by (auto simp: TemplateRenderer_Render_def Let_def split: sum.splits if_splits)

interpretation default_renderer: renderer "DefaultRenderer_Render :: notification \<Rightarrow> 'e render_result"
  by unfold_locales (rule default_valid)

interpretation template_renderer: renderer "TemplateRenderer_Render r" for r
  by unfold_locales (rule template_valid)

interpretation watcher_renderer: renderer "TemplateWatcher_Render w" for w
  by unfold_locales
    (auto simp: TemplateWatcher_Render_def dest: default_valid template_valid split: option.splits sum.splits if_splits)

section \<open>The watcher keeps the last good template\<close>

text \<open>The renderer the latest readable and parseable file version defines, if any.\<close>

fun last_good :: "(string \<Rightarrow> 'e + 'e template) \<Rightarrow> (int option \<times> string option) list \<Rightarrow>
    'e template_renderer option \<Rightarrow> 'e template_renderer option" where
  "last_good parse [] cur = cur"
| "last_good parse ((Some mtime, Some src) # ticks) cur =
     last_good parse ticks (case ParseTemplateRenderer parse src of Inl e \<Rightarrow> cur | Inr r \<Rightarrow> Some r)"
| "last_good parse (tick # ticks) cur = last_good parse ticks cur"

text \<open>
  Files whose modification time determines what they hold: the watcher then misses no version,
  although it does not read a file again whose time has not changed.
\<close>

definition mtime_tells :: "(int option \<times> string option) list \<Rightarrow> bool" where
  "mtime_tells ticks \<longleftrightarrow> (\<forall>(m, c) \<in> set ticks. \<forall>(m', c') \<in> set ticks.
     m \<noteq> None \<longrightarrow> m = m' \<longrightarrow> c \<noteq> None \<longrightarrow> c' \<noteq> None \<longrightarrow> c = c')"


lemma watcher_run_Cons: "watcher_run parse ((stat, c) # ticks) w = watcher_run parse ticks (Reload parse stat c w)"
  by (simp add: watcher_run_def)

lemma watcher_run_last_good:
  assumes "mtime_tells (pre @ ticks)"
    and "\<And>r. twCurrent w = Some r \<Longrightarrow>
      \<exists>src. (Some (twModTime w), Some src) \<in> set pre \<and> ParseTemplateRenderer parse src = Inr r"
  shows "twCurrent (watcher_run parse ticks w) = last_good parse ticks (twCurrent w)"
  using assms
proof (induction ticks arbitrary: pre w)
  case Nil
  then show ?case by (simp add: watcher_run_def)
next
  case (Cons tick ticks)
  obtain stat c where tick: "tick = (stat, c)" by force
  let ?w = "Reload parse stat c w"
  have step: "twCurrent ?w = last_good parse [tick] (twCurrent w)"
  proof (cases "\<exists>m src. stat = Some m \<and> c = Some src \<and> twCurrent w \<noteq> None \<and> m = twModTime w")
    case True
    then obtain m src r where skip: "stat = Some m" "c = Some src" "twCurrent w = Some r" "m = twModTime w" by auto
    with Cons.prems(2) obtain src' where src': "(Some m, Some src') \<in> set pre" "ParseTemplateRenderer parse src' = Inr r"
      by blast
    with Cons.prems(1) skip tick have "src' = src" unfolding mtime_tells_def by fastforce
    with src' skip tick show ?thesis by (simp add: Reload_def)
  next
    case False
    then show ?thesis
      by (cases stat; cases c) (auto simp: tick Reload_def split: sum.split)
  qed
  have inv: "\<exists>src. (Some (twModTime ?w), Some src) \<in> set (pre @ [tick]) \<and> ParseTemplateRenderer parse src = Inr r"
    if "twCurrent ?w = Some r" for r
    using that Cons.prems(2) by (fastforce simp: tick Reload_def split: option.splits sum.splits if_splits)
  have "twCurrent (watcher_run parse ticks ?w) = last_good parse ticks (twCurrent ?w)"
    by (rule Cons.IH [of "pre @ [tick]"]) (use Cons.prems(1) inv in simp_all)
  also have "\<dots> = last_good parse (tick # ticks) (twCurrent w)"
    using step by (cases stat; cases c) (simp_all add: tick)
  finally show ?case by (simp add: tick watcher_run_Cons)
qed

text \<open>
  Where the modification time of the template file changes with its content, the watcher
  holds after any sequence of ticks the template of the latest version that could be read and
  parsed, although it skips unchanged files and bad versions.
\<close>

lemma watcher_holds_last_good:
  assumes "mtime_tells ticks"
  shows "twCurrent (watcher_run parse ticks (NewTemplateWatcher fallback)) = last_good parse ticks None"
  using watcher_run_last_good [of "[]" ticks "NewTemplateWatcher fallback" parse] assms
  by (simp add: NewTemplateWatcher_def)

text \<open>
  With the fallback switched on, or before a template was loaded, there is always a message,
  and its attachments are valid JSON.
\<close>

lemma render_never_fails:
  assumes "twFallback w \<or> twCurrent w = None"
  shows "\<exists>text raw. TemplateWatcher_Render w n = Inr (text, raw) \<and> (\<forall>r. raw = Some r \<longrightarrow> json_valid r)"
proof -
  have "\<exists>out. TemplateWatcher_Render w n = Inr out"
    using assms
    by (auto simp: TemplateWatcher_Render_def DefaultRenderer_Render_def Let_def
        split: option.split sum.split prod.split)
  then obtain t raw where out: "TemplateWatcher_Render w n = Inr (t, raw)" by auto
  then have "\<forall>r. raw = Some r \<longrightarrow> json_valid r" using watcher_renderer.attachments_valid by blast
  with out show ?thesis by blast
qed

section \<open>A sample template\<close>

text \<open>A parser that takes a source for the text block and knows no other syntax.\<close>

definition sample_parse :: "string \<Rightarrow> string + string template" where
  "sample_parse src = (if src = [] then Inl ''empty''
     else Inr \<lparr>tpText = Some (\<lambda>n. Inr src), tpAttachments = Some (\<lambda>n. Inr [])\<rparr>)"

definition sample_msg :: notification where
  "sample_msg = \<lparr>nSummary = ''g'', nItems = [buildDeployedItem deployed]\<rparr>"

lemma watcher_holds_last_good_witness:
  "map_option (\<lambda>r. trText r sample_msg) (twCurrent (watcher_run sample_parse
     [(Some 1, Some ''one''), (Some 2, Some []), (None, None), (Some 3, Some ''three'')] (NewTemplateWatcher False))) =
   Some (Inr ''three'')"
  using watcher_holds_last_good [of "[(Some 1, Some ''one''), (Some 2, Some []), (None, None), (Some 3, Some ''three'')]"
      sample_parse False]
  by (simp add: mtime_tells_def ParseTemplateRenderer_def sample_parse_def)

lemma render_never_fails_witness:
  "\<exists>text raw. TemplateWatcher_Render (NewTemplateWatcher False :: string watcher) sample_msg = Inr (text, raw)"
  using render_never_fails [of "NewTemplateWatcher False" sample_msg] by (auto simp: NewTemplateWatcher_def)

end
