(* ===== verification/SlackClient.thy ===== *)
theory SlackClient
  imports SlackRender RemoteBackend
begin

text \<open>
  Package \<open>internal/slack\<close>, file client.go: posting and editing messages through the Slack Web
  API, with retries. The environment gives the HTTP exchange and the wait between two attempts,
  which ends early when the context is cancelled. Durations are 64-bit words, as in the code.
\<close>

datatype ('e, 'r) slack_error =
    RenderFailed 'r
  | MarshalFailed
  | BuildRequestFailed
  | ExchangeFailed 'e
  | DecodeFailed
  | SlackAPIError string
  | ContextDone

record api_response =
  apOK :: bool
  apError :: string
  apTS :: string
  apChannel :: string

definition zero_api_response :: api_response where
  "zero_api_response = \<lparr>apOK = False, apError = [], apTS = [], apChannel = []\<rparr>"

definition decode_api_response :: "api_response field_decoder" where
  "decode_api_response = decode_struct
     [(''ok'', decode_field apOK (\<lambda>x. apOK_update (\<lambda>_. x)) decode_bool),
      (''error'', decode_field apError (\<lambda>x. apError_update (\<lambda>_. x)) decode_string),
      (''ts'', decode_field apTS (\<lambda>x. apTS_update (\<lambda>_. x)) decode_string),
      (''channel'', decode_field apChannel (\<lambda>x. apChannel_update (\<lambda>_. x)) decode_string)]"

text \<open>
  \<open>slWait d w\<close> is \<open>None\<close> when the time has passed, and the error of the context otherwise;
  \<open>slBuildable\<close> tells whether \<open>net/http\<close> accepts an address. The renderer is the one in place
  at the time of the call.
\<close>

record ('w, 'e, 'r) slack_client =
  slToken :: string
  slBaseURL :: string
  slMaxRetries :: int
  slRender :: "'w \<Rightarrow> notification \<Rightarrow> 'r render_result"
  slBuildable :: "string \<Rightarrow> bool"
  slDo :: "'w \<Rightarrow> http_request \<Rightarrow> ('e + http_response) \<times> 'w"
  slWait :: "64 word \<Rightarrow> 'w \<Rightarrow> bool \<times> 'w"

definition defaultBaseURL :: string where
  "defaultBaseURL = ''https://slack.com/api''"

definition WithBaseURL :: "string \<Rightarrow> ('w, 'e, 'r) slack_client \<Rightarrow> ('w, 'e, 'r) slack_client" where
  "WithBaseURL baseURL c = c\<lparr>slBaseURL := baseURL\<rparr>"

definition WithRenderer :: "('w \<Rightarrow> notification \<Rightarrow> 'r render_result) \<Rightarrow>
    ('w, 'e, 'r) slack_client \<Rightarrow> ('w, 'e, 'r) slack_client" where
  "WithRenderer render c = c\<lparr>slRender := render\<rparr>"

text \<open>
  The last three arguments stand for the HTTP client, whose timeout is part of what an exchange
  may answer, and the clock.
\<close>

definition NewClient :: "string \<Rightarrow> int \<Rightarrow> (('w, 'e, 'r) slack_client \<Rightarrow> ('w, 'e, 'r) slack_client) list \<Rightarrow>
    (string \<Rightarrow> bool) \<Rightarrow> ('w \<Rightarrow> http_request \<Rightarrow> ('e + http_response) \<times> 'w) \<Rightarrow> (64 word \<Rightarrow> 'w \<Rightarrow> bool \<times> 'w) \<Rightarrow>
    ('w, 'e, 'r) slack_client" where
  "NewClient token maxRetries opts buildable do wait =
     fold (\<lambda>opt c. opt c) opts
       \<lparr>slToken = token, slBaseURL = defaultBaseURL, slMaxRetries = maxRetries,
        slRender = (\<lambda>w n. DefaultRenderer_Render n), slBuildable = buildable, slDo = do, slWait = wait\<rparr>"

section \<open>References\<close>

definition encodeRef :: "string \<Rightarrow> string \<Rightarrow> string" where
  "encodeRef channel ts = channel @ ''|'' @ ts"

definition decodeRef :: "string \<Rightarrow> string \<Rightarrow> string \<times> string" where
  "decodeRef ref recipient = (case cut CHR ''|'' ref of None \<Rightarrow> (recipient, ref) | Some (channel, ts) \<Rightarrow> (channel, ts))"

section \<open>Requests\<close>

text \<open>
  A \<open>RawMessage\<close> is embedded compacted: without space outside strings, and with the characters
  \<open>Marshal\<close> escapes escaped. The first argument tells whether the position is inside a string.
\<close>

fun compact :: "bool \<Rightarrow> string \<Rightarrow> string" where
  "compact q [] = []"
| "compact q (c # s) =
     (if c = CHR ''<'' \<or> c = CHR ''>'' \<or> c = CHR ''&'' then escape_ascii c @ compact q s
      else if take 3 (c # s) = [CHR 0xE2, CHR 0x80, CHR 0xA8] then [CHR 0x5C] @ ''u2028'' @ compact q (drop 2 s)
      else if take 3 (c # s) = [CHR 0xE2, CHR 0x80, CHR 0xA9] then [CHR 0x5C] @ ''u2029'' @ compact q (drop 2 s)
      else if q then
        (if c = CHR 0x22 then c # compact False s
         else if c = CHR 0x5C then (case s of [] \<Rightarrow> [c] | d # s' \<Rightarrow> c # d # compact True s')
         else c # compact True s)
      else if c = CHR 0x22 then c # compact True s
      else if json_space c then compact False s
      else c # compact False s)"

text \<open>An object from texts of its members.\<close>

definition object_text :: "(string \<times> string) list \<Rightarrow> string" where
  "object_text kvs = ''{'' @ join '','' (map (\<lambda>(k, t). json_quote k @ '':'' @ t) kvs) @ ''}''"

text \<open>The \<open>omitempty\<close> of a raw value drops nil and the empty text alike.\<close>

definition raw_member :: "string option \<Rightarrow> (string \<times> string) list" where
  "raw_member attachments = (case attachments of None \<Rightarrow> []
     | Some raw \<Rightarrow> if raw = [] then [] else [(''attachments'', compact False raw)])"

definition raw_ok :: "string option \<Rightarrow> bool" where
  "raw_ok attachments = (case attachments of None \<Rightarrow> True | Some raw \<Rightarrow> raw = [] \<or> json_valid raw)"

text \<open>\<open>Marshal\<close> of the two request structs; it fails for a raw value that is not valid JSON.\<close>

definition postMessageRequest :: "string \<Rightarrow> string \<Rightarrow> string \<Rightarrow> string option \<Rightarrow> string option" where
  "postMessageRequest channel threadTS text attachments =
     (if \<not> raw_ok attachments then None
      else Some (object_text ([(''channel'', json_quote channel)] @
        (if threadTS = [] then [] else [(''thread_ts'', json_quote threadTS)]) @
        [(''text'', json_quote text)] @ raw_member attachments)))"

definition updateMessageRequest :: "string \<Rightarrow> string \<Rightarrow> string \<Rightarrow> string option \<Rightarrow> string option" where
  "updateMessageRequest channel ts text attachments =
     (if \<not> raw_ok attachments then None
      else Some (object_text ([(''channel'', json_quote channel), (''ts'', json_quote ts),
        (''text'', json_quote text)] @ raw_member attachments)))"

section \<open>The call\<close>

definition isRetryable :: "int \<Rightarrow> string \<Rightarrow> bool" where
  "isRetryable statusCode apiErr \<longleftrightarrow> statusCode = 429 \<or> statusCode \<ge> 500 \<or> apiErr = ''ratelimited''"

definition backoff :: "64 word \<Rightarrow> 64 word" where
  "backoff attempt =
     (let d = attempt * 200 * 1000000 in
      if sint d > sint (2 * 1000000000 :: 64 word) then 2 * 1000000000 else d)"

definition api_request :: "('w, 'e, 'r) slack_client \<Rightarrow> string \<Rightarrow> string \<Rightarrow> http_request" where
  "api_request c meth body = \<lparr>rqMethod = ''POST'', rqURL = slBaseURL c @ ''/'' @ meth,
     rqHeader = [(''Content-Type'', ''application/json; charset=utf-8''),
       (''Authorization'', ''Bearer '' @ slToken c)],
     rqBody = body\<rparr>"

text \<open>One attempt: a response, or an error and whether it may be retried.\<close>

definition attempt_call :: "('w, 'e, 'r) slack_client \<Rightarrow> string \<Rightarrow> string \<Rightarrow> 'w \<Rightarrow>
    (('e, 'r) slack_error \<times> bool + api_response) \<times> 'w" where
  "attempt_call c meth body w =
     (if \<not> slBuildable c (slBaseURL c @ ''/'' @ meth) then (Inl (BuildRequestFailed, False), w)
      else (case slDo c w (api_request c meth body) of
              (Inl e, w) \<Rightarrow> (Inl (ExchangeFailed e, True), w)
            | (Inr rsp, w) \<Rightarrow>
                (case Option.bind (json_decode (rsBody rsp)) (\<lambda>j. decode_api_response j zero_api_response) of
                   None \<Rightarrow> (Inl (DecodeFailed, True), w)
                 | Some out \<Rightarrow>
                     if apOK out then (Inr out, w)
                     else (Inl (SlackAPIError (apError out), isRetryable (rsStatus rsp) (apError out)), w))))"

text \<open>
  The loop of \<open>call\<close>, for the \<open>k\<close> attempts that remain, the next being number \<open>n\<close>. When no
  attempt remains the last error is returned, which is nil before the first attempt.
\<close>

fun call_loop :: "('w, 'e, 'r) slack_client \<Rightarrow> string \<Rightarrow> string \<Rightarrow> nat \<Rightarrow> nat \<Rightarrow>
    ('e, 'r) slack_error option \<Rightarrow> 'w \<Rightarrow> (('e, 'r) slack_error + api_response) \<times> 'w" where
  "call_loop c meth body 0 n lastErr w =
     (case lastErr of None \<Rightarrow> (Inr zero_api_response, w) | Some e \<Rightarrow> (Inl e, w))"
| "call_loop c meth body (Suc k) n lastErr w =
     (case (if n > 0 then slWait c (backoff (word_of_nat n)) w else (True, w)) of
        (False, w) \<Rightarrow> (Inl ContextDone, w)
      | (True, w) \<Rightarrow>
          (case attempt_call c meth body w of
             (Inr out, w) \<Rightarrow> (Inr out, w)
           | (Inl (e, retryable), w) \<Rightarrow>
               if \<not> retryable then (Inl e, w) else call_loop c meth body k (Suc n) (Some e) w))"

definition call :: "('w, 'e, 'r) slack_client \<Rightarrow> string \<Rightarrow> string option \<Rightarrow> 'w \<Rightarrow>
    (('e, 'r) slack_error + api_response) \<times> 'w" where
  "call c meth body w =
     (case body of None \<Rightarrow> (Inl MarshalFailed, w)
      | Some b \<Rightarrow> call_loop c meth b (nat (slMaxRetries c + 1)) 0 None w)"

section \<open>The backend methods\<close>

definition Post :: "('w, 'e, 'r) slack_client \<Rightarrow> ('w, ('e, 'r) slack_error) post_method" where
  "Post c w recipient n =
     (case slRender c w n of
        Inl e \<Rightarrow> (Inl (RenderFailed e), w)
      | Inr (text, attachments) \<Rightarrow>
          (case call c ''chat.postMessage'' (postMessageRequest recipient [] text attachments) w of
             (Inl e, w) \<Rightarrow> (Inl e, w)
           | (Inr out, w) \<Rightarrow> (Inr (encodeRef (apChannel out) (apTS out)), w)))"

definition as_error :: "('e + 'a) \<times> 'w \<Rightarrow> 'e option \<times> 'w" where
  "as_error r = (case r of (Inl e, w) \<Rightarrow> (Some e, w) | (Inr out, w) \<Rightarrow> (None, w))"

definition Update :: "('w, 'e, 'r) slack_client \<Rightarrow> ('w, ('e, 'r) slack_error) update_method" where
  "Update c w recipient ref n =
     (case slRender c w n of
        Inl e \<Rightarrow> (Some (RenderFailed e), w)
      | Inr (text, attachments) \<Rightarrow>
          (let (channel, ts) = decodeRef ref recipient
           in as_error (call c ''chat.update'' (updateMessageRequest channel ts text attachments) w)))"

definition PostThreadReply :: "('w, 'e, 'r) slack_client \<Rightarrow> ('w, ('e, 'r) slack_error) reply_method" where
  "PostThreadReply c w recipient ref text =
     (let (channel, ts) = decodeRef ref recipient
      in as_error (call c ''chat.postMessage'' (postMessageRequest channel ts text None) w))"

definition slack_backend :: "('w, 'e, 'r) slack_client \<Rightarrow> ('w, ('e, 'r) slack_error) backend_obj" where
  "slack_backend c = \<lparr>boNotify = None, boPost = Some (Post c), boUpdate = Some (Update c),
     boThreadReply = Some (PostThreadReply c)\<rparr>"

section \<open>Request texts\<close>

text \<open>
  The text of a value is not changed when it is compacted, so the attachments of the built-in
  renderer are a member of the request as they are.
\<close>

lemma compact_continuation:
  "list_all (byte_in 0x80 0xBF) r \<Longrightarrow> compact True (r @ t) = r @ compact True t"
proof (induction r)
  case (Cons c r)
  then have "c \<noteq> CHR ''<''" "c \<noteq> CHR ''>''" "c \<noteq> CHR ''&''" "c \<noteq> CHR 0x22" "c \<noteq> CHR 0x5C" "c \<noteq> CHR 0xE2"
    by (auto simp: byte_in_def)
  with Cons show ?case by simp
qed simp

lemma rune_continuation:
  "rune_len (a # s) = Suc (Suc k) \<Longrightarrow> list_all (byte_in 0x80 0xBF) (take (Suc k) s) \<and> (a = CHR 0xE2 \<longrightarrow> k = Suc 0)"
  by (auto simp: rune_len_def rune2_def rune3_def rune4_def byte_in_def split: list.splits if_splits)

lemma compact_wide:
  assumes "rune_len (a # s) = Suc (Suc k)"
  shows "compact True (escape_rune (a # take (Suc k) s) @ t) = escape_rune (a # take (Suc k) s) @ compact True t"
proof -
  let ?r = "take (Suc k) s"
  have a: "byte_in 0xC2 0xF4 a" and s: "s \<noteq> []" using rune_wide [OF assms] by auto
  from a have plain: "a \<noteq> CHR ''<''" "a \<noteq> CHR ''>''" "a \<noteq> CHR ''&''" "a \<noteq> CHR 0x22" "a \<noteq> CHR 0x5C"
    by (auto simp: byte_in_def)
  have r: "list_all (byte_in 0x80 0xBF) ?r" "a = CHR 0xE2 \<Longrightarrow> k = Suc 0"
    using rune_continuation [OF assms] by auto
  have rest: "compact True (?r @ t) = ?r @ compact True t" by (rule compact_continuation) (rule r(1))
  have "length (a # s) \<ge> Suc (Suc k)" using rune_len_le [of "a # s"] assms by simp
  then have len: "length ?r = Suc k" by simp
  show ?thesis
  proof (cases "a # ?r = [CHR 0xE2, CHR 0x80, CHR 0xA8] \<or> a # ?r = [CHR 0xE2, CHR 0x80, CHR 0xA9]")
    case True
    then show ?thesis by (auto simp: escape_rune_def)
  next
    case False
    have "take 3 (a # ?r @ t) \<noteq> [CHR 0xE2, CHR 0x80, c]" if "c = CHR 0xA8 \<or> c = CHR 0xA9" for c
      using False r(2) len that by (auto simp: numeral_3_eq_3)
    then have "compact True (a # ?r @ t) = a # compact True (?r @ t)" using plain by simp
    moreover have "escape_rune (a # ?r) = a # ?r" using False s by (simp add: escape_rune_def split: list.split)
    ultimately show ?thesis using rest by simp
  qed
qed

lemma compact_ascii:
  assumes "byte_in 0 0x7F c"
  shows "compact True (escape_ascii c @ t) = escape_ascii c @ compact True t"
proof -
  have hex: "hex_digit n \<notin> {CHR ''<'', CHR ''>'', CHR ''&'', CHR 0x22, CHR 0x5C, CHR 0xE2}" if "n < 16" for n
  proof -
    have "\<forall>n \<in> {0..<16}. hex_digit n \<notin> {CHR ''<'', CHR ''>'', CHR ''&'', CHR 0x22, CHR 0x5C, CHR 0xE2}" by code_simp
    with that show ?thesis by simp
  qed
  have "c \<noteq> CHR 0xE2" using assms by (auto simp: byte_in_def)
  moreover have "of_char c div 16 < (16 :: nat)" "of_char c mod 16 < (16 :: nat)"
    using assms by (auto simp: byte_in_def)
  ultimately show ?thesis using hex [of "of_char c div 16"] hex [of "of_char c mod 16"]
    by (simp add: escape_ascii_def)
qed

lemma compact_rune:
  assumes "rune_len s = k" and "0 < k"
  shows "compact True (escape_rune (take k s) @ t) = escape_rune (take k s) @ compact True t"
proof -
  obtain a s' where s: "s = a # s'" using assms by (cases s) (auto simp: rune_len_def)
  show ?thesis
  proof (cases "k = 1")
    case True
    with assms s have "byte_in 0 0x7F a" using rune_ascii [of a s'] by simp
    from compact_ascii [OF this] show ?thesis using True s by (simp add: escape_rune_def)
  next
    case False
    with assms(2) obtain l where "k = Suc (Suc l)" by (cases k; cases "k - 1") auto
    with compact_wide [of a s' l t] assms(1) s show ?thesis by simp
  qed
qed

lemma compact_string:
  "compact True (concat (map escape_rune (runes s)) @ t) = concat (map escape_rune (runes s)) @ compact True t"
proof (induction s rule: runes.induct)
  case (1 s)
  show ?case
  proof (cases "s = []")
    case False
    show ?thesis
    proof (cases "rune_len s = 0")
      case True
      with 1(1) False show ?thesis by (simp add: runes_Cons escape_rune_def)
    next
      case pos: False
      with 1(2) False compact_rune [OF refl, of s] show ?thesis by (simp add: runes_Cons)
    qed
  qed simp
qed

lemma compact_quote: "compact False (json_quote s @ t) = json_quote s @ compact False t"
  by (simp add: json_quote_def compact_string)

lemma compact_join:
  assumes "\<forall>x \<in> set xs. \<forall>t. compact False (x @ t) = x @ compact False t"
  shows "compact False (join '','' xs @ t) = join '','' xs @ compact False t"
  using assms
proof (induction xs)
  case (Cons x xs)
  then show ?case by (cases "xs = []") (auto simp: join_Cons json_space_def)
qed simp

lemma compact_text: "json_plain j \<Longrightarrow> compact False (json_text j @ t) = json_text j @ compact False t"
proof (induction j arbitrary: t)
  case (JArr js)
  then have "compact False (join '','' (map json_text js) @ CHR '']'' # t) =
      join '','' (map json_text js) @ compact False (CHR '']'' # t)"
    by (intro compact_join) (auto simp: list_all_iff)
  then show ?case by (simp add: json_space_def)
next
  case (JObj kvs)
  have "compact False (join '','' (map (\<lambda>(k, v). json_quote k @ '':'' @ json_text v) kvs) @ CHR ''}'' # t) =
      join '','' (map (\<lambda>(k, v). json_quote k @ '':'' @ json_text v) kvs) @ compact False (CHR ''}'' # t)"
    using JObj by (intro compact_join) (fastforce simp: list_all_iff compact_quote json_space_def)
  then show ?case by (simp add: json_space_def)
qed (auto simp: compact_quote json_space_def)

text \<open>The attachments member of a request for a notification.\<close>

definition attachments_member :: "notification \<Rightarrow> (string \<times> json) list" where
  "attachments_member n = (let as = snd (renderNotification n)
     in if as = [] then [] else [(''attachments'', JArr (map attachment_json as))])"

lemma object_text_json: "object_text (map (\<lambda>(k, j). (k, json_text j)) kvs) = json_text (JObj kvs)"
  by (simp add: object_text_def split_def comp_def)

lemma default_renders:
  obtains msg raw where "DefaultRenderer_Render n = Inr (msg, raw)"
  by (cases "snd (renderNotification n) = []") (simp_all add: DefaultRenderer_Render_def split_beta)

lemma default_attachments:
  "DefaultRenderer_Render n = Inr (msg, raw) \<Longrightarrow>
     msg = nSummary n \<and> raw_ok raw \<and> raw_member raw = map (\<lambda>(k, j). (k, json_text j)) (attachments_member n)"
proof -
  assume render: "DefaultRenderer_Render n = Inr (msg, raw)"
  let ?as = "snd (renderNotification n)"
  have "json_plain (JArr (map attachment_json ?as))"
    using renderNotification_ok [of _ n] by (auto simp: list_all_iff attachment_json_def attachment_ok_def)
  from compact_text [OF this, of "[]"] json_text_pos [OF this]
  have "compact False (json_text (JArr (map attachment_json ?as))) = json_text (JArr (map attachment_json ?as))"
    "json_text (JArr (map attachment_json ?as)) \<noteq> []" by auto
  moreover have "fst (renderNotification n) = nSummary n" by (simp add: renderNotification_def Let_def)
  ultimately show ?thesis
    using render default_valid [of n msg]
    by (auto simp: DefaultRenderer_Render_def Let_def split_beta raw_ok_def raw_member_def attachments_member_def
        simp del: json_text.simps split: if_splits)
qed

text \<open>
  C26: With the built-in renderer the bodies of chat.postMessage and chat.update are exactly
  the JSON text of an object with channel, thread or message timestamp, text and the
  attachments of the notification: compacting the raw attachments changes nothing, and
  marshalling never fails.
\<close>

theorem request_texts:
  "case (DefaultRenderer_Render n :: 'e render_result) of Inl e \<Rightarrow> False
   | Inr (msg, raw) \<Rightarrow>
       postMessageRequest channel ts msg raw = Some (json_text (JObj ([(''channel'', JStr channel)] @
         (if ts = [] then [] else [(''thread_ts'', JStr ts)]) @ [(''text'', JStr (nSummary n))] @
         attachments_member n))) \<and>
       updateMessageRequest channel ts msg raw = Some (json_text (JObj ([(''channel'', JStr channel),
         (''ts'', JStr ts), (''text'', JStr (nSummary n))] @ attachments_member n)))"
proof -
  obtain msg raw where render: "(DefaultRenderer_Render n :: 'e render_result) = Inr (msg, raw)"
    by (rule default_renders)
  note facts = default_attachments [OF render]
  show ?thesis
    unfolding render sum.case prod.case postMessageRequest_def updateMessageRequest_def object_text_json [symmetric]
    using facts by simp
qed

section \<open>References name the message that was posted\<close>

lemma decode_encode_ref: "CHR ''|'' \<notin> set channel \<Longrightarrow> decodeRef (encodeRef channel ts) recipient = (channel, ts)"
  by (simp add: decodeRef_def encodeRef_def cut_append)

text \<open>The reference of a post leads later calls to the channel and timestamp Slack answered with.\<close>

lemma update_edits_posted_message:
  assumes "Post c w recipient n = (Inr ref, w1)" and "slRender c w n = Inr (text, attachments)"
    and "call c ''chat.postMessage'' (postMessageRequest recipient [] text attachments) w = (Inr out, w1)"
    and "CHR ''|'' \<notin> set (apChannel out)"
    and "slRender c w2 n' = Inr (text', attachments')"
  shows "Update c w2 recipient' ref n' = as_error (call c ''chat.update''
      (updateMessageRequest (apChannel out) (apTS out) text' attachments') w2) \<and>
    PostThreadReply c w2 recipient' ref note = as_error (call c ''chat.postMessage''
      (postMessageRequest (apChannel out) (apTS out) note None) w2)"
proof -
  have "ref = encodeRef (apChannel out) (apTS out)" using assms(1-3) by (simp add: Post_def)
  with assms(4,5) show ?thesis by (simp add: Update_def PostThreadReply_def decode_encode_ref)
qed

section \<open>Retries\<close>

text \<open>\<open>n\<close> attempts in a row that failed and may be retried, with the waits between them.\<close>

inductive failed_attempts :: "('w, 'e, 'r) slack_client \<Rightarrow> string \<Rightarrow> string \<Rightarrow> 'w \<Rightarrow> nat \<Rightarrow>
    ('e, 'r) slack_error option \<Rightarrow> 'w \<Rightarrow> bool" for c meth body w0 where
  none: "failed_attempts c meth body w0 0 None w0"
| more: "failed_attempts c meth body w0 n e w \<Longrightarrow>
     (if n > 0 then slWait c (backoff (word_of_nat n)) w else (True, w)) = (True, w1) \<Longrightarrow>
     attempt_call c meth body w1 = (Inl (e', True), w2) \<Longrightarrow>
     failed_attempts c meth body w0 (Suc n) (Some e') w2"

text \<open>How a call may end after some failed attempts.\<close>

inductive call_ends :: "('w, 'e, 'r) slack_client \<Rightarrow> string \<Rightarrow> string \<Rightarrow> nat \<Rightarrow>
    'w \<Rightarrow> (('e, 'r) slack_error + api_response) \<times> 'w \<Rightarrow> bool" for c meth body where
  answered: "(if n > 0 then slWait c (backoff (word_of_nat n)) w else (True, w)) = (True, w1) \<Longrightarrow>
     attempt_call c meth body w1 = (Inr out, w2) \<Longrightarrow> call_ends c meth body n w (Inr out, w2)"
| rejected: "(if n > 0 then slWait c (backoff (word_of_nat n)) w else (True, w)) = (True, w1) \<Longrightarrow>
     attempt_call c meth body w1 = (Inl (e, False), w2) \<Longrightarrow> call_ends c meth body n w (Inl e, w2)"
| cancelled: "n > 0 \<Longrightarrow> slWait c (backoff (word_of_nat n)) w = (False, w1) \<Longrightarrow>
     call_ends c meth body n w (Inl ContextDone, w1)"

lemma call_loop_ends:
  assumes "failed_attempts c meth body w0 n lastErr w"
    and "call_loop c meth body k n lastErr w = r"
  shows "\<exists>n' e w'. failed_attempts c meth body w0 n' e w' \<and>
    ((n' = n + k \<and> r = (case e of None \<Rightarrow> (Inr zero_api_response, w') | Some e \<Rightarrow> (Inl e, w'))) \<or>
     (n' < n + k \<and> call_ends c meth body n' w' r))"
  using assms
proof (induction k arbitrary: n lastErr w)
  case 0
  then show ?case by auto
next
  case (Suc k)
  have ends: ?case if "call_ends c meth body n w r"
    using that Suc.prems(1) by (intro exI [of _ n] exI [of _ lastErr] exI [of _ w]) simp
  obtain ok w1 where wait: "(if n > 0 then slWait c (backoff (word_of_nat n)) w else (True, w)) = (ok, w1)"
    by force
  show ?case
  proof (cases ok)
    case False
    with wait have "n > 0" "slWait c (backoff (word_of_nat n)) w = (False, w1)" by (auto split: if_splits)
    moreover from this have "r = (Inl ContextDone, w1)" using Suc.prems(2) by auto
    ultimately show ?thesis by (metis ends cancelled)
  next
    case True
    obtain res w2 where res: "attempt_call c meth body w1 = (res, w2)" by force
    show ?thesis
    proof (cases res)
      case (Inr out)
      then have r: "r = (Inr out, w2)" using Suc.prems(2) wait True res by auto
      show ?thesis by (rule ends, unfold r, rule answered) (use wait True res Inr in auto)
    next
      case (Inl er)
      obtain e retryable where er: "er = (e, retryable)" by force
      show ?thesis
      proof (cases retryable)
        case False
        then have r: "r = (Inl e, w2)" using Suc.prems(2) wait True res Inl er by auto
        show ?thesis by (rule ends, unfold r, rule rejected) (use wait True res Inl er False in auto)
      next
        case retry: True
        have "failed_attempts c meth body w0 (Suc n) (Some e) w2"
        proof (rule more [OF Suc.prems(1)])
          show "(if n > 0 then slWait c (backoff (word_of_nat n)) w else (True, w)) = (True, w1)"
            using wait True by simp
          show "attempt_call c meth body w1 = (Inl (e, True), w2)" using res Inl er retry by simp
        qed
        moreover have "call_loop c meth body k (Suc n) (Some e) w2 = r"
          using Suc.prems(2) wait True res Inl er retry by auto
        ultimately have "\<exists>n' e' w'. failed_attempts c meth body w0 n' e' w' \<and>
            ((n' = Suc n + k \<and> r = (case e' of None \<Rightarrow> (Inr zero_api_response, w') | Some e \<Rightarrow> (Inl e, w'))) \<or>
             (n' < Suc n + k \<and> call_ends c meth body n' w' r))" by (rule Suc.IH)
        then show ?thesis by simp
      qed
    qed
  qed
qed

text \<open>
  C15: A call of the Slack client always ends: with an error and without an attempt if its body
  cannot be marshalled; with an empty answer, no error and no attempt if MaxRetries is
  negative; and otherwise after at most MaxRetries + 1 attempts, where all attempts before the
  last failed in a way that may be retried, with the backoff waited for in between, and the
  result is the first answer, the first error that may not be retried, the cancellation, or the
  error of the last attempt.
\<close>

theorem call_retries:
  "case body of None \<Rightarrow> call c meth body w0 = (Inl MarshalFailed, w0)
   | Some b \<Rightarrow>
      if slMaxRetries c < 0 then call c meth body w0 = (Inr zero_api_response, w0)
      else \<exists>n e w. failed_attempts c meth b w0 n e w \<and> int n \<le> slMaxRetries c + 1 \<and>
        (if int n = slMaxRetries c + 1 then \<exists>err. e = Some err \<and> call c meth body w0 = (Inl err, w)
         else call_ends c meth b n w (call c meth body w0))"
proof (cases body)
  case None
  then show ?thesis by (simp add: call_def)
next
  case (Some b)
  let ?k = "nat (slMaxRetries c + 1)" and ?r = "call c meth body w0"
  have loop: "call_loop c meth b ?k 0 None w0 = ?r" by (simp add: call_def Some)
  show ?thesis
  proof (cases "slMaxRetries c < 0")
    case True
    with loop Some show ?thesis by simp
  next
    case False
    from call_loop_ends [OF none loop] obtain n e w where
      n: "failed_attempts c meth b w0 n e w"
      "(n = ?k \<and> ?r = (case e of None \<Rightarrow> (Inr zero_api_response, w) | Some e \<Rightarrow> (Inl e, w))) \<or>
       (n < ?k \<and> call_ends c meth b n w ?r)" by auto
    have "e \<noteq> None" if "n > 0" using n(1) that by (cases rule: failed_attempts.cases) auto
    with n False have "int n \<le> slMaxRetries c + 1 \<and>
        (if int n = slMaxRetries c + 1 then \<exists>err. e = Some err \<and> ?r = (Inl err, w) else call_ends c meth b n w ?r)"
      by (auto split: option.splits)
    with n(1) have "\<exists>n e w. failed_attempts c meth b w0 n e w \<and> int n \<le> slMaxRetries c + 1 \<and>
        (if int n = slMaxRetries c + 1 then \<exists>err. e = Some err \<and> ?r = (Inl err, w) else call_ends c meth b n w ?r)"
      by blast
    with Some False show ?thesis by (simp only: option.case if_False)
  qed
qed

text \<open>With a negative limit no request is made, and a post is reported as a success.\<close>

lemma negative_retries_post_nothing:
  assumes "slMaxRetries c < 0" and "slRender c w n = Inr (text, attachments)"
    and "postMessageRequest recipient [] text attachments \<noteq> None"
  shows "Post c w recipient n = (Inr ''|'', w)"
  using assms by (auto simp: Post_def call_def encodeRef_def zero_api_response_def)

section \<open>A sample server\<close>

text \<open>A server that turns the first \<open>k\<close> requests away, and a clock that never ends early.\<close>

definition sample_yes :: json where
  "sample_yes = JObj [(''ok'', JBool True), (''ts'', JStr ''17''), (''channel'', JStr ''C'')]"

definition sample_no :: json where
  "sample_no = JObj [(''ok'', JBool False), (''error'', JStr ''ratelimited'')]"

definition sample_slack_api :: "nat \<Rightarrow> http_request \<Rightarrow> (unit + http_response) \<times> nat" where
  "sample_slack_api w req =
     (if w = 0 then (Inr \<lparr>rsStatus = 200, rsContentType = [], rsBody = json_text sample_yes\<rparr>, w)
      else (Inr \<lparr>rsStatus = 429, rsContentType = [], rsBody = json_text sample_no\<rparr>, w - 1))"

definition sample_slack_client :: "int \<Rightarrow> (nat, unit, 'r) slack_client" where
  "sample_slack_client maxRetries = NewClient ''token'' maxRetries [] (\<lambda>url. True) sample_slack_api (\<lambda>d w. (True, w))"

abbreviation sample_client :: "int \<Rightarrow> (nat, unit, unit) slack_client" where
  "sample_client \<equiv> sample_slack_client"

lemma sample_client_simps:
  "slMaxRetries (sample_slack_client k) = k"
  "slRender (sample_slack_client k) w n = DefaultRenderer_Render n"
  "slWait (sample_slack_client k) d w = (True, w)"
  by (simp_all add: sample_slack_client_def NewClient_def)

lemma sample_decoded:
  "json_decode (json_text sample_yes) = Some sample_yes" "json_decode (json_text sample_no) = Some sample_no"
  "decode_api_response sample_yes zero_api_response =
     Some \<lparr>apOK = True, apError = [], apTS = ''17'', apChannel = ''C''\<rparr>"
  "decode_api_response sample_no zero_api_response =
     Some \<lparr>apOK = False, apError = ''ratelimited'', apTS = [], apChannel = []\<rparr>"
proof -
  have "json_ok sample_yes" "json_ok sample_no" "json_depth sample_yes \<le> 1" "json_depth sample_no \<le> 1" by code_simp+
  then show "json_decode (json_text sample_yes) = Some sample_yes" "json_decode (json_text sample_no) = Some sample_no"
    using json_decode_text [of sample_yes "[]"] json_decode_text [of sample_no "[]"] by (simp_all add: max_depth_def)
qed code_simp+

lemma sample_attempt:
  "attempt_call (sample_slack_client k) m b 0 = (Inr \<lparr>apOK = True, apError = [], apTS = ''17'', apChannel = ''C''\<rparr>, 0)"
  "attempt_call (sample_slack_client k) m b (Suc w) = (Inl (SlackAPIError ''ratelimited'', True), w)"
  by (simp_all add: attempt_call_def sample_slack_client_def sample_slack_api_def NewClient_def sample_decoded isRetryable_def)

lemma sample_post:
  "Post (sample_slack_client 0 :: (nat, unit, 'r) slack_client) 0 recipient n = (Inr ''C|17'', 0)"
  "\<exists>msg raw. (DefaultRenderer_Render n :: 'r render_result) = Inr (msg, raw) \<and> raw_ok raw \<and>
     call (sample_slack_client 0 :: (nat, unit, 'r) slack_client) ''chat.postMessage'' (postMessageRequest recipient [] msg raw) 0 =
       (Inr \<lparr>apOK = True, apError = [], apTS = ''17'', apChannel = ''C''\<rparr>, 0)"
proof -
  obtain msg raw where render: "DefaultRenderer_Render n = (Inr (msg, raw) :: 'r render_result)"
    by (rule default_renders)
  then have ok: "raw_ok raw" using default_attachments by blast
  then have call: "call (sample_slack_client 0 :: (nat, unit, 'r) slack_client) ''chat.postMessage'' (postMessageRequest recipient [] msg raw) 0 =
       (Inr \<lparr>apOK = True, apError = [], apTS = ''17'', apChannel = ''C''\<rparr>, 0)"
    by (simp add: call_def postMessageRequest_def sample_client_simps sample_attempt)
  then show "Post (sample_slack_client 0 :: (nat, unit, 'r) slack_client) 0 recipient n = (Inr ''C|17'', 0)"
    by (simp add: Post_def sample_client_simps render encodeRef_def)
  show "\<exists>msg raw. (DefaultRenderer_Render n :: 'r render_result) = Inr (msg, raw) \<and> raw_ok raw \<and>
     call (sample_slack_client 0 :: (nat, unit, 'r) slack_client) ''chat.postMessage'' (postMessageRequest recipient [] msg raw) 0 =
       (Inr \<lparr>apOK = True, apError = [], apTS = ''17'', apChannel = ''C''\<rparr>, 0)"
    using render ok call by blast
qed

lemma update_edits_posted_message_witness:
  "\<exists>msg raw. DefaultRenderer_Render sample_msg = (Inr (msg, raw) :: unit render_result) \<and>
     Update (sample_client 0) 0 ''ops'' ''C|17'' sample_msg =
       as_error (call (sample_client 0) ''chat.update'' (updateMessageRequest ''C'' ''17'' msg raw) 0)"
proof -
  obtain msg raw where render: "DefaultRenderer_Render sample_msg = (Inr (msg, raw) :: unit render_result)"
    and call: "call (sample_client 0) ''chat.postMessage'' (postMessageRequest ''ops'' [] msg raw) 0 =
       (Inr \<lparr>apOK = True, apError = [], apTS = ''17'', apChannel = ''C''\<rparr>, 0)"
    using sample_post(2) by blast
  from update_edits_posted_message [OF sample_post(1) _ call, of sample_msg 0 sample_msg msg raw "''ops''"] render
  show ?thesis by (auto simp: sample_client_simps)
qed

lemma call_retries_witness:
  "\<exists>n e w. failed_attempts (sample_client 3) ''m'' ''b'' 2 n e w \<and> int n \<le> 4 \<and>
    (if int n = 4 then \<exists>err. e = Some err \<and> call (sample_client 3) ''m'' (Some ''b'') 2 = (Inl err, w)
     else call_ends (sample_client 3) ''m'' ''b'' n w (call (sample_client 3) ''m'' (Some ''b'') 2))"
  using call_retries [where c = "sample_client 3" and meth = "''m''" and body = "Some ''b''" and ?w0.0 = 2] by (simp add: sample_client_simps)

lemma negative_retries_post_nothing_witness: "Post (sample_client (- 1)) 0 ''ops'' sample_msg = (Inr ''|'', 0)"
proof -
  obtain msg raw where "DefaultRenderer_Render sample_msg = (Inr (msg, raw) :: unit render_result)" "raw_ok raw"
    using sample_post(2) by blast
  then show ?thesis
    by (intro negative_retries_post_nothing) (simp_all add: sample_client_simps postMessageRequest_def)
qed

section \<open>The waits\<close>

lemma sint_small_word: "n < 2 ^ 63 \<Longrightarrow> sint (word_of_nat n :: 64 word) = int n"
  by (simp add: signed_of_nat signed_take_bit_int_eq_self)

text \<open>The wait grows by 200 ms per retry up to 2 s, and the product does not wrap.\<close>

lemma backoff_bounds:
  assumes "n < 46000000000"
  shows "sint (backoff (word_of_nat n)) = min (200000000 * int n) 2000000000"
proof -
  have "word_of_nat n * 200 * 1000000 = (word_of_nat (n * 200000000) :: 64 word)" by simp
  moreover have "sint (word_of_nat (n * 200000000) :: 64 word) = int (n * 200000000)"
    by (rule sint_small_word) (use assms in simp)
  moreover have "sint (2000000000 :: 64 word) = 2000000000" by simp
  ultimately show ?thesis unfolding backoff_def Let_def by (simp add: mult.commute min_def)
qed

lemma backoff_bounds_witness: "sint (backoff (word_of_nat 3)) = 600000000"
  using backoff_bounds [of 3] by simp

end
