(* ===== verification/Httpx.thy ===== *)
theory Httpx
  imports Wire
begin

text \<open>
  Package \<open>internal/httpx\<close>, and what both servers use of \<open>net/http\<close>: a request multiplexer with
  exact paths. On the server side \<open>rqURL\<close> is the path of the request. A handler answers, or
  panics (\<open>None\<close>).
\<close>

type_synonym 'w handler_func = "http_request \<Rightarrow> 'w \<Rightarrow> http_response option \<times> 'w"

text \<open>A handler that only writes a status.\<close>

definition write_status :: "int \<Rightarrow> http_response" where
  "write_status code = \<lparr>rsStatus = code, rsContentType = [], rsBody = []\<rparr>"

section \<open>Middleware and probes\<close>

text \<open>A panic is answered like any other failure, and does not reach the server.\<close>

definition Middleware :: "'w handler_func \<Rightarrow> 'w handler_func" where
  "Middleware next req w =
     (case next req w of
        (None, w) \<Rightarrow> (Some (http_error ''internal error'' 500), w)
      | (Some rsp, w) \<Rightarrow> (Some rsp, w))"

definition HealthzHandler :: "'w handler_func" where
  "HealthzHandler req w = (Some (write_status 200), w)"

definition ReadyzHandler :: "('w \<Rightarrow> bool) option \<Rightarrow> 'w handler_func" where
  "ReadyzHandler ready req w =
     (if (case ready of None \<Rightarrow> True | Some f \<Rightarrow> f w) then (Some (write_status 200), w)
      else (Some (write_status 503), w))"

section \<open>The multiplexer\<close>

text \<open>
  \<open>http.ServeMux\<close> for a path that is clean already, as any other is redirected before a pattern is
  looked at: a pattern is a path, with or without a method; GET stands for HEAD too.
\<close>

type_synonym 'w route = "string option \<times> string \<times> 'w handler_func"

definition method_matches :: "string option \<Rightarrow> string \<Rightarrow> bool" where
  "method_matches pat m \<longleftrightarrow> (case pat of None \<Rightarrow> True
     | Some p \<Rightarrow> p = m \<or> (p = ''GET'' \<and> m = ''HEAD''))"

definition serve_mux :: "'w route list \<Rightarrow> 'w handler_func" where
  "serve_mux routes req w =
     (case find (\<lambda>(m, path, h). path = rqURL req \<and> method_matches m (rqMethod req)) routes of
        Some (m, path, h) \<Rightarrow> h req w
      | None \<Rightarrow>
          if rqURL req \<in> set (map (\<lambda>(m, path, h). path) routes)
          then (Some (http_error ''Method Not Allowed'' 405), w)
          else (Some (http_error ''404 page not found'' 404), w))"

lemma Middleware_answers: "\<exists>rsp. fst (Middleware next req w) = Some rsp"
  by (auto simp: Middleware_def split: prod.split option.split)

lemma Middleware_Some: "next req w = (Some rsp, w') \<Longrightarrow> Middleware next req w = (Some rsp, w')"
  by (simp add: Middleware_def)

end
