(* ===== verification/Utf8.thy ===== *)
theory Utf8
  imports Wire
begin

text \<open>
  Strings that come from outside are valid UTF-8: what the JSON reader yields, and what the
  program makes of such strings by concatenating, splitting and trimming them. Two functions of
  the program cut at a byte offset, and are the exception.
\<close>

section \<open>Valid strings\<close>

abbreviation continuation :: "char \<Rightarrow> bool" where
  "continuation \<equiv> byte_in 0x80 0xBF"

lemma utf8_valid_Nil [simp]: "utf8_valid []"
  by (simp add: utf8_valid_def)

lemma utf8_valid_step: "s \<noteq> [] \<Longrightarrow> utf8_valid s \<longleftrightarrow> 0 < rune_len s \<and> utf8_valid (drop (rune_len s) s)"
  by (auto simp: utf8_valid_def runes_Cons)

lemma rune_tail_continues:
  assumes "rune_len s = k" and "0 < i" and "i < k"
  shows "continuation (s ! i)"
proof -
  have "k \<le> 4" using assms(1) by (auto simp: rune_len_def rune2_def rune3_def rune4_def split: list.splits if_splits)
  with assms(2,3) consider "i = 1" | "i = 2" | "i = 3" by linarith
  then show ?thesis using assms(1,3)
    by cases (auto simp: rune_len_def rune2_def rune3_def rune4_def nth_Cons' split: list.splits if_splits)
qed

lemma rune_first_leads: "0 < rune_len (c # s) \<Longrightarrow> \<not> continuation c"
  by (auto simp: rune_len_def byte_in_def dest!: rune2_first rune3_first rune4_first split: list.splits if_splits)

lemma rune_len_take: "rune_len (a @ b) = k \<Longrightarrow> 0 < k \<Longrightarrow> k \<le> length a \<Longrightarrow> rune_len a = k"
  using rune_len_append [of "a @ b" k "drop k a"] by simp

lemma rune_len_more: "0 < rune_len a \<Longrightarrow> rune_len (a @ b) = rune_len a"
  using rune_len_append [of a "rune_len a" "drop (rune_len a) a @ b"] by (simp flip: append_assoc)

lemma utf8_valid_append: "utf8_valid a \<Longrightarrow> utf8_valid b \<Longrightarrow> utf8_valid (a @ b)"
proof (induction "length a" arbitrary: a rule: less_induct)
  case less
  show ?case
  proof (cases "a = []")
    case False
    let ?k = "rune_len a"
    from False less.prems(1) have k: "0 < ?k" "utf8_valid (drop ?k a)" "?k \<le> length a"
      by (simp_all add: utf8_valid_step rune_len_le)
    then have "utf8_valid (drop ?k a @ b)" using False less by simp
    with k False show ?thesis by (simp add: utf8_valid_step rune_len_more)
  qed (use less.prems in simp)
qed

text \<open>A valid string can be split before any byte that does not continue a rune.\<close>

lemma utf8_valid_split:
  "utf8_valid (a @ b) \<Longrightarrow> b = [] \<or> \<not> continuation (hd b) \<Longrightarrow> utf8_valid a \<and> utf8_valid b"
proof (induction "length a" arbitrary: a rule: less_induct)
  case less
  show ?case
  proof (cases "a = []")
    case False
    let ?k = "rune_len (a @ b)"
    from False less.prems(1) have k: "0 < ?k" "utf8_valid (drop ?k (a @ b))"
      using utf8_valid_step [of "a @ b"] by simp_all
    have le: "?k \<le> length a"
    proof (rule ccontr)
      assume long: "\<not> ?k \<le> length a"
      with rune_len_le [of "a @ b"] have "b \<noteq> []" by auto
      moreover have "continuation ((a @ b) ! length a)"
        using rune_tail_continues [OF refl, of "length a" "a @ b"] long False by simp
      ultimately show False using less.prems(2) by (simp add: hd_conv_nth nth_append)
    qed
    with k(2) have "utf8_valid (drop ?k a @ b)" by simp
    moreover have "length (drop ?k a) < length a" using k(1) False by simp
    ultimately have "utf8_valid (drop ?k a) \<and> utf8_valid b" using less.hyps less.prems(2) by blast
    moreover have "rune_len a = ?k" using rune_len_take [OF refl k(1) le] .
    ultimately show ?thesis using False k(1) utf8_valid_step [of a] by simp
  qed (use less.prems in simp)
qed

lemma utf8_valid_tail:
  assumes "utf8_valid (a @ b)" and "utf8_valid a"
  shows "utf8_valid b"
  using assms(2,1)
proof (induction "length a" arbitrary: a rule: less_induct)
  case less
  show ?case
  proof (cases "a = []")
    case False
    let ?k = "rune_len a"
    from False less.prems(1) have k: "0 < ?k" "utf8_valid (drop ?k a)" "?k \<le> length a"
      by (simp_all add: utf8_valid_step rune_len_le)
    with less.prems(2) False have "utf8_valid (drop ?k a @ b)" using utf8_valid_step [of "a @ b"] by (simp add: rune_len_more)
    with less.hyps [of "drop ?k a"] k False show ?thesis by simp
  qed (use less.prems in simp)
qed

lemma utf8_valid_ascii: "list_all (byte_in 0 0x7F) s \<Longrightarrow> utf8_valid s"
proof (induction s)
  case (Cons c s)
  then have "rune_len (c # s) = 1" by (simp add: rune_len_def)
  with Cons show ?case by (simp add: utf8_valid_step)
qed simp

lemma utf8_valid_Cons [simp]: "byte_in 0 0x7F c \<Longrightarrow> utf8_valid (c # s) \<longleftrightarrow> utf8_valid s"
  by (simp add: utf8_valid_step rune_len_def)

section \<open>What the JSON reader yields\<close>

lemma utf8_valid_rune:
  assumes "rune_len s = k" and "0 < k"
  shows "utf8_valid (take k s)"
proof -
  have "rune_len (take k s) = k" using rune_len_append [OF assms, of "[]"] by simp
  with assms rune_len_le [of s] show ?thesis by (cases "take k s = []") (simp_all add: utf8_valid_step)
qed

lemma byte_in_char_of: "n < 256 \<Longrightarrow> byte_in lo hi (char_of n) \<longleftrightarrow> lo \<le> n \<and> n \<le> hi"
  by (simp add: byte_in_def)

lemma char_of_eq: "n < 256 \<Longrightarrow> char_of n = CHR 0xE0 \<longleftrightarrow> n = 0xE0"
  "n < 256 \<Longrightarrow> char_of n = CHR 0xED \<longleftrightarrow> n = 0xED"
  "n < 256 \<Longrightarrow> char_of n = CHR 0xF0 \<longleftrightarrow> n = 0xF0"
  "n < 256 \<Longrightarrow> char_of n = CHR 0xF4 \<longleftrightarrow> n = 0xF4"
  for n :: nat
proof -
  have "char_of (224 :: nat) = CHR 0xE0" "char_of (237 :: nat) = CHR 0xED" "char_of (240 :: nat) = CHR 0xF0"
    "char_of (244 :: nat) = CHR 0xF4" by code_simp+
  then show "n < 256 \<Longrightarrow> char_of n = CHR 0xE0 \<longleftrightarrow> n = 0xE0" "n < 256 \<Longrightarrow> char_of n = CHR 0xED \<longleftrightarrow> n = 0xED"
    "n < 256 \<Longrightarrow> char_of n = CHR 0xF0 \<longleftrightarrow> n = 0xF0" "n < 256 \<Longrightarrow> char_of n = CHR 0xF4 \<longleftrightarrow> n = 0xF4"
    by (auto dest: arg_cong [where f = "of_char :: char \<Rightarrow> nat"])
qed

text \<open>The code points that are not surrogates.\<close>

lemma utf8_valid_encode:
  assumes "n < 0xD800 \<or> 0xDFFF < n" and "n < 0x110000"
  shows "utf8_valid (utf8_encode n)"
proof -
  consider "n < 0x80" | "0x80 \<le> n" "n < 0x800" | "0x800 \<le> n" "n < 0x10000" | "0x10000 \<le> n" by linarith
  then have "rune_len (utf8_encode n) = length (utf8_encode n) \<and> utf8_encode n \<noteq> []"
  proof cases
    case 1
    then show ?thesis by (simp add: utf8_encode_def rune_len_def byte_in_char_of)
  next
    case 2
    then have "n div 64 < 32" "2 \<le> n div 64" by auto
    with 2 show ?thesis by (simp add: utf8_encode_def rune_len_def rune2_def byte_in_char_of)
  next
    case 3
    then have "n div 4096 < 16" by auto
    moreover have "n div 4096 = 0 \<Longrightarrow> 32 \<le> n div 64 mod 64" using 3 by auto
    moreover have "n div 64 mod 64 < 32" if "n div 4096 = 13"
    proof -
      have n: "n < 55296" using that assms(1) by linarith
      have "n div 64 = 64 * (n div 4096) + n div 64 mod 64" using div_mult2_eq [of n 64 64] by simp
      with that n show ?thesis by linarith
    qed
    moreover have "n mod 64 < 64" "n div 64 mod 64 < 64" by simp_all
    ultimately have "rune_len (utf8_encode n) = 3"
      using 3 unfolding utf8_encode_def rune_len_def rune2_def rune3_def
      by (simp add: byte_in_char_of char_of_eq del: mod_less_divisor) linarith
    then show ?thesis using 3 by (simp add: utf8_encode_def)
  next
    case 4
    with assms(2) have "n div 262144 \<le> 4" by auto
    moreover have "n div 262144 = 0 \<Longrightarrow> 16 \<le> n div 4096 mod 64" using 4 by auto
    moreover have "n div 4096 mod 64 < 16" if "n div 262144 = 4"
    proof -
      have "n div 4096 = 64 * (n div 262144) + n div 4096 mod 64" using div_mult2_eq [of n 4096 64] by simp
      with that assms(2) show ?thesis by linarith
    qed
    moreover have "n mod 64 < 64" "n div 64 mod 64 < 64" "n div 4096 mod 64 < 64" by simp_all
    ultimately have "rune_len (utf8_encode n) = 4"
      using 4 unfolding utf8_encode_def rune_len_def rune2_def rune3_def rune4_def
      by (simp add: byte_in_char_of char_of_eq del: mod_less_divisor) linarith
    then show ?thesis using 4 by (simp add: utf8_encode_def)
  qed
  then show ?thesis by (simp add: utf8_valid_step)
qed


lemma utf8_valid_replacement [simp]: "utf8_valid replacement_char"
  by code_simp

lemma hex_value_bound: "hex_value c = Some n \<Longrightarrow> n < 16"
  by (auto simp: hex_value_def byte_in_def split: if_splits)

lemma hex4_bound: "hex4 s = Some (n, r) \<Longrightarrow> n < 0x10000"
  by (fastforce simp: hex4_def dest: hex_value_bound split: list.splits option.splits)

lemma surrogate_pair_bound: "(a :: nat) < 0xDC00 \<Longrightarrow> b < 0xE000 \<Longrightarrow> 0x10000 + (a - 0xD800) * 1024 + (b - 0xDC00) < 0x110000"
proof -
  assume "a < 0xDC00" "b < 0xE000"
  then have "a - 0xD800 \<le> 1023" "b - 0xDC00 \<le> 1023" by simp_all
  then show ?thesis by linarith
qed

lemma parse_unicode_utf8: "parse_unicode s = Some (t, r) \<Longrightarrow> utf8_valid t"
  using surrogate_pair_bound
  by (fastforce simp: parse_unicode_def intro!: utf8_valid_encode dest!: hex4_bound split: option.splits if_splits)

lemma parse_escape_utf8: "parse_escape s = Some (t, r) \<Longrightarrow> utf8_valid t"
  by (auto simp: parse_escape_def byte_in_def dest: parse_unicode_utf8 split: list.splits if_splits)

lemma parse_string_utf8: "parse_string s = Some (t, r) \<Longrightarrow> utf8_valid t"
proof (induction s arbitrary: t r rule: parse_string.induct)
  case (1 s)
  show ?case
  proof (cases s)
    case Nil
    with 1(4) show ?thesis by (simp add: parse_string.simps [of "[]"])
  next
    case (Cons c s')
    with 1(4) show ?thesis
      using 1(1-3) utf8_valid_rune [of s "rune_len s"] parse_escape_utf8
      by (auto simp: parse_string_Cons intro!: utf8_valid_append split: if_splits option.splits)
  qed
qed

fun json_utf8 :: "json \<Rightarrow> bool" where
  "json_utf8 (JStr s) = utf8_valid s"
| "json_utf8 (JArr js) = list_all json_utf8 js"
| "json_utf8 (JObj kvs) = list_all (\<lambda>(k, v). utf8_valid k \<and> json_utf8 v) kvs"
| "json_utf8 j = True"

lemma parse_value_utf8:
  "parse_value n d s = Some (j, r) \<Longrightarrow> json_utf8 j"
  "parse_elems n d s = Some (js, r) \<Longrightarrow> list_all json_utf8 js"
  "parse_members n d s = Some (kvs, r) \<Longrightarrow> list_all (\<lambda>(k, v). utf8_valid k \<and> json_utf8 v) kvs"
  by (induction n d s and n d s and n d s arbitrary: j r and js r and kvs r
      rule: parse_value_parse_elems_parse_members.induct)
    (auto simp: parse_literal_def simp flip: dropWhile_eq_Nil_conv dest!: parse_string_utf8
       split: list.splits option.splits if_splits)

lemma json_decode_utf8: "json_decode s = Some j \<Longrightarrow> json_utf8 j"
  by (auto simp: json_decode_def simp del: parse_value.simps dest: parse_value_utf8(1) split: option.splits)

lemma json_unmarshal_utf8: "json_unmarshal s = Some j \<Longrightarrow> json_utf8 j"
  by (auto simp: json_unmarshal_def simp del: parse_value.simps dest: parse_value_utf8(1) split: option.splits if_splits)

section \<open>Typed decoders\<close>

text \<open>A decoder that turns values of valid strings into values of a type.\<close>

definition yields :: "('a \<Rightarrow> bool) \<Rightarrow> 'a field_decoder \<Rightarrow> bool" where
  "yields P dec \<longleftrightarrow> (\<forall>j r r'. json_utf8 j \<longrightarrow> P r \<longrightarrow> dec j r = Some r' \<longrightarrow> P r')"

lemma yieldsD: "yields P dec \<Longrightarrow> json_utf8 j \<Longrightarrow> P r \<Longrightarrow> dec j r = Some r' \<Longrightarrow> P r'"
  by (auto simp: yields_def)

named_theorems decoder_types \<open>types of decoders\<close>

lemma yields_string [decoder_types]: "yields utf8_valid decode_string"
  by (auto simp: yields_def decode_string_def split: json.splits)

lemma decode_all_yields:
  "yields P dec \<Longrightarrow> P zero \<Longrightarrow> list_all json_utf8 js \<Longrightarrow> decode_all zero dec js = Some xs \<Longrightarrow> list_all P xs"
  by (induction js arbitrary: xs) (auto dest: yieldsD split: option.splits)

lemma yields_slice [decoder_types]: "yields P dec \<Longrightarrow> P zero \<Longrightarrow> yields (list_all P) (decode_slice zero dec)"
  unfolding yields_def [of "list_all P"]
  by (auto simp: decode_slice_def intro: decode_all_yields split: json.splits)

lemma yields_pointer [decoder_types]:
  "yields P dec \<Longrightarrow> P zero \<Longrightarrow> yields (pred_option P) (decode_pointer zero dec)"
  unfolding yields_def [of "pred_option P"]
  by (auto simp: decode_pointer_def dest: yieldsD split: json.splits option.splits)

definition labels_typed :: "(string, string) gomap \<Rightarrow> bool" where
  "labels_typed m \<longleftrightarrow> gwf m \<and> (\<forall>(k, v) \<in> set m. utf8_valid k \<and> utf8_valid v)"

lemma labels_typed_put: "labels_typed m \<Longrightarrow> utf8_valid k \<Longrightarrow> utf8_valid v \<Longrightarrow> labels_typed (gput k v m)"
  unfolding labels_typed_def by (auto simp: mem_gput split: if_splits)

lemma decode_entries_typed:
  "list_all (\<lambda>(k, v). utf8_valid k \<and> json_utf8 v) kvs \<Longrightarrow> labels_typed m \<Longrightarrow> decode_entries kvs m = Some m' \<Longrightarrow> labels_typed m'"
  by (induction kvs m rule: decode_entries.induct)
    (auto dest!: yieldsD [OF yields_string _ utf8_valid_Nil] intro: labels_typed_put split: option.splits)

lemma yields_string_map [decoder_types]: "yields labels_typed decode_string_map"
  by (auto simp: yields_def decode_string_map_def intro: decode_entries_typed split: json.splits)
    (simp add: labels_typed_def)

lemma yields_field:
  assumes "yields Q dec" and "\<And>r. P r \<Longrightarrow> Q (get r)" and "\<And>r x. P r \<Longrightarrow> Q x \<Longrightarrow> P (put x r)"
  shows "yields P (decode_field get put dec)"
  unfolding yields_def [of P] decode_field_def by (fastforce intro: assms(3) yieldsD [OF assms(1)] assms(2))

lemma decode_members_yields:
  "\<forall>(k, dec) \<in> set fds. yields P dec \<Longrightarrow> list_all (\<lambda>(k, v). utf8_valid k \<and> json_utf8 v) kvs \<Longrightarrow> P r \<Longrightarrow>
     decode_members fds kvs r = Some r' \<Longrightarrow> P r'"
proof (induction fds kvs r rule: decode_members.induct)
  case (2 fds k v kvs r)
  show ?case
  proof (cases "find (\<lambda>(name, dec). fold_key name = fold_key k) fds")
    case None
    with 2 show ?thesis by simp
  next
    case (Some f)
    obtain name dec where f: "f = (name, dec)" by force
    with Some have "(name, dec) \<in> set fds" by (metis find_Some_iff nth_mem)
    with 2(3) have "yields P dec" by auto
    with 2 Some f show ?thesis by (auto dest: yieldsD split: option.splits)
  qed
qed simp

lemma yields_struct: "\<forall>(k, dec) \<in> set fds. yields P dec \<Longrightarrow> yields P (decode_struct fds)"
  unfolding yields_def [of P "decode_struct fds"]
  by (auto simp: decode_struct_def intro: decode_members_yields split: json.splits)

text \<open>The type of an event.\<close>

definition event_typed :: "event \<Rightarrow> bool" where
  "event_typed ev \<longleftrightarrow> list_all utf8_valid
     [evGroupKey ev, evAppName ev, evTrigger ev, evRevision ev, evRecipient ev, evBackend ev, evTarget ev,
      evHealthStatus ev, evSyncPhase ev, evSyncStatus ev, evOperationMsg ev, evRepoURL ev, evInitiatedBy ev,
      evArgoCDURL ev, evTargetRevision ev] \<and>
     list_all utf8_valid (evImages ev) \<and> labels_typed (evLabels ev)"

lemma yields_event: "yields event_typed decode_event"
  unfolding decode_event_def
  by (rule yields_struct)
    (auto simp: event_typed_def intro!: yields_field decoder_types)

lemma zero_event_typed: "event_typed zero_event"
  by (simp add: event_typed_def zero_event_def labels_typed_def)

lemma decode_body_yields: "yields P dec \<Longrightarrow> P zero \<Longrightarrow> decode_body dec zero body = Some r \<Longrightarrow> P r"
  by (auto simp: decode_body_def dest: json_decode_utf8 yieldsD split: option.splits)

text \<open>The requests and answers between the programs.\<close>

lemma yields_notify_result: "yields (\<lambda>r. utf8_valid (nrRef r)) decode_notify_result"
  unfolding decode_notify_result_def
  by (rule yields_struct) (auto intro!: yields_field decoder_types)

end
