(* ===== verification/Marshal.thy ===== *)
theory Marshal
  imports Utf8
begin

text \<open>
  What \<open>json.Marshal\<close> and \<open>json.Decoder\<close> together make of the texts of a message: bytes that are
  no UTF-8 arrive as U+FFFD, valid text arrives as it was sent. A message is therefore received
  with all of its texts cleaned, whatever they hold.
\<close>

section \<open>Cleaned texts\<close>

lemma clean_string_typed [simp]: "utf8_valid (clean_string s)"
  by (rule parse_string_utf8 [OF parse_quoted])

lemma clean_string_idem [simp]: "clean_string (clean_string s) = clean_string s"
  by (rule clean_string_valid) simp

lemma clean_string_empty [simp]: "clean_string s = [] \<longleftrightarrow> s = []"
proof
  assume "clean_string s = []"
  then show "s = []" by (cases s) (auto simp: clean_string_def runes_Cons replacement_char_def split: if_splits)
qed (simp add: clean_string_def)

definition clean_field :: "field \<Rightarrow> field" where
  "clean_field f = \<lparr>fLabel = clean_string (fLabel f), fValue = clean_string (fValue f)\<rparr>"

definition clean_item :: "item \<Rightarrow> item" where
  "clean_item it = \<lparr>itAppName = clean_string (itAppName it), itCluster = clean_string (itCluster it),
     itTrigger = clean_string (itTrigger it), itCommitURL = clean_string (itCommitURL it),
     itCommitSHA = clean_string (itCommitSHA it), itTargetRevision = clean_string (itTargetRevision it),
     itTriggeredBy = clean_string (itTriggeredBy it), itImages = map clean_string (itImages it),
     itFields = map clean_field (itFields it), itDetailText = clean_string (itDetailText it),
     itLink = clean_string (itLink it)\<rparr>"

definition clean_notification :: "notification \<Rightarrow> notification" where
  "clean_notification n = \<lparr>nSummary = clean_string (nSummary n), nItems = map clean_item (nItems n)\<rparr>"

lemma clean_field_valid: "utf8_valid (fLabel f) \<Longrightarrow> utf8_valid (fValue f) \<Longrightarrow> clean_field f = f"
  by (simp add: clean_field_def clean_string_valid)

lemma clean_item_valid: "item_utf8 it \<Longrightarrow> clean_item it = it"
  by (cases it) (auto simp: clean_item_def item_utf8_def list_all_iff clean_string_valid intro!: map_idI clean_field_valid)

lemma clean_notification_valid: "notification_utf8 n \<Longrightarrow> clean_notification n = n"
  by (cases n) (auto simp: clean_notification_def notification_utf8_def list_all_iff clean_string_valid clean_item_valid
      intro!: map_idI)

section \<open>Cleaned values\<close>

abbreviation clean_members :: "(string \<times> json) list \<Rightarrow> (string \<times> json) list" where
  "clean_members \<equiv> map (\<lambda>(k, v). (clean_string k, clean v))"

lemma clean_opt_member:
  "utf8_valid k \<Longrightarrow> (\<And>x. clean (enc x) = enc (f x)) \<Longrightarrow> clean_members (opt_member k enc p) = opt_member k enc (map_option f p)"
  by (cases p) (simp_all add: opt_member_def clean_string_valid)

lemma non_empty_clean: "non_empty (clean_string s) = map_option clean_string (non_empty s)"
  by (simp add: non_empty_def)

lemma non_empty_map: "non_empty (map f xs) = map_option (map f) (non_empty xs)"
  by (simp add: non_empty_def)

lemma clean_strings_json: "clean (strings_json ss) = strings_json (map clean_string ss)"
  by (simp add: strings_json_def)

definition clean_wire_field :: "wire_field \<Rightarrow> wire_field" where
  "clean_wire_field f = \<lparr>wfLabel = clean_string (wfLabel f), wfValue = clean_string (wfValue f)\<rparr>"

lemma clean_fields_json: "clean (JArr (map wire_field_json fs)) = JArr (map wire_field_json (map clean_wire_field fs))"
  by (simp add: wire_field_json_def clean_wire_field_def clean_string_valid utf8_name)

lemma clean_wire_item: "clean (wire_item_json (toWireItem it)) = wire_item_json (toWireItem (clean_item it))"
proof -
  have "map_option (map clean_wire_field) (wiFields (toWireItem it)) = wiFields (toWireItem (clean_item it))"
    by (simp add: toWireItem_def clean_item_def clean_wire_field_def clean_field_def)
  then have fields: "clean_members (opt_member ''fields'' (\<lambda>fs. JArr (map wire_field_json fs)) (wiFields (toWireItem it))) =
      opt_member ''fields'' (\<lambda>fs. JArr (map wire_field_json fs)) (wiFields (toWireItem (clean_item it)))"
    using clean_opt_member [of "''fields''" "\<lambda>fs. JArr (map wire_field_json fs)" "map clean_wire_field"] clean_fields_json utf8_name
    by simp
  have texts: "clean_members (opt_member k JStr p) = opt_member k JStr (map_option clean_string p)" if "utf8_valid k" for k p
    by (rule clean_opt_member [OF that]) simp
  have images: "clean_members (opt_member ''images'' strings_json p) = opt_member ''images'' strings_json (map_option (map clean_string) p)" for p
    by (rule clean_opt_member) (simp_all add: clean_strings_json utf8_name)
  show ?thesis
    by (simp add: wire_item_json_def fields texts images utf8_name clean_string_valid)
      (simp add: toWireItem_def clean_item_def non_empty_clean non_empty_map)
qed

lemma clean_notify_request:
  "clean (notify_request_json \<lparr>nqNotification = toWireNotification n, nqRecipient = recipient, nqRef = ref\<rparr>) =
     notify_request_json \<lparr>nqNotification = toWireNotification (clean_notification n), nqRecipient = clean_string recipient,
       nqRef = clean_string ref\<rparr>"
  by (simp add: notify_request_json_def wire_notification_json_def toWireNotification_def clean_notification_def
      clean_wire_item clean_string_valid utf8_name)

lemma plain_opt_member:
  "list_all (\<lambda>(k, v). json_plain v) (opt_member k enc p) \<longleftrightarrow> (\<forall>x. p = Some x \<longrightarrow> json_plain (enc x))"
  by (cases p) (simp_all add: opt_member_def)

lemma plain_wire_item: "json_plain (wire_item_json w)"
  by (simp add: wire_item_json_def plain_opt_member strings_json_def wire_field_json_def)
    (simp add: list_all_iff wire_field_json_def)

lemma notify_request_plain:
  "json_plain (notify_request_json q)" "json_depth (notify_request_json q) \<le> max_depth"
proof -
  show "json_plain (notify_request_json q)"
    by (simp add: notify_request_json_def wire_notification_json_def plain_wire_item list_all_iff)
  have "json_depth (notify_request_json q) \<le> Suc (Suc (Suc (Suc (Suc (Suc 0)))))"
    unfolding notify_request_json_def wire_notification_json_def
    by (simp add: json_depth_JObj json_depth_JArr wire_item_depth del: json_depth.simps(1,2))
  then show "json_depth (notify_request_json q) \<le> max_depth" by (simp add: max_depth_def)
qed

lemma decode_body_clean:
  assumes "json_plain j" and "json_depth j \<le> max_depth" and "length (json_text j) \<le> maxBodyBytes"
  shows "decode_body dec zero (json_text j) = dec (clean j) zero"
  using parse_text [OF assms(1,2), of "[]"] assms(3) by (simp add: decode_body_def json_decode_def)

text \<open>What a backend reads of the request the core sends for a message.\<close>

lemma notify_body_clean:
  assumes "length (json_text (notify_request_json
      \<lparr>nqNotification = toWireNotification n, nqRecipient = recipient, nqRef = ref\<rparr>)) \<le> maxBodyBytes"
  shows "decode_body decode_notify_request zero_notify_request (json_text (notify_request_json
      \<lparr>nqNotification = toWireNotification n, nqRecipient = recipient, nqRef = ref\<rparr>)) =
    Some \<lparr>nqNotification = toWireNotification (clean_notification n), nqRecipient = clean_string recipient,
      nqRef = clean_string ref\<rparr>"
  by (simp add: decode_body_clean [OF notify_request_plain assms] clean_notify_request decode_notify_request_json)

end
