(* ===== verification/SlackBackend.thy ===== *)
theory SlackBackend
  imports SlackClient Httpx Marshal
begin

text \<open>
  Package \<open>internal/slackbackend\<close> and \<open>cmd/slack-backend\<close>: the backend process. Its handlers
  answer the requests of the core, and its registrar keeps the registration at the core alive.
\<close>

section \<open>The handlers\<close>

text \<open>The backend of a handler: it can post, and may be able to edit and to reply in a thread.\<close>

record ('w, 'e) backend_handler =
  hdPost :: "('w, 'e) post_method"
  hdUpdate :: "('w, 'e) update_method option"
  hdThreadReply :: "('w, 'e) reply_method option"

text \<open>\<open>NewHandler\<close> on the Slack client.\<close>

definition slack_handler :: "('w, 'e, 'r) slack_client \<Rightarrow> ('w, ('e, 'r) slack_error) backend_handler" where
  "slack_handler c = \<lparr>hdPost = Post c, hdUpdate = Some (Update c), hdThreadReply = Some (PostThreadReply c)\<rparr>"

text \<open>\<open>Encoder.Encode\<close> ends the value with a newline.\<close>

definition respondNotifyResult :: "string \<Rightarrow> http_response" where
  "respondNotifyResult ref = \<lparr>rsStatus = 200, rsContentType = ''application/json'',
     rsBody = json_text (notify_result_json \<lparr>nrRef = ref\<rparr>) @ [CHR 0x0A]\<rparr>"

definition handler_post :: "('w, 'e) backend_handler \<Rightarrow> string \<Rightarrow> notification \<Rightarrow> 'w \<Rightarrow> http_response \<times> 'w" where
  "handler_post h recipient n w =
     (case hdPost h w recipient n of
        (Inl e, w) \<Rightarrow> (http_error ''post failed'' 500, w)
      | (Inr newRef, w) \<Rightarrow> (respondNotifyResult newRef, w))"

definition Handler_Notify :: "(string \<Rightarrow> string) \<Rightarrow> ('w, 'e) backend_handler \<Rightarrow> string \<Rightarrow> 'w \<Rightarrow> http_response \<times> 'w" where
  "Handler_Notify decode_error h body w =
     (case decode_body decode_notify_request zero_notify_request body of
        None \<Rightarrow> (http_error (''invalid payload: '' @ decode_error body) 400, w)
      | Some req \<Rightarrow>
          (let n = fromWireNotification (nqNotification req);
               ref = nqRef req
           in if ref \<noteq> [] then
                (case hdUpdate h of
                   Some update \<Rightarrow>
                     (case update w (nqRecipient req) ref n of
                        (Some e, w) \<Rightarrow> (http_error ''update failed'' 500, w)
                      | (None, w) \<Rightarrow> (respondNotifyResult ref, w))
                 | None \<Rightarrow> handler_post h (nqRecipient req) n w)
              else handler_post h (nqRecipient req) n w))"

definition Handler_ThreadReply :: "(string \<Rightarrow> string) \<Rightarrow> ('w, 'e) backend_handler \<Rightarrow> string \<Rightarrow> 'w \<Rightarrow> http_response \<times> 'w" where
  "Handler_ThreadReply decode_error h body w =
     (case decode_body decode_thread_reply_request zero_thread_reply_request body of
        None \<Rightarrow> (http_error (''invalid payload: '' @ decode_error body) 400, w)
      | Some req \<Rightarrow>
          (case hdThreadReply h of
             None \<Rightarrow> (http_error ''ThreadReplyNotSupported'' 500, w)
           | Some reply \<Rightarrow>
               (case reply w (tqRecipient req) (tqRef req) (tqText req) of
                  (Some e, w) \<Rightarrow> (http_error ''thread reply failed'' 500, w)
                | (None, w) \<Rightarrow> (no_content, w))))"

section \<open>The server\<close>

text \<open>The generated router of \<open>api/backendapi\<close>, added to the probes of \<open>main\<close>.\<close>

definition backendapi_routes :: "string \<Rightarrow> (string \<Rightarrow> 'w \<Rightarrow> http_response \<times> 'w) \<Rightarrow>
    (string \<Rightarrow> 'w \<Rightarrow> http_response \<times> 'w) \<Rightarrow> 'w route list" where
  "backendapi_routes baseURL notify reply =
     [(Some ''POST'', baseURL @ ''/notify'', \<lambda>req w. apfst Some (notify (rqBody req) w)),
      (Some ''POST'', baseURL @ ''/thread-reply'', \<lambda>req w. apfst Some (reply (rqBody req) w))]"

definition backend_server :: "(string \<Rightarrow> string) \<Rightarrow> ('w, 'e) backend_handler \<Rightarrow> ('w \<Rightarrow> bool) \<Rightarrow> 'w handler_func" where
  "backend_server decode_error h hasRegistered =
     Middleware (serve_mux
       ([(None, ''/healthz'', HealthzHandler), (None, ''/readyz'', ReadyzHandler (Some hasRegistered))] @
        backendapi_routes [] (Handler_Notify decode_error h) (Handler_ThreadReply decode_error h)))"

section \<open>The registrar\<close>

text \<open>
  The client of the core: the same generated code as the one of the backends, with the paths of
  the core. The environment is the HTTP exchange and \<open>net/url\<close>.
\<close>

definition NewRegisterBackendRequest :: "(string \<Rightarrow> string \<Rightarrow> string option) \<Rightarrow> string \<Rightarrow> register_request \<Rightarrow>
    http_request option" where
  "NewRegisterBackendRequest resolve server q =
     new_json_request resolve server ''/v1/backends/register'' (json_text (register_request_json q))"

record registrar =
  raServer :: string
  raName :: string
  raBaseURL :: string
  raSupportsThreadReply :: bool
  raRegistered :: bool

definition NewRegistrar :: "string \<Rightarrow> string \<Rightarrow> string \<Rightarrow> bool \<Rightarrow> registrar" where
  "NewRegistrar coreURL name baseURL supportsThreadReply =
     \<lparr>raServer = client_server coreURL, raName = name, raBaseURL = baseURL,
      raSupportsThreadReply = supportsThreadReply, raRegistered = False\<rparr>"

definition HasRegistered :: "registrar \<Rightarrow> bool" where
  "HasRegistered r = raRegistered r"

definition register :: "(string \<Rightarrow> string \<Rightarrow> string option) \<Rightarrow>
    ('w \<Rightarrow> http_request \<Rightarrow> ('e + http_response) \<times> 'w) \<Rightarrow> registrar \<times> 'w \<Rightarrow> registrar \<times> 'w" where
  "register resolve do = (\<lambda>(r, w).
     case NewRegisterBackendRequest resolve (raServer r)
         \<lparr>gqBaseURL = raBaseURL r, gqName = raName r, gqSupportsThreadReply = raSupportsThreadReply r\<rparr> of
       None \<Rightarrow> (r, w)
     | Some req \<Rightarrow>
         (case do w req of
            (Inl e, w) \<Rightarrow> (r, w)
          | (Inr rsp, w) \<Rightarrow> if rsStatus rsp \<noteq> 204 then (r, w) else (r\<lparr>raRegistered := True\<rparr>, w)))"

text \<open>
  \<open>Run\<close>: an attempt at once, and one per tick. What happens in the world before each tick is a
  parameter; \<open>Run\<close> ends when its context does, after some prefix of the ticks.
\<close>

definition registrar_run :: "(string \<Rightarrow> string \<Rightarrow> string option) \<Rightarrow>
    ('w \<Rightarrow> http_request \<Rightarrow> ('e + http_response) \<times> 'w) \<Rightarrow> ('w \<Rightarrow> 'w) list \<Rightarrow> registrar \<times> 'w \<Rightarrow> registrar \<times> 'w" where
  "registrar_run resolve do ticks st =
     fold (\<lambda>tick (r, w). register resolve do (r, tick w)) ticks (register resolve do st)"

section \<open>Refusals\<close>

text \<open>A body that cannot be read is answered with 400, and the backend is not called.\<close>

lemma handlers_refuse_malformed:
  assumes "decode_body decode_notify_request zero_notify_request body = None"
    and "decode_body decode_thread_reply_request zero_thread_reply_request body' = None"
  shows "Handler_Notify decode_error h body w = (http_error (''invalid payload: '' @ decode_error body) 400, w) \<and>
    Handler_ThreadReply decode_error h body' w = (http_error (''invalid payload: '' @ decode_error body') 400, w)"
  using assms by (simp add: Handler_Notify_def Handler_ThreadReply_def)

lemma handlers_refuse_malformed_witness:
  "rsStatus (fst (Handler_Notify (\<lambda>s. s) (slack_handler (sample_client 0)) [] 7)) = 400 \<and>
   rsStatus (fst (Handler_ThreadReply (\<lambda>s. s) (slack_handler (sample_client 0)) [] 7)) = 400"
proof -
  have "json_decode [] = None" by (simp add: json_decode_def)
  then have "decode_body dec zero [] = None" for dec :: "'b field_decoder" and zero by (simp add: decode_body_def)
  from handlers_refuse_malformed [OF this this, of "\<lambda>s. s" "slack_handler (sample_client 0)" 7]
  show ?thesis by (simp add: http_error_def)
qed

section \<open>From the core to the backend and back\<close>

lemma json_unmarshal_line:
  assumes "json_plain j" and "json_depth j \<le> max_depth"
  shows "json_unmarshal (json_text j @ [CHR 0x0A]) = Some (clean j)"
  using parse_text [OF assms, of "[CHR 0x0A]"] unfolding json_unmarshal_def by (simp add: json_space_def)

lemma respond_read_back:
  "contains (rsContentType (respondNotifyResult ref)) ''json''"
  "rsStatus (respondNotifyResult ref) = 200"
  "Option.bind (json_unmarshal (rsBody (respondNotifyResult ref))) (\<lambda>j. decode_notify_result j \<lparr>nrRef = []\<rparr>) =
     Some \<lparr>nrRef = clean_string ref\<rparr>"
proof -
  let ?j = "notify_result_json \<lparr>nrRef = ref\<rparr>"
  have "json_depth ?j \<le> Suc 0" by (simp add: notify_result_json_def json_depth_JObj del: json_depth.simps(1,2))
  moreover have "json_plain ?j" by (simp add: notify_result_json_def)
  moreover have "clean_string ''ref'' = ''ref''" using utf8_name by (simp add: clean_string_valid)
  then have "clean ?j = notify_result_json \<lparr>nrRef = clean_string ref\<rparr>" by (simp add: notify_result_json_def)
  ultimately show "Option.bind (json_unmarshal (rsBody (respondNotifyResult ref))) (\<lambda>j. decode_notify_result j \<lparr>nrRef = []\<rparr>) =
     Some \<lparr>nrRef = clean_string ref\<rparr>"
    by (simp add: respondNotifyResult_def json_unmarshal_line max_depth_def decode_notify_result_json)
  have "contains ''application/json'' ''json''" by code_simp
  then show "contains (rsContentType (respondNotifyResult ref)) ''json''" by (simp add: respondNotifyResult_def)
qed (simp add: respondNotifyResult_def)

text \<open>A network on which the server of a base address answers the requests below it.\<close>

definition network :: "'e \<Rightarrow> 'w handler_func \<Rightarrow> string \<Rightarrow> 'w \<Rightarrow> http_request \<Rightarrow> ('e + http_response) \<times> 'w" where
  "network lost server base w req =
     (if take (length base) (rqURL req) \<noteq> base then (Inl lost, w)
      else (case server (req\<lparr>rqURL := drop (length base) (rqURL req)\<rparr>) w of
              (None, w) \<Rightarrow> (Inl lost, w)
            | (Some rsp, w) \<Rightarrow> (Inr rsp, w)))"

lemma backend_server_routes:
  assumes "rqMethod req = ''POST''"
  shows "rqURL req = ''/notify'' \<Longrightarrow>
      backend_server decode_error h ready req w = apfst Some (Handler_Notify decode_error h (rqBody req) w)"
    and "rqURL req = ''/thread-reply'' \<Longrightarrow>
      backend_server decode_error h ready req w = apfst Some (Handler_ThreadReply decode_error h (rqBody req) w)"
  using assms
  by (auto simp: backend_server_def backendapi_routes_def serve_mux_def method_matches_def Middleware_def
      split_beta prod_eq_iff)

lemma network_backend:
  assumes "rqMethod req = ''POST''"
  shows "rqURL req = base @ ''/notify'' \<Longrightarrow> network lost (backend_server decode_error h ready) base w req =
      apfst Inr (Handler_Notify decode_error h (rqBody req) w)"
    and "rqURL req = base @ ''/thread-reply'' \<Longrightarrow> network lost (backend_server decode_error h ready) base w req =
      apfst Inr (Handler_ThreadReply decode_error h (rqBody req) w)"
  using assms by (simp_all add: network_def backend_server_routes split_beta prod_eq_iff)

lemma reply_body_read:
  assumes "utf8_valid recipient" and "utf8_valid ref" and "utf8_valid msg"
    and "q = \<lparr>tqRecipient = recipient, tqRef = ref, tqText = msg\<rparr>"
    and "length (json_text (thread_reply_request_json q)) \<le> maxBodyBytes"
  shows "decode_body decode_thread_reply_request zero_thread_reply_request (json_text (thread_reply_request_json q)) = Some q"
proof -
  have "json_ok (thread_reply_request_json q)"
    using assms(1-4) utf8_name by (simp add: thread_reply_request_json_def)
  moreover have "json_depth (thread_reply_request_json q) \<le> Suc 0"
    by (simp add: thread_reply_request_json_def json_depth_JObj del: json_depth.simps(1,2))
  ultimately show ?thesis
    using assms(5) by (simp add: decode_body_text max_depth_def decode_thread_reply_request_json)
qed

text \<open>
  What the core sees of a backend that runs this server: an edit where it has a reference and the
  backend can edit, and a post otherwise; the reference comes back, and a failure is an error. The
  texts arrive cleaned.
\<close>

definition within_limit :: "string \<Rightarrow> string \<Rightarrow> notification \<Rightarrow> bool" where
  "within_limit recipient ref n \<longleftrightarrow> length (json_text (notify_request_json
     \<lparr>nqNotification = toWireNotification n, nqRecipient = recipient, nqRef = ref\<rparr>)) \<le> maxBodyBytes"

lemma notify_over_network:
  fixes env :: "('w, 'e) remote_env"
  assumes "Lookup (reNow env w) name (reRegistry env w) = Some be"
    and "\<not> has_suffix (rbBaseURL be) ''/''" and "resolves_dot (reResolveURL env) (rbBaseURL be)"
    and "reDo env = network lost (backend_server decode_error h ready) (rbBaseURL be)"
    and "within_limit recipient ref n"
  shows "remote_notify env name w recipient ref n =
    (case (if ref = [] then None else hdUpdate h) of
       Some update \<Rightarrow>
         (case update w (clean_string recipient) (clean_string ref) (clean_notification n) of
            (None, w') \<Rightarrow> (Inr (clean_string ref), w')
          | (Some e, w') \<Rightarrow> (Inl (UnexpectedStatus 500 (''update failed'' @ [CHR 0x0A])), w'))
     | None \<Rightarrow>
         (case hdPost h w (clean_string recipient) (clean_notification n) of
            (Inr newRef, w') \<Rightarrow> (Inr (clean_string newRef), w')
          | (Inl e, w') \<Rightarrow> (Inl (UnexpectedStatus 500 (''post failed'' @ [CHR 0x0A])), w')))"
proof -
  define q where "q = \<lparr>nqNotification = toWireNotification n, nqRecipient = recipient, nqRef = ref\<rparr>"
  note read = notify_body_clean [OF assms(5) [unfolded within_limit_def], folded q_def]
  define view :: "http_response \<times> 'w \<Rightarrow> ('e remote_error + string) \<times> 'w"
    where "view = (\<lambda>(rsp, w'). (if rsStatus rsp \<noteq> 200 \<or> \<not> contains (rsContentType rsp) ''json''
          then Inl (UnexpectedStatus (rsStatus rsp) (rsBody rsp))
          else case Option.bind (json_unmarshal (rsBody rsp)) (\<lambda>j. decode_notify_result j \<lparr>nrRef = []\<rparr>) of
                 None \<Rightarrow> Inl (InvalidResponse (rsBody rsp)) | Some r \<Rightarrow> Inr (nrRef r), w'))"
  have eq: "remote_notify env name w recipient ref n =
      view (Handler_Notify decode_error h (json_text (notify_request_json q)) w)"
    unfolding remote_notify_request [OF assms(1-3)] assms(4) q_def [symmetric] view_def
    by (simp add: network_backend(1) split_beta)
  have result: "view (respondNotifyResult r, w') = (Inr (clean_string r), w')" for r w'
    by (simp add: view_def respond_read_back)
  have failure: "view (http_error m 500, w') = (Inl (UnexpectedStatus 500 (m @ [CHR 0x0A])), w')" for m w'
    by (simp add: view_def http_error_def)
  have post: "view (handler_post h recipient n w) =
      (case hdPost h w recipient n of
         (Inr newRef, w') \<Rightarrow> (Inr (clean_string newRef), w')
       | (Inl e, w') \<Rightarrow> (Inl (UnexpectedStatus 500 (''post failed'' @ [CHR 0x0A])), w'))" for recipient n
    by (cases "hdPost h w recipient n"; cases "fst (hdPost h w recipient n)")
      (simp_all add: handler_post_def result failure)
  have update: "view (case update w recipient (clean_string ref) n of
          (Some e, w) \<Rightarrow> (http_error ''update failed'' 500, w) | (None, w) \<Rightarrow> (respondNotifyResult (clean_string ref), w)) =
      (case update w recipient (clean_string ref) n of
         (None, w') \<Rightarrow> (Inr (clean_string ref), w')
       | (Some e, w') \<Rightarrow> (Inl (UnexpectedStatus 500 (''update failed'' @ [CHR 0x0A])), w'))" for update recipient n
    by (cases "update w recipient (clean_string ref) n"; cases "fst (update w recipient (clean_string ref) n)")
      (simp_all add: result failure)
  have "Handler_Notify decode_error h (json_text (notify_request_json q)) w =
      (case (if ref = [] then None else hdUpdate h) of
         Some update \<Rightarrow> (case update w (clean_string recipient) (clean_string ref) (clean_notification n) of
           (Some e, w) \<Rightarrow> (http_error ''update failed'' 500, w) | (None, w) \<Rightarrow> (respondNotifyResult (clean_string ref), w))
       | None \<Rightarrow> handler_post h (clean_string recipient) (clean_notification n) w)"
    using read by (cases "hdUpdate h") (simp_all add: Handler_Notify_def Let_def)
  then show ?thesis
    unfolding eq by (cases "ref = []"; cases "hdUpdate h") (simp_all only: simp_thms if_True if_False option.case post update)
qed

text \<open>
  C12: A backend process implements the notify contract of the core. Where its server is behind
  the address that is registered under its name, which has no trailing slash and resolves in
  net/url, and the request is within the 1 MiB of the body reader, Notify is, through request,
  router, handler and response, an edit where there is a reference and the backend can edit,
  and a post otherwise, with the reference passed back and every failure reported as status
  500. Recipient, reference and message arrive as JSON carries texts, with bytes that are no
  UTF-8 replaced by U+FFFD.
\<close>

theorem notify_end_to_end:
  fixes env :: "('w, 'e) remote_env"
  assumes "Lookup (reNow env w) name (reRegistry env w) = Some be"
    and "\<not> has_suffix (rbBaseURL be) ''/''" and "resolves_dot (reResolveURL env) (rbBaseURL be)"
    and "reDo env = network lost (backend_server decode_error h ready) (rbBaseURL be)"
    and "within_limit recipient ref n"
  shows "remote_notify env name w recipient ref n =
    (case (if ref = [] then None else hdUpdate h) of
       Some update \<Rightarrow>
         (case update w (clean_string recipient) (clean_string ref) (clean_notification n) of
            (None, w') \<Rightarrow> (Inr (clean_string ref), w')
          | (Some e, w') \<Rightarrow> (Inl (UnexpectedStatus 500 (''update failed'' @ [CHR 0x0A])), w'))
     | None \<Rightarrow>
         (case hdPost h w (clean_string recipient) (clean_notification n) of
            (Inr newRef, w') \<Rightarrow> (Inr (clean_string newRef), w')
          | (Inl e, w') \<Rightarrow> (Inl (UnexpectedStatus 500 (''post failed'' @ [CHR 0x0A])), w')))"
  using assms by (rule notify_over_network)

text \<open>
  A Slack backend as a call finds it: registered at the time of the call under an address that
  can be used, with its server behind it.
\<close>

definition slack_at :: "('w, 'e) remote_env \<Rightarrow> string \<Rightarrow> 'e \<Rightarrow> (string \<Rightarrow> string) \<Rightarrow> ('w, 'x, 'r) slack_client \<Rightarrow>
    ('w \<Rightarrow> bool) \<Rightarrow> 'w \<Rightarrow> bool" where
  "slack_at env name lost decode_error c ready w \<longleftrightarrow>
     (\<exists>be. Lookup (reNow env w) name (reRegistry env w) = Some be \<and> \<not> has_suffix (rbBaseURL be) ''/'' \<and>
       resolves_dot (reResolveURL env) (rbBaseURL be) \<and>
       reDo env = network lost (backend_server decode_error (slack_handler c) ready) (rbBaseURL be))"

lemma notify_slack:
  assumes "slack_at env name lost decode_error c ready w" and "within_limit recipient ref n"
  shows "remote_notify env name w recipient ref n =
    (if ref = [] then
       (case Post c w (clean_string recipient) (clean_notification n) of
          (Inr newRef, w') \<Rightarrow> (Inr (clean_string newRef), w')
        | (Inl e, w') \<Rightarrow> (Inl (UnexpectedStatus 500 (''post failed'' @ [CHR 0x0A])), w'))
     else
       (case Update c w (clean_string recipient) (clean_string ref) (clean_notification n) of
          (None, w') \<Rightarrow> (Inr (clean_string ref), w')
        | (Some e, w') \<Rightarrow> (Inl (UnexpectedStatus 500 (''update failed'' @ [CHR 0x0A])), w')))"
proof -
  obtain be where be: "Lookup (reNow env w) name (reRegistry env w) = Some be" "\<not> has_suffix (rbBaseURL be) ''/''"
    "resolves_dot (reResolveURL env) (rbBaseURL be)"
    "reDo env = network lost (backend_server decode_error (slack_handler c) ready) (rbBaseURL be)"
    using assms(1) by (auto simp: slack_at_def)
  show ?thesis by (simp add: notify_over_network [OF be assms(2)] slack_handler_def)
qed

text \<open>What Slack answers is JSON, so the reference made of it is text.\<close>

definition api_typed :: "api_response \<Rightarrow> bool" where
  "api_typed r \<longleftrightarrow> list_all utf8_valid [apError r, apTS r, apChannel r]"

lemma yields_api_response: "yields api_typed decode_api_response"
proof -
  have "yields api_typed (decode_field apOK (\<lambda>x. apOK_update (\<lambda>_. x)) decode_bool)"
    by (rule yields_field [where Q = "\<lambda>b. True"]) (simp_all add: yields_def api_typed_def)
  moreover have "yields api_typed (decode_field apError (\<lambda>x. apError_update (\<lambda>_. x)) decode_string)"
    "yields api_typed (decode_field apTS (\<lambda>x. apTS_update (\<lambda>_. x)) decode_string)"
    "yields api_typed (decode_field apChannel (\<lambda>x. apChannel_update (\<lambda>_. x)) decode_string)"
    by (auto simp: api_typed_def intro!: yields_field yields_string)
  ultimately show ?thesis unfolding decode_api_response_def by (intro yields_struct) auto
qed

lemma zero_api_response_typed: "api_typed zero_api_response"
  by (simp add: zero_api_response_def api_typed_def)

lemma attempt_typed: "attempt_call c meth b w = (Inr out, w') \<Longrightarrow> api_typed out"
  using yieldsD [OF yields_api_response json_decode_utf8 zero_api_response_typed]
  by (auto simp: attempt_call_def bind_eq_Some_conv split: if_splits prod.splits sum.splits option.splits)

lemma call_loop_typed:
  "call_loop c meth b k n lastErr w = (Inr out, w') \<Longrightarrow> api_typed out"
proof (induction k arbitrary: n lastErr w)
  case 0
  then show ?case using zero_api_response_typed by (auto split: option.splits)
next
  case (Suc k)
  then show ?case using attempt_typed by (fastforce split: prod.splits sum.splits bool.splits if_splits)
qed

lemma call_typed: "call c meth body w = (Inr out, w') \<Longrightarrow> utf8_valid (encodeRef (apChannel out) (apTS out))"
  using call_loop_typed by (fastforce simp: call_def encodeRef_def byte_in_def api_typed_def intro: utf8_valid_append split: option.splits)

text \<open>
  C13: From the core through the backend to Slack: a Notify without a reference that succeeds
  has posted the message, and its reference is made of the channel and the timestamp Slack
  answered with. Unless that channel has a | in it, every later Notify with this reference, in
  whatever state of the world and for whatever recipient and message, is a chat.update of that
  channel and timestamp, under the same reference, or fails with the answer 500 where rendering
  or the update does. At the time of each of the two calls the backend is registered, under an
  address without a trailing slash that resolves in net/url and has its server behind it, and
  each request is within the 1 MiB of the body reader.
\<close>

theorem later_batches_edit_slack_message:
  assumes "slack_at env name lost decode_error c ready w" and "within_limit recipient [] n"
    and "remote_notify env name w recipient [] n = (Inr ref, w1)"
    and "slack_at env name lost decode_error c ready w2" and "within_limit recipient' ref n'"
  shows "\<exists>msg raw out. slRender c w (clean_notification n) = Inr (msg, raw) \<and>
    call c ''chat.postMessage'' (postMessageRequest (clean_string recipient) [] msg raw) w = (Inr out, w1) \<and>
    ref = encodeRef (apChannel out) (apTS out) \<and>
    (CHR ''|'' \<notin> set (apChannel out) \<longrightarrow>
      remote_notify env name w2 recipient' ref n' =
       (case slRender c w2 (clean_notification n') of
          Inl e \<Rightarrow> (Inl (UnexpectedStatus 500 (''update failed'' @ [CHR 0x0A])), w2)
        | Inr (msg', raw') \<Rightarrow>
            (case call c ''chat.update'' (updateMessageRequest (apChannel out) (apTS out) msg' raw') w2 of
               (Inr out', w3) \<Rightarrow> (Inr ref, w3)
             | (Inl e, w3) \<Rightarrow> (Inl (UnexpectedStatus 500 (''update failed'' @ [CHR 0x0A])), w3))))"
proof -
  obtain msg raw out where post: "slRender c w (clean_notification n) = Inr (msg, raw)"
    "call c ''chat.postMessage'' (postMessageRequest (clean_string recipient) [] msg raw) w = (Inr out, w1)"
    "ref = clean_string (encodeRef (apChannel out) (apTS out))"
    using assms(3) notify_slack [OF assms(1,2)] by (auto simp: Post_def split: sum.splits prod.splits)
  then have ref: "ref = encodeRef (apChannel out) (apTS out)"
    using clean_string_valid [OF call_typed [OF post(2)]] by simp
  then have ne: "ref \<noteq> []" by (simp add: encodeRef_def)
  have same: "clean_string ref = ref" using clean_string_valid [OF call_typed [OF post(2)]] ref by simp
  have "remote_notify env name w2 recipient' ref n' =
      (case slRender c w2 (clean_notification n') of
         Inl e \<Rightarrow> (Inl (UnexpectedStatus 500 (''update failed'' @ [CHR 0x0A])), w2)
       | Inr (msg', raw') \<Rightarrow>
           (case call c ''chat.update'' (updateMessageRequest (apChannel out) (apTS out) msg' raw') w2 of
              (Inr out', w3) \<Rightarrow> (Inr ref, w3)
            | (Inl e, w3) \<Rightarrow> (Inl (UnexpectedStatus 500 (''update failed'' @ [CHR 0x0A])), w3)))"
    if "CHR ''|'' \<notin> set (apChannel out)"
  proof -
    have "decodeRef ref (clean_string recipient') = (apChannel out, apTS out)"
      using that by (simp add: ref decode_encode_ref)
    with ne show ?thesis unfolding notify_slack [OF assms(4,5)]
      by (simp add: same Update_def as_error_def split: prod.split sum.split)
  qed
  with post(1,2) ref show ?thesis by blast
qed

text \<open>The same for thread replies, where the backend declared support.\<close>

lemma thread_reply_end_to_end:
  assumes "Lookup (reNow env w) name (reRegistry env w) = Some be" and "rbSupportsThreadReply be"
    and "\<not> has_suffix (rbBaseURL be) ''/''" and "resolves_dot (reResolveURL env) (rbBaseURL be)"
    and "reDo env = network lost (backend_server decode_error h ready) (rbBaseURL be)"
    and "utf8_valid recipient" and "utf8_valid ref" and "utf8_valid msg"
    and "length (json_text (thread_reply_request_json
      \<lparr>tqRecipient = recipient, tqRef = ref, tqText = msg\<rparr>)) \<le> maxBodyBytes"
  shows "remote_thread_reply env name w recipient ref msg =
    (case hdThreadReply h of
       None \<Rightarrow> (Some (UnexpectedStatus 500 (''ThreadReplyNotSupported'' @ [CHR 0x0A])), w)
     | Some reply \<Rightarrow>
         (case reply w recipient ref msg of
            (None, w') \<Rightarrow> (None, w')
          | (Some e, w') \<Rightarrow> (Some (UnexpectedStatus 500 (''thread reply failed'' @ [CHR 0x0A])), w')))"
proof -
  define q where "q = \<lparr>tqRecipient = recipient, tqRef = ref, tqText = msg\<rparr>"
  note read = reply_body_read [OF assms(6-8) q_def assms(9) [folded q_def]]
  have eq: "remote_thread_reply env name w recipient ref msg =
      (\<lambda>(rsp, w'). (if rsStatus rsp \<noteq> 204 then Some (UnexpectedStatus (rsStatus rsp) (rsBody rsp)) else None, w'))
        (Handler_ThreadReply decode_error h (json_text (thread_reply_request_json q)) w)"
    unfolding remote_thread_reply_eq [OF assms(1-4)] assms(5) q_def [symmetric]
    by (simp add: network_backend(2) split_beta)
  show ?thesis
    unfolding eq using read
    by (simp add: Handler_ThreadReply_def q_def http_error_def no_content_def split: option.split prod.split)
qed

text \<open>A core whose registry knows one backend, which runs the Slack handler on the sample client.\<close>

definition sample_core :: "(nat, string) remote_env" where
  "sample_core = \<lparr>reRegistry = (\<lambda>w. register_all 90 sample_regs), reNow = (\<lambda>w. 100),
     reDo = network ''lost'' (backend_server (\<lambda>s. s) (slack_handler (sample_client 0)) (\<lambda>w. True)) ''http://s'',
     reResolveURL = (\<lambda>base path. Some (base @ drop 2 path))\<rparr>"

lemma sample_core_reaches:
  assumes "Lookup 100 ''slack'' (register_all 90 sample_regs) = Some be"
  shows "Lookup (reNow sample_core 0) ''slack'' (reRegistry sample_core 0) = Some be" "rbSupportsThreadReply be"
    "\<not> has_suffix (rbBaseURL be) ''/''" "resolves_dot (reResolveURL sample_core) (rbBaseURL be)"
    "reDo sample_core = network ''lost'' (backend_server (\<lambda>s. s) (slack_handler (sample_client 0)) (\<lambda>w. True)) (rbBaseURL be)"
proof -
  have be: "be = \<lparr>rbName = ''slack'', rbBaseURL = ''http://s'', rbSupportsThreadReply = True, rbLastSeen = 50\<rparr>"
    using assms sample_lookups(1) by simp
  have "\<not> has_suffix ''http://s'' ''/''" by code_simp
  with assms show "Lookup (reNow sample_core 0) ''slack'' (reRegistry sample_core 0) = Some be" "rbSupportsThreadReply be"
    "\<not> has_suffix (rbBaseURL be) ''/''" "resolves_dot (reResolveURL sample_core) (rbBaseURL be)"
    "reDo sample_core = network ''lost'' (backend_server (\<lambda>s. s) (slack_handler (sample_client 0)) (\<lambda>w. True)) (rbBaseURL be)"
    by (simp_all add: be sample_core_def resolves_dot_def)
qed

lemma sample_within_limit: "within_limit ''ops'' [] sample_msg" "within_limit ''ops'' ''C|17'' sample_msg"
proof -
  have "length (json_text (notify_request_json \<lparr>nqNotification = toWireNotification sample_msg,
      nqRecipient = ''ops'', nqRef = r\<rparr>)) \<le> 1000" if "r = [] \<or> r = ''C|17''" for r
  proof -
    have "\<forall>r \<in> {[], ''C|17''}. length (json_text (notify_request_json \<lparr>nqNotification = toWireNotification sample_msg,
      nqRecipient = ''ops'', nqRef = r\<rparr>)) \<le> 1000" by code_simp
    with that show ?thesis by auto
  qed
  then show "within_limit ''ops'' [] sample_msg" "within_limit ''ops'' ''C|17'' sample_msg"
    by (force simp: within_limit_def maxBodyBytes_def)+
qed

lemma sample_texts: "clean_notification sample_msg = sample_msg" "clean_string ''ops'' = ''ops''" "clean_string ''C|17'' = ''C|17''"
proof -
  have "notification_utf8 sample_msg" "utf8_valid ''ops''" "utf8_valid ''C|17''" by code_simp+
  then show "clean_notification sample_msg = sample_msg" "clean_string ''ops'' = ''ops''" "clean_string ''C|17'' = ''C|17''"
    by (simp_all add: clean_notification_valid clean_string_valid)
qed

lemma notify_end_to_end_witness:
  "remote_notify sample_core ''slack'' 0 ''ops'' [] sample_msg = (Inr ''C|17'', 0)"
  using notify_end_to_end [OF sample_core_reaches(1,3,4,5) sample_within_limit(1)] sample_lookups(1) sample_texts
  by (simp add: slack_handler_def sample_post(1))

lemma later_batches_edit_slack_message_witness:
  "\<exists>msg raw. DefaultRenderer_Render sample_msg = (Inr (msg, raw) :: unit render_result) \<and>
     remote_notify sample_core ''slack'' 0 ''ops'' ''C|17'' sample_msg =
       (case call (sample_client 0) ''chat.update'' (updateMessageRequest ''C'' ''17'' msg raw) 0 of
          (Inr out', w3) \<Rightarrow> (Inr ''C|17'', w3)
        | (Inl e, w3) \<Rightarrow> (Inl (UnexpectedStatus 500 (''update failed'' @ [CHR 0x0A])), w3))"
proof -
  obtain msg raw where render: "DefaultRenderer_Render sample_msg = (Inr (msg, raw) :: unit render_result)"
    and post: "call (sample_client 0) ''chat.postMessage'' (postMessageRequest ''ops'' [] msg raw) 0 =
       (Inr \<lparr>apOK = True, apError = [], apTS = ''17'', apChannel = ''C''\<rparr>, 0)"
    using sample_post(2) by blast
  have at: "slack_at sample_core ''slack'' ''lost'' (\<lambda>s. s) (sample_client 0) (\<lambda>w. True) 0"
    using sample_core_reaches [OF sample_lookups(1)] sample_lookups(1) by (auto simp: slack_at_def)
  have "remote_notify sample_core ''slack'' 0 ''ops'' [] sample_msg = (Inr ''C|17'', 0)"
    by (simp add: notify_slack [OF at sample_within_limit(1)] sample_post(1) sample_texts)
  from later_batches_edit_slack_message [OF at sample_within_limit(1) this at sample_within_limit(2)] render post
  show ?thesis by (auto simp: sample_client_simps sample_texts)
qed

lemma thread_reply_end_to_end_witness:
  "remote_thread_reply sample_core ''slack'' 0 ''ops'' ''C|17'' ''again'' = (None, 0)"
proof -
  have short: "length (json_text (thread_reply_request_json \<lparr>tqRecipient = ''ops'', tqRef = ''C|17'', tqText = ''again''\<rparr>)) \<le> 1000"
    by code_simp
  have utf8: "utf8_valid ''ops''" "utf8_valid ''C|17''" "utf8_valid ''again''" by code_simp+
  have "PostThreadReply (sample_client 0) 0 ''ops'' ''C|17'' ''again'' = (None, 0)"
    by (simp add: PostThreadReply_def as_error_def call_def postMessageRequest_def raw_ok_def
        sample_client_simps sample_attempt split: prod.split)
  then show ?thesis
    using short sample_lookups(1)
    by (subst thread_reply_end_to_end [OF sample_core_reaches utf8]) (simp_all add: maxBodyBytes_def slack_handler_def)
qed

section \<open>The heartbeat\<close>

text \<open>
  The core as the registrar sees it: its clock and its registry, behind the registration
  endpoint; between two heartbeats time passes, and other backends register.
\<close>

record core_world =
  cwNow :: int
  cwRegistry :: registry

definition core_endpoint :: "(string \<Rightarrow> string) \<Rightarrow> core_world handler_func" where
  "core_endpoint decode_error = Middleware (serve_mux [(Some ''POST'', ''/v1/backends/register'',
     \<lambda>req w. (case RegisterBackend decode_error (cwNow w) (rqBody req) (cwRegistry w) of
        (rsp, r) \<Rightarrow> (Some rsp, w\<lparr>cwRegistry := r\<rparr>)))])"

definition core_tick :: "int \<Rightarrow> (string \<times> string \<times> bool) list \<Rightarrow> core_world \<Rightarrow> core_world" where
  "core_tick d others w = \<lparr>cwNow = cwNow w + d, cwRegistry =
     fold (\<lambda>(name, url, s) r. snd (Register (cwNow w + d) name url s r)) others (cwRegistry w)\<rparr>"

lemma register_core:
  assumes "registry_ok ttl (cwRegistry w)" and "raName r \<noteq> []" and "raBaseURL r \<noteq> []"
    and "utf8_valid (raName r)" and "utf8_valid (raBaseURL r)"
    and "resolve (raServer r) ''./v1/backends/register'' = Some (core @ ''/v1/backends/register'')"
    and "length (json_text (register_request_json \<lparr>gqBaseURL = raBaseURL r, gqName = raName r,
      gqSupportsThreadReply = raSupportsThreadReply r\<rparr>)) \<le> maxBodyBytes"
  shows "register resolve (network lost (core_endpoint decode_error) core) (r, w) =
    (r\<lparr>raRegistered := True\<rparr>, w\<lparr>cwRegistry :=
       snd (Register (cwNow w) (raName r) (raBaseURL r) (raSupportsThreadReply r) (cwRegistry w))\<rparr>)"
proof -
  define q where "q = \<lparr>gqBaseURL = raBaseURL r, gqName = raName r, gqSupportsThreadReply = raSupportsThreadReply r\<rparr>"
  have "json_ok (register_request_json q)"
    using assms(4,5) utf8_name by (simp add: register_request_json_def q_def)
  moreover have "json_depth (register_request_json q) \<le> Suc 0"
    by (simp add: register_request_json_def json_depth_JObj del: json_depth.simps(1,2))
  ultimately have read: "decode_body decode_register_request zero_register_request (json_text (register_request_json q)) = Some q"
    using assms(7) by (simp add: decode_body_text decode_register_request_json max_depth_def q_def)
  have "\<exists>isNew. fst (Register (cwNow w) (raName r) (raBaseURL r) (raSupportsThreadReply r) (cwRegistry w)) = Inr isNew"
    using assms(2,3) by (auto simp: Register_def Let_def)
  then obtain isNew r' where reg: "Register (cwNow w) (raName r) (raBaseURL r) (raSupportsThreadReply r) (cwRegistry w) = (Inr isNew, r')"
    by (metis prod.collapse)
  have handled: "RegisterBackend decode_error (cwNow w) (json_text (register_request_json q)) (cwRegistry w) = (no_content, r')"
    using read reg by (simp add: RegisterBackend_def q_def)
  show ?thesis
    using assms(6) handled reg
    by (simp add: register_def NewRegisterBackendRequest_def new_json_request_def network_def core_endpoint_def
        serve_mux_def method_matches_def Middleware_def no_content_def flip: q_def)
qed

lemma core_tick_ok:
  assumes "registry_ok ttl (cwRegistry w)"
  shows "registry_ok ttl (cwRegistry (core_tick d others w))"
proof -
  have "registry_ok ttl r \<Longrightarrow> registry_ok ttl (fold (\<lambda>(name, url, s) r. snd (Register t name url s r)) others r)" for t r
    by (induction others arbitrary: r) (auto intro: registry_ok_Register)
  with assms show ?thesis by (simp add: core_tick_def)
qed

lemma core_tick_lookup:
  assumes "registry_ok ttl (cwRegistry w)" and "name \<notin> fst ` set others"
  shows "Lookup (cwNow w + d) name (cwRegistry (core_tick d others w)) = Lookup (cwNow w + d) name (cwRegistry w)"
proof -
  have "Lookup t name (fold (\<lambda>(name, url, s) r. snd (Register t name url s r)) others r) = Lookup t name r"
    if "registry_ok ttl r" for t r
    using that assms(2)
  proof (induction others arbitrary: r)
    case (Cons reg others)
    obtain n u s where reg: "reg = (n, u, s)" by (cases reg)
    with Cons.prems have "registry_ok ttl (snd (Register t n u s r))" "name \<noteq> n" by (auto intro: registry_ok_Register)
    with Cons reg reg.lookup_other [of ttl r name n t t u s] show ?case by simp
  qed simp
  with assms(1) show ?thesis by (simp add: core_tick_def)
qed

text \<open>
  However many heartbeats the registrar has made, and whatever other backends did in between, the
  backend is found until one TTL after the last of them.
\<close>

text \<open>
  C22: Let the name and the address of a backend be valid UTF-8 and not empty, its registration
  within the 1 MiB of the body reader, and the address of the core one from which net/url
  resolves the path. However many heartbeats its registrar has made, and whatever was
  registered in between, the core finds the backend under its name and address for one TTL
  after the last heartbeat, as long as nobody else registers that name after it, and the
  registrar reports that it has registered.
\<close>

theorem heartbeat_keeps_alive:
  assumes "registry_ok ttl (cwRegistry w)" and "name \<noteq> []" and "url \<noteq> []"
    and "utf8_valid name" and "utf8_valid url"
    and "resolve (client_server core_url) ''./v1/backends/register'' = Some (core @ ''/v1/backends/register'')"
    and "length (json_text (register_request_json \<lparr>gqBaseURL = url, gqName = name,
      gqSupportsThreadReply = s\<rparr>)) \<le> maxBodyBytes"
    and "0 \<le> d" and "d \<le> ttl" and "name \<notin> fst ` set others"
    and "registrar_run resolve (network lost (core_endpoint decode_error) core)
      (map (\<lambda>(d, others). core_tick d others) ticks) (NewRegistrar core_url name url s, w) = (r', w')"
  shows "HasRegistered r' \<and> Lookup (cwNow w' + d) name (cwRegistry (core_tick d others w')) =
    Some \<lparr>rbName = name, rbBaseURL = trim_suffix url ''/'', rbSupportsThreadReply = s, rbLastSeen = cwNow w'\<rparr>"
proof -
  let ?do = "network lost (core_endpoint decode_error) core"
  let ?inv = "\<lambda>(r, w'). (\<exists>w. registry_ok ttl (cwRegistry w) \<and>
      w' = w\<lparr>cwRegistry := snd (Register (cwNow w) name url s (cwRegistry w))\<rparr>) \<and>
    r = (NewRegistrar core_url name url s)\<lparr>raRegistered := True\<rparr>"
  have step: "?inv (register resolve ?do (r, w))"
    if "registry_ok ttl (cwRegistry w)" "r\<lparr>raRegistered := True\<rparr> = (NewRegistrar core_url name url s)\<lparr>raRegistered := True\<rparr>" for r w
  proof -
    from that(2) have r: "raName r = name" "raBaseURL r = url" "raSupportsThreadReply r = s" "raServer r = client_server core_url"
      by (cases r; simp add: NewRegistrar_def)+
    have "register resolve ?do (r, w) = (r\<lparr>raRegistered := True\<rparr>,
        w\<lparr>cwRegistry := snd (Register (cwNow w) (raName r) (raBaseURL r) (raSupportsThreadReply r) (cwRegistry w))\<rparr>)"
      by (rule register_core [OF that(1)]) (use assms(2-7) r in simp_all)
    with that r show ?thesis by auto
  qed
  have "?inv (fold (\<lambda>tick (r, w). register resolve ?do (r, tick w))
      (map (\<lambda>(d, others). core_tick d others) ticks) st)" if "?inv st" for st
    using that
  proof (induction ticks arbitrary: st)
    case (Cons t ticks)
    obtain d others r w' where t: "t = (d, others)" "st = (r, w')" by (cases t; cases st)
    with Cons.prems obtain w where w: "registry_ok ttl (cwRegistry w)"
      "w' = w\<lparr>cwRegistry := snd (Register (cwNow w) name url s (cwRegistry w))\<rparr>"
      "r = (NewRegistrar core_url name url s)\<lparr>raRegistered := True\<rparr>" by auto
    then have "registry_ok ttl (cwRegistry w')" by (simp add: registry_ok_Register)
    from step [OF core_tick_ok [OF this], of r d others] w(3)
    have "?inv (register resolve ?do (r, core_tick d others w'))" by simp
    from Cons.IH [OF this] t show ?case by simp
  qed simp
  from this [OF step [OF assms(1) refl]] assms(11) obtain w0 where w0: "registry_ok ttl (cwRegistry w0)"
    "w' = w0\<lparr>cwRegistry := snd (Register (cwNow w0) name url s (cwRegistry w0))\<rparr>"
    "r' = (NewRegistrar core_url name url s)\<lparr>raRegistered := True\<rparr>"
    by (auto simp: registrar_run_def)
  have "registry_ok ttl (cwRegistry w')" using w0 by (simp add: registry_ok_Register)
  from core_tick_lookup [OF this assms(10)] reg.lookup_same [OF w0(1) assms(2,3), of "cwNow w0 + d" "cwNow w0" s] assms(8,9)
  show ?thesis by (auto simp: w0(2,3) HasRegistered_def time_sub_def min_duration_def max_duration_def)
qed

lemma heartbeat_keeps_alive_witness:
  "case registrar_run (\<lambda>base path. Some (base @ drop 2 path)) (network () (core_endpoint (\<lambda>s. s)) ''http://c'')
       (map (\<lambda>(d, others). core_tick d others) [(30, [(''mail'', ''http://m'', False)]), (30, [])])
       (NewRegistrar ''http://c'' ''slack'' ''http://s'' True, \<lparr>cwNow = 0, cwRegistry = NewRegistry 90\<rparr>) of
     (r', w') \<Rightarrow> HasRegistered r' \<and> Lookup (cwNow w' + 90) ''slack''
       (cwRegistry (core_tick 90 [(''mail'', ''http://m'', False)] w')) \<noteq> None"
proof -
  let ?run = "registrar_run (\<lambda>base path. Some (base @ drop 2 path)) (network () (core_endpoint (\<lambda>s. s)) ''http://c'')
       (map (\<lambda>(d, others). core_tick d others) [(30, [(''mail'', ''http://m'', False)]), (30, [])])
       (NewRegistrar ''http://c'' ''slack'' ''http://s'' True, \<lparr>cwNow = 0, cwRegistry = NewRegistry 90\<rparr>)"
  obtain r' w' where run: "?run = (r', w')" by force
  have facts: "utf8_valid ''slack''" "utf8_valid ''http://s''" "client_server ''http://c'' = ''http://c/''"
    "length (json_text (register_request_json \<lparr>gqBaseURL = ''http://s'', gqName = ''slack'', gqSupportsThreadReply = True\<rparr>)) \<le> 1000"
    by code_simp+
  have "HasRegistered r' \<and> Lookup (cwNow w' + 90) ''slack''
      (cwRegistry (core_tick 90 [(''mail'', ''http://m'', False)] w')) =
      Some \<lparr>rbName = ''slack'', rbBaseURL = trim_suffix ''http://s'' ''/'', rbSupportsThreadReply = True, rbLastSeen = cwNow w'\<rparr>"
    by (rule heartbeat_keeps_alive [where ttl = 90, OF _ _ _ facts(1,2) _ _ _ _ _ run])
      (use facts in \<open>simp_all add: maxBodyBytes_def\<close>)
  with run show ?thesis by simp
qed

end
