(* ===== verification/CoreApi.thy ===== *)
theory CoreApi
  imports SlackBackend
begin

text \<open>
  Package \<open>api/core\<close>: the published contract of the core. Its event type, with the pointers of
  optional fields as options, the requests of its client, and its router.
\<close>

record core_event =
  ceAppName :: string
  ceArgocdUrl :: "string option"
  ceBackend :: string
  ceGroupKey :: string
  ceHealthStatus :: "string option"
  ceImages :: "string list option"
  ceInitiatedBy :: "string option"
  ceLabels :: "(string, string) gomap option"
  ceOperationMessage :: "string option"
  ceRecipient :: string
  ceRepoURL :: "string option"
  ceRevision :: string
  ceSyncPhase :: "string option"
  ceSyncStatus :: "string option"
  ceTarget :: "string option"
  ceTargetRevision :: "string option"
  ceTrigger :: string

text \<open>\<open>Marshal\<close> writes the keys of a map in their order.\<close>

definition string_map_json :: "(string, string) gomap \<Rightarrow> json" where
  "string_map_json m = JObj (map (\<lambda>(k, v). (k, JStr v)) (sort_key fst m))"

definition core_event_json :: "core_event \<Rightarrow> json" where
  "core_event_json e = JObj
     ([(''appName'', JStr (ceAppName e))] @ opt_member ''argocdUrl'' JStr (ceArgocdUrl e) @
      [(''backend'', JStr (ceBackend e)), (''groupKey'', JStr (ceGroupKey e))] @
      opt_member ''healthStatus'' JStr (ceHealthStatus e) @ opt_member ''images'' strings_json (ceImages e) @
      opt_member ''initiatedBy'' JStr (ceInitiatedBy e) @ opt_member ''labels'' string_map_json (ceLabels e) @
      opt_member ''operationMessage'' JStr (ceOperationMessage e) @
      [(''recipient'', JStr (ceRecipient e))] @ opt_member ''repoURL'' JStr (ceRepoURL e) @
      [(''revision'', JStr (ceRevision e))] @ opt_member ''syncPhase'' JStr (ceSyncPhase e) @
      opt_member ''syncStatus'' JStr (ceSyncStatus e) @ opt_member ''target'' JStr (ceTarget e) @
      opt_member ''targetRevision'' JStr (ceTargetRevision e) @ [(''trigger'', JStr (ceTrigger e))])"

section \<open>The requests of the client\<close>

definition new_get_request :: "(string \<Rightarrow> string \<Rightarrow> string option) \<Rightarrow> string \<Rightarrow> string \<Rightarrow> http_request option" where
  "new_get_request resolve server operationPath =
     (case resolve server (if operationPath \<noteq> [] \<and> hd operationPath = CHR ''/''
                           then CHR ''.'' # operationPath else operationPath) of
        None \<Rightarrow> None
      | Some u \<Rightarrow> Some \<lparr>rqMethod = ''GET'', rqURL = u, rqHeader = [], rqBody = []\<rparr>)"

definition NewSubmitEventRequest :: "(string \<Rightarrow> string \<Rightarrow> string option) \<Rightarrow> string \<Rightarrow> core_event \<Rightarrow> http_request option" where
  "NewSubmitEventRequest resolve server e =
     new_json_request resolve server ''/events'' (json_text (core_event_json e))"

definition NewHealthzRequest :: "(string \<Rightarrow> string \<Rightarrow> string option) \<Rightarrow> string \<Rightarrow> http_request option" where
  "NewHealthzRequest resolve server = new_get_request resolve server ''/healthz''"

definition NewReadyzRequest :: "(string \<Rightarrow> string \<Rightarrow> string option) \<Rightarrow> string \<Rightarrow> http_request option" where
  "NewReadyzRequest resolve server = new_get_request resolve server ''/readyz''"

section \<open>The router\<close>

definition core_routes :: "string \<Rightarrow> 'w handler_func \<Rightarrow> 'w handler_func \<Rightarrow> 'w handler_func \<Rightarrow> 'w handler_func \<Rightarrow> 'w route list" where
  "core_routes baseURL submitEvent healthz readyz registerBackend =
     [(Some ''POST'', baseURL @ ''/events'', submitEvent),
      (Some ''GET'', baseURL @ ''/healthz'', healthz),
      (Some ''GET'', baseURL @ ''/readyz'', readyz),
      (Some ''POST'', baseURL @ ''/v1/backends/register'', registerBackend)]"

section \<open>The contract and the event the core reads\<close>

definition event_of :: "core_event \<Rightarrow> event" where
  "event_of e = \<lparr>evGroupKey = ceGroupKey e, evAppName = ceAppName e, evTrigger = ceTrigger e,
     evRevision = ceRevision e, evRecipient = ceRecipient e, evBackend = ceBackend e,
     evLabels = or_zero (map_option (sort_key fst) (ceLabels e)), evTarget = or_zero (ceTarget e),
     evHealthStatus = or_zero (ceHealthStatus e), evSyncPhase = or_zero (ceSyncPhase e),
     evSyncStatus = or_zero (ceSyncStatus e), evOperationMsg = or_zero (ceOperationMessage e),
     evRepoURL = or_zero (ceRepoURL e), evImages = or_zero (ceImages e),
     evInitiatedBy = or_zero (ceInitiatedBy e), evArgoCDURL = or_zero (ceArgocdUrl e),
     evTargetRevision = or_zero (ceTargetRevision e)\<rparr>"

definition event_fields :: "(string \<times> event field_decoder) list" where
  "event_fields =
     [(''groupKey'', decode_field evGroupKey (\<lambda>x. evGroupKey_update (\<lambda>_. x)) decode_string),
      (''appName'', decode_field evAppName (\<lambda>x. evAppName_update (\<lambda>_. x)) decode_string),
      (''trigger'', decode_field evTrigger (\<lambda>x. evTrigger_update (\<lambda>_. x)) decode_string),
      (''revision'', decode_field evRevision (\<lambda>x. evRevision_update (\<lambda>_. x)) decode_string),
      (''recipient'', decode_field evRecipient (\<lambda>x. evRecipient_update (\<lambda>_. x)) decode_string),
      (''backend'', decode_field evBackend (\<lambda>x. evBackend_update (\<lambda>_. x)) decode_string),
      (''labels'', decode_field evLabels (\<lambda>x. evLabels_update (\<lambda>_. x)) decode_string_map),
      (''target'', decode_field evTarget (\<lambda>x. evTarget_update (\<lambda>_. x)) decode_string),
      (''healthStatus'', decode_field evHealthStatus (\<lambda>x. evHealthStatus_update (\<lambda>_. x)) decode_string),
      (''syncPhase'', decode_field evSyncPhase (\<lambda>x. evSyncPhase_update (\<lambda>_. x)) decode_string),
      (''syncStatus'', decode_field evSyncStatus (\<lambda>x. evSyncStatus_update (\<lambda>_. x)) decode_string),
      (''operationMessage'', decode_field evOperationMsg (\<lambda>x. evOperationMsg_update (\<lambda>_. x)) decode_string),
      (''repoURL'', decode_field evRepoURL (\<lambda>x. evRepoURL_update (\<lambda>_. x)) decode_string),
      (''images'', decode_field evImages (\<lambda>x. evImages_update (\<lambda>_. x)) (decode_slice [] decode_string)),
      (''initiatedBy'', decode_field evInitiatedBy (\<lambda>x. evInitiatedBy_update (\<lambda>_. x)) decode_string),
      (''argocdUrl'', decode_field evArgoCDURL (\<lambda>x. evArgoCDURL_update (\<lambda>_. x)) decode_string),
      (''targetRevision'', decode_field evTargetRevision (\<lambda>x. evTargetRevision_update (\<lambda>_. x)) decode_string)]"

lemma decode_event_struct: "decode_event = decode_struct event_fields"
  by (simp only: decode_event_def event_fields_def)

lemma event_fields_wf: "fields_wf event_fields"
  by (rule fields_wf_names) (unfold event_fields_def list.map fst_conv, code_simp)

text \<open>An optional member of the wire sets a plain field, or leaves it empty.\<close>

lemma decode_plain_opt:
  assumes "(k, decode_field get put dec) \<in> set event_fields"
    and "\<And>x. p = Some x \<Longrightarrow> dec (enc x) (get r) = Some (f x)" and "put [] r = r"
  shows "decode_members event_fields (opt_member k enc p) r = Some (put (or_zero (map_option f p)) r)"
  using assms decode_member [OF event_fields_wf assms(1)]
  by (cases p) (simp_all add: opt_member_def decode_field_def)

lemma decode_entries_text:
  "distinct (map fst m @ map fst kvs) \<Longrightarrow> decode_entries (map (\<lambda>(k, v). (k, JStr v)) kvs) m = Some (m @ kvs)"
proof (induction kvs arbitrary: m)
  case (Cons kv kvs)
  then have "gput (fst kv) (snd kv) m = m @ [kv]" by (cases kv) (simp add: gput_new)
  with Cons show ?case by (cases kv) simp
qed simp

lemma decode_string_map_json: "gwf m \<Longrightarrow> decode_string_map (string_map_json m) [] = Some (sort_key fst m)"
proof -
  assume "gwf m"
  moreover have "mset (map fst (sort_key fst m)) = mset (map fst m)" by simp
  ultimately have "distinct (map fst (sort_key fst m))" using mset_eq_imp_distinct_iff by blast
  then show ?thesis
    using decode_entries_text [of "[]" "sort_key fst m"] by (simp add: decode_string_map_def string_map_json_def)
qed

lemma event_mem:
  "(''groupKey'', decode_field evGroupKey (\<lambda>x. evGroupKey_update (\<lambda>_. x)) decode_string) \<in> set event_fields"
  "(''appName'', decode_field evAppName (\<lambda>x. evAppName_update (\<lambda>_. x)) decode_string) \<in> set event_fields"
  "(''trigger'', decode_field evTrigger (\<lambda>x. evTrigger_update (\<lambda>_. x)) decode_string) \<in> set event_fields"
  "(''revision'', decode_field evRevision (\<lambda>x. evRevision_update (\<lambda>_. x)) decode_string) \<in> set event_fields"
  "(''recipient'', decode_field evRecipient (\<lambda>x. evRecipient_update (\<lambda>_. x)) decode_string) \<in> set event_fields"
  "(''backend'', decode_field evBackend (\<lambda>x. evBackend_update (\<lambda>_. x)) decode_string) \<in> set event_fields"
  by (simp_all add: event_fields_def)

lemmas event_step = event_mem [THEN decode_member_Cons [OF event_fields_wf]]

lemma event_opt_mem:
  "(''target'', decode_field evTarget (\<lambda>x. evTarget_update (\<lambda>_. x)) decode_string) \<in> set event_fields"
  "(''healthStatus'', decode_field evHealthStatus (\<lambda>x. evHealthStatus_update (\<lambda>_. x)) decode_string) \<in> set event_fields"
  "(''syncPhase'', decode_field evSyncPhase (\<lambda>x. evSyncPhase_update (\<lambda>_. x)) decode_string) \<in> set event_fields"
  "(''syncStatus'', decode_field evSyncStatus (\<lambda>x. evSyncStatus_update (\<lambda>_. x)) decode_string) \<in> set event_fields"
  "(''operationMessage'', decode_field evOperationMsg (\<lambda>x. evOperationMsg_update (\<lambda>_. x)) decode_string) \<in> set event_fields"
  "(''repoURL'', decode_field evRepoURL (\<lambda>x. evRepoURL_update (\<lambda>_. x)) decode_string) \<in> set event_fields"
  "(''initiatedBy'', decode_field evInitiatedBy (\<lambda>x. evInitiatedBy_update (\<lambda>_. x)) decode_string) \<in> set event_fields"
  "(''argocdUrl'', decode_field evArgoCDURL (\<lambda>x. evArgoCDURL_update (\<lambda>_. x)) decode_string) \<in> set event_fields"
  "(''targetRevision'', decode_field evTargetRevision (\<lambda>x. evTargetRevision_update (\<lambda>_. x)) decode_string) \<in> set event_fields"
  "(''images'', decode_field evImages (\<lambda>x. evImages_update (\<lambda>_. x)) (decode_slice [] decode_string)) \<in> set event_fields"
  "(''labels'', decode_field evLabels (\<lambda>x. evLabels_update (\<lambda>_. x)) decode_string_map) \<in> set event_fields"
  by (simp_all add: event_fields_def)

lemma decode_event_opts:
  "evTarget r = [] \<Longrightarrow> decode_members event_fields (opt_member ''target'' JStr p) r = Some (r\<lparr>evTarget := or_zero p\<rparr>)"
  "evHealthStatus r = [] \<Longrightarrow> decode_members event_fields (opt_member ''healthStatus'' JStr p) r = Some (r\<lparr>evHealthStatus := or_zero p\<rparr>)"
  "evSyncPhase r = [] \<Longrightarrow> decode_members event_fields (opt_member ''syncPhase'' JStr p) r = Some (r\<lparr>evSyncPhase := or_zero p\<rparr>)"
  "evSyncStatus r = [] \<Longrightarrow> decode_members event_fields (opt_member ''syncStatus'' JStr p) r = Some (r\<lparr>evSyncStatus := or_zero p\<rparr>)"
  "evOperationMsg r = [] \<Longrightarrow> decode_members event_fields (opt_member ''operationMessage'' JStr p) r = Some (r\<lparr>evOperationMsg := or_zero p\<rparr>)"
  "evRepoURL r = [] \<Longrightarrow> decode_members event_fields (opt_member ''repoURL'' JStr p) r = Some (r\<lparr>evRepoURL := or_zero p\<rparr>)"
  "evInitiatedBy r = [] \<Longrightarrow> decode_members event_fields (opt_member ''initiatedBy'' JStr p) r = Some (r\<lparr>evInitiatedBy := or_zero p\<rparr>)"
  "evArgoCDURL r = [] \<Longrightarrow> decode_members event_fields (opt_member ''argocdUrl'' JStr p) r = Some (r\<lparr>evArgoCDURL := or_zero p\<rparr>)"
  "evTargetRevision r = [] \<Longrightarrow> decode_members event_fields (opt_member ''targetRevision'' JStr p) r = Some (r\<lparr>evTargetRevision := or_zero p\<rparr>)"
  "evImages r = [] \<Longrightarrow> decode_members event_fields (opt_member ''images'' strings_json t) r = Some (r\<lparr>evImages := or_zero t\<rparr>)"
  "evLabels r = [] \<Longrightarrow> pred_option gwf q \<Longrightarrow> decode_members event_fields (opt_member ''labels'' string_map_json q) r =
     Some (r\<lparr>evLabels := or_zero (map_option (sort_key fst) q)\<rparr>)"
  subgoal using decode_plain_opt [OF event_opt_mem(1), of p JStr r "\<lambda>x. x"] by (simp add: option.map_ident)
  subgoal using decode_plain_opt [OF event_opt_mem(2), of p JStr r "\<lambda>x. x"] by (simp add: option.map_ident)
  subgoal using decode_plain_opt [OF event_opt_mem(3), of p JStr r "\<lambda>x. x"] by (simp add: option.map_ident)
  subgoal using decode_plain_opt [OF event_opt_mem(4), of p JStr r "\<lambda>x. x"] by (simp add: option.map_ident)
  subgoal using decode_plain_opt [OF event_opt_mem(5), of p JStr r "\<lambda>x. x"] by (simp add: option.map_ident)
  subgoal using decode_plain_opt [OF event_opt_mem(6), of p JStr r "\<lambda>x. x"] by (simp add: option.map_ident)
  subgoal using decode_plain_opt [OF event_opt_mem(7), of p JStr r "\<lambda>x. x"] by (simp add: option.map_ident)
  subgoal using decode_plain_opt [OF event_opt_mem(8), of p JStr r "\<lambda>x. x"] by (simp add: option.map_ident)
  subgoal using decode_plain_opt [OF event_opt_mem(9), of p JStr r "\<lambda>x. x"] by (simp add: option.map_ident)
  subgoal using decode_plain_opt [OF event_opt_mem(10), of t strings_json r "\<lambda>x. x"] by (simp add: option.map_ident decode_strings)
  subgoal by (rule decode_plain_opt [OF event_opt_mem(11)]) (auto simp: decode_string_map_json)
  done

lemma decode_core_event:
  assumes "pred_option gwf (ceLabels e)"
  shows "decode_event (core_event_json e) zero_event = Some (event_of e)"
  using assms
  by (cases e) (simp add: core_event_json_def decode_event_struct decode_struct_def zero_event_def event_step
      decode_members_append decode_event_opts decode_field_def event_of_def del: decode_members.simps(2))

definition labels_utf8 :: "(string, string) gomap \<Rightarrow> bool" where
  "labels_utf8 m \<longleftrightarrow> list_all (\<lambda>(k, v). utf8_valid k \<and> utf8_valid v) m"

definition core_event_ok :: "core_event \<Rightarrow> bool" where
  "core_event_ok e \<longleftrightarrow>
     list_all utf8_valid [ceAppName e, ceBackend e, ceGroupKey e, ceRecipient e, ceRevision e, ceTrigger e] \<and>
     list_all (pred_option utf8_valid) [ceArgocdUrl e, ceHealthStatus e, ceInitiatedBy e, ceOperationMessage e,
       ceRepoURL e, ceSyncPhase e, ceSyncStatus e, ceTarget e, ceTargetRevision e] \<and>
     pred_option (list_all utf8_valid) (ceImages e) \<and>
     pred_option labels_utf8 (ceLabels e) \<and> pred_option gwf (ceLabels e)"

lemma event_names_utf8:
  "list_all utf8_valid [''appName'', ''argocdUrl'', ''backend'', ''groupKey'', ''healthStatus'', ''images'', ''initiatedBy'',
     ''labels'', ''operationMessage'', ''recipient'', ''repoURL'', ''revision'', ''syncPhase'', ''syncStatus'', ''target'',
     ''targetRevision'', ''trigger'']"
  by code_simp

lemma string_map_json_ok: "labels_utf8 m \<Longrightarrow> json_ok (string_map_json m)"
  by (auto simp: labels_utf8_def string_map_json_def list_all_iff)

lemma strings_json_ok: "list_all utf8_valid ss \<Longrightarrow> json_ok (strings_json ss)"
  by (simp add: strings_json_def list_all_iff)

lemma core_event_json_ok: "core_event_ok e \<Longrightarrow> json_ok (core_event_json e)"
  using event_names_utf8
  by (auto simp: core_event_ok_def core_event_json_def json_ok_opt_member option.pred_set
      intro: string_map_json_ok strings_json_ok)

lemma core_event_json_depth: "json_depth (core_event_json e) \<le> Suc (Suc 0)"
proof -
  have "json_depth (strings_json ss) \<le> Suc 0" "json_depth (string_map_json m) \<le> Suc 0" for ss m
    by (auto simp: strings_json_def string_map_json_def json_depth_JArr json_depth_JObj simp del: json_depth.simps(1,2))
  then show ?thesis
    by (auto simp: core_event_json_def json_depth_JObj mem_opt_member simp del: json_depth.simps(1,2))
qed

text \<open>
  The published event type and the event the core decodes agree: what a client of the contract
  marshals is read back with every field in its place, absent optional fields empty.
\<close>

lemma event_contract:
  assumes "core_event_ok e" and "length (json_text (core_event_json e)) \<le> maxBodyBytes"
  shows "decode_body decode_event zero_event (json_text (core_event_json e)) = Some (event_of e)"
proof -
  have "json_depth (core_event_json e) \<le> max_depth" using core_event_json_depth [of e] by (simp add: max_depth_def)
  moreover have "pred_option gwf (ceLabels e)" using assms(1) by (simp add: core_event_ok_def)
  ultimately show ?thesis
    using assms by (simp add: decode_body_text core_event_json_ok decode_core_event)
qed

text \<open>A sample event on the wire.\<close>

definition sample_core_event :: core_event where
  "sample_core_event = \<lparr>ceAppName = ''a'', ceArgocdUrl = None, ceBackend = ''slack'', ceGroupKey = ''g'',
     ceHealthStatus = None, ceImages = Some [''img:1''], ceInitiatedBy = None,
     ceLabels = Some [(''team'', ''x''), (''env'', ''y'')], ceOperationMessage = None, ceRecipient = ''ops'', ceRepoURL = None,
     ceRevision = ''r1'', ceSyncPhase = None, ceSyncStatus = None, ceTarget = Some ''prod'', ceTargetRevision = None,
     ceTrigger = ''on-deployed''\<rparr>"

lemma sample_core_event_ok:
  "core_event_ok sample_core_event" "length (json_text (core_event_json sample_core_event)) \<le> maxBodyBytes"
proof -
  have "list_all utf8_valid [''a'', ''slack'', ''g'', ''ops'', ''r1'', ''on-deployed'', ''img:1'', ''team'', ''x'', ''env'', ''y'', ''prod'']"
    by code_simp
  then show "core_event_ok sample_core_event"
    by (simp add: core_event_ok_def sample_core_event_def labels_utf8_def)
  have "length (json_text (core_event_json sample_core_event)) \<le> 1000" by code_simp
  then show "length (json_text (core_event_json sample_core_event)) \<le> maxBodyBytes" by (simp add: maxBodyBytes_def)
qed

lemma event_contract_witness:
  "map_option evLabels (decode_body decode_event zero_event (json_text (core_event_json sample_core_event))) =
     Some [(''env'', ''y''), (''team'', ''x'')]"
proof -
  have "evLabels (event_of sample_core_event) = [(''env'', ''y''), (''team'', ''x'')]" by code_simp
  then show ?thesis using event_contract [OF sample_core_event_ok] by simp
qed

text \<open>The first of the sample events, as it is sent.\<close>

definition created_on_wire :: core_event where
  "created_on_wire = \<lparr>ceAppName = ''a'', ceArgocdUrl = None, ceBackend = ''slack'', ceGroupKey = ''g'',
     ceHealthStatus = None, ceImages = None, ceInitiatedBy = None, ceLabels = None, ceOperationMessage = None,
     ceRecipient = ''ops'', ceRepoURL = None, ceRevision = ''r1'', ceSyncPhase = None, ceSyncStatus = None,
     ceTarget = None, ceTargetRevision = None, ceTrigger = ''on-created''\<rparr>"

lemma created_on_wire_ok:
  "core_event_ok created_on_wire" "length (json_text (core_event_json created_on_wire)) \<le> maxBodyBytes"
  "event_of created_on_wire = created"
proof -
  have "list_all utf8_valid [''a'', ''slack'', ''g'', ''ops'', ''r1'', ''on-created'']" by code_simp
  then show "core_event_ok created_on_wire" by (simp add: core_event_ok_def created_on_wire_def)
  have "length (json_text (core_event_json created_on_wire)) \<le> 1000" by code_simp
  then show "length (json_text (core_event_json created_on_wire)) \<le> maxBodyBytes" by (simp add: maxBodyBytes_def)
qed (simp add: event_of_def created_on_wire_def sample_event_def zero_event_def)

end
