(* ===== verification/Receiver.thy ===== *)
theory Receiver
  imports CoreApi
begin

text \<open>
  Package \<open>internal/receiver\<close>: the endpoint that takes events, the channel behind it, and the
  workers that drain the channel into the engine.

  The channel is its buffer and its capacity. A worker is about to receive (\<open>Ready\<close>), parked in
  its \<open>select\<close> (\<open>Waiting\<close>), inside \<open>ingest\<close> (\<open>Busy\<close>), or has returned (\<open>Stopped\<close>); \<open>plIngested\<close>
  are the events ingested so far. The goroutines interleave as a step relation.
\<close>

datatype worker = Ready | Waiting | Busy event | Stopped

record pool =
  plCap :: nat
  plBuf :: "event list"
  plWorkers :: "worker list"
  plIngested :: "event list"
  plCancelled :: bool

section \<open>The endpoint\<close>

text \<open>\<open>make(chan event.Event, queueSize)\<close> panics for a negative size.\<close>

definition receiver_NewHandler :: "int \<Rightarrow> pool option" where
  "receiver_NewHandler queueSize =
     (if queueSize < 0 then None
      else Some \<lparr>plCap = nat queueSize, plBuf = [], plWorkers = [], plIngested = [], plCancelled = False\<rparr>)"

definition RunWorkers :: "int \<Rightarrow> pool \<Rightarrow> pool" where
  "RunWorkers n p = p\<lparr>plWorkers := plWorkers p @ replicate (nat n) Ready\<rparr>"

text \<open>A send goes to a worker that waits for it.\<close>

fun hand_over :: "event \<Rightarrow> worker list \<Rightarrow> worker list option" where
  "hand_over ev [] = None"
| "hand_over ev (Waiting # ws) = Some (Busy ev # ws)"
| "hand_over ev (w # ws) = map_option ((#) w) (hand_over ev ws)"

text \<open>The send of a \<open>select\<close> with a default: it does not block.\<close>

definition try_send :: "event \<Rightarrow> pool \<Rightarrow> pool option" where
  "try_send ev p =
     (case hand_over ev (plWorkers p) of
        Some ws \<Rightarrow> Some (p\<lparr>plWorkers := ws\<rparr>)
      | None \<Rightarrow> if length (plBuf p) < plCap p then Some (p\<lparr>plBuf := plBuf p @ [ev]\<rparr>) else None)"

definition event_error_text :: "event_error \<Rightarrow> string" where
  "event_error_text e = (case e of
       ErrMissingGroupKey \<Rightarrow> ''MissingGroupKey'' | ErrMissingAppName \<Rightarrow> ''MissingAppName''
     | ErrMissingTrigger \<Rightarrow> ''MissingTrigger'' | ErrMissingRevision \<Rightarrow> ''MissingRevision''
     | ErrMissingRecipient \<Rightarrow> ''MissingRecipient'' | ErrMissingBackend \<Rightarrow> ''MissingBackend'')"

definition accepted_response :: http_response where
  "accepted_response = \<lparr>rsStatus = 202, rsContentType = ''application/json'',
     rsBody = ''{\"status\":\"accepted\"}''\<rparr>"

definition receiver_ServeHTTP :: "(string \<Rightarrow> string) \<Rightarrow> string \<Rightarrow> pool \<Rightarrow> http_response \<times> pool" where
  "receiver_ServeHTTP decode_error body p =
     (case decode_body decode_event zero_event body of
        None \<Rightarrow> (http_error (''invalid payload: '' @ decode_error body) 400, p)
      | Some ev \<Rightarrow>
          if event_validate ev \<noteq> []
          then (http_error (''invalid event: '' @ join [CHR 0x0A] (map event_error_text (event_validate ev))) 400, p)
          else (case try_send ev p of
                  Some p \<Rightarrow> (accepted_response, p)
                | None \<Rightarrow> (http_error ''queue full'' 503, p)))"

section \<open>The workers\<close>

text \<open>The events an answer accepts.\<close>

definition accepted :: "string \<Rightarrow> http_response \<Rightarrow> event list" where
  "accepted body rsp = (if rsStatus rsp = 202
     then case decode_body decode_event zero_event body of None \<Rightarrow> [] | Some ev \<Rightarrow> [ev] else [])"

text \<open>
  One step, with the events it accepts. When its context is done a worker that is not busy may
  return, although it may also go on to receive: \<open>select\<close> chooses at random.
\<close>

inductive pool_step :: "pool \<Rightarrow> event list \<Rightarrow> pool \<Rightarrow> bool" where
  request: "receiver_ServeHTTP decode_error body p = (rsp, p') \<Longrightarrow> pool_step p (accepted body rsp) p'"
| wait: "plWorkers p = pre @ Ready # post \<Longrightarrow> plBuf p = [] \<Longrightarrow> \<not> plCancelled p \<Longrightarrow>
     pool_step p [] (p\<lparr>plWorkers := pre @ Waiting # post\<rparr>)"
| take_event: "plWorkers p = pre @ Ready # post \<Longrightarrow> plBuf p = ev # buf \<Longrightarrow>
     pool_step p [] (p\<lparr>plWorkers := pre @ Busy ev # post, plBuf := buf\<rparr>)"
| finish: "plWorkers p = pre @ Busy ev # post \<Longrightarrow>
     pool_step p [] (p\<lparr>plWorkers := pre @ Ready # post, plIngested := plIngested p @ [ev]\<rparr>)"
| cancel: "pool_step p [] (p\<lparr>plCancelled := True\<rparr>)"
| stop: "plWorkers p = pre @ w # post \<Longrightarrow> w = Ready \<or> w = Waiting \<Longrightarrow> plCancelled p \<Longrightarrow>
     pool_step p [] (p\<lparr>plWorkers := pre @ Stopped # post\<rparr>)"

inductive pool_run :: "pool \<Rightarrow> event list \<Rightarrow> pool \<Rightarrow> bool" for p0 where
  start: "pool_run p0 [] p0"
| step: "pool_run p0 evs p \<Longrightarrow> pool_step p evs' p' \<Longrightarrow> pool_run p0 (evs @ evs') p'"

inductive_cases pool_stepE: "pool_step p evs p'"

lemma pool_run_trans: "pool_run p1 evs' p2 \<Longrightarrow> pool_run p0 evs p1 \<Longrightarrow> pool_run p0 (evs @ evs') p2"
  by (induction rule: pool_run.induct) (auto simp flip: append_assoc intro: pool_run.step)

lemma pool_run_silent: "pool_run p0 evs p \<Longrightarrow> pool_step p [] p' \<Longrightarrow> pool_run p0 evs p'"
  using pool_run.step [of p0 evs p "[]" p'] by simp

text \<open>What the workers are ingesting.\<close>

definition in_work :: "worker list \<Rightarrow> event list" where
  "in_work ws = concat (map (\<lambda>w. case w of Busy ev \<Rightarrow> [ev] | _ \<Rightarrow> []) ws)"

lemma in_work_simps [simp]:
  "in_work [] = []" "in_work (Busy ev # ws) = ev # in_work ws" "in_work (Ready # ws) = in_work ws"
  "in_work (Waiting # ws) = in_work ws" "in_work (Stopped # ws) = in_work ws"
  "in_work (us @ ws) = in_work us @ in_work ws" "in_work (replicate n Ready) = []"
  by (simp_all add: in_work_def)

section \<open>Sending\<close>

lemma hand_over_None: "hand_over ev ws = None \<longleftrightarrow> Waiting \<notin> set ws"
  by (induction ev ws rule: hand_over.induct) auto

lemma hand_over_Some:
  "hand_over ev ws = Some ws' \<Longrightarrow> \<exists>pre post. ws = pre @ Waiting # post \<and> ws' = pre @ Busy ev # post"
proof (induction ev ws arbitrary: ws' rule: hand_over.induct)
  case (2 ev ws)
  then show ?case by (metis append_Nil hand_over.simps(2) option.inject)
qed (fastforce intro: exI [of _ "_ # _"])+

lemma try_send_cases:
  assumes "try_send ev p = Some p'"
  obtains (handed) pre post where "plWorkers p = pre @ Waiting # post" "p' = p\<lparr>plWorkers := pre @ Busy ev # post\<rparr>"
    | (queued) "Waiting \<notin> set (plWorkers p)" "length (plBuf p) < plCap p" "p' = p\<lparr>plBuf := plBuf p @ [ev]\<rparr>"
proof (cases "hand_over ev (plWorkers p)")
  case None
  with assms have "length (plBuf p) < plCap p" "p' = p\<lparr>plBuf := plBuf p @ [ev]\<rparr>"
    by (simp_all add: try_send_def split: if_splits)
  with None show ?thesis by (intro queued) (simp_all add: hand_over_None)
next
  case (Some ws)
  then obtain pre post where "plWorkers p = pre @ Waiting # post" "ws = pre @ Busy ev # post"
    using hand_over_Some by blast
  with Some assms show ?thesis by (intro handed) (auto simp: try_send_def)
qed

lemma request_cases:
  assumes "receiver_ServeHTTP decode_error body p = (rsp, p')"
  obtains (refused) "rsStatus rsp \<noteq> 202" "p' = p" "accepted body rsp = []"
    | (sent) ev where "rsp = accepted_response" "accepted body rsp = [ev]" "try_send ev p = Some p'"
      "event_validate ev = []" "decode_body decode_event zero_event body = Some ev"
proof (cases "decode_body decode_event zero_event body")
  case None
  with assms show ?thesis by (intro refused) (auto simp: receiver_ServeHTTP_def http_error_def accepted_def)
next
  case (Some ev)
  show ?thesis
  proof (cases "event_validate ev = [] \<and> try_send ev p \<noteq> None")
    case True
    then obtain q where "try_send ev p = Some q" "event_validate ev = []" by auto
    with Some assms show ?thesis
      by (intro sent [of ev]) (auto simp: receiver_ServeHTTP_def accepted_def accepted_response_def)
  next
    case False
    with Some assms have "rsStatus rsp \<noteq> 202 \<and> p' = p"
      by (cases "event_validate ev = []") (auto simp: receiver_ServeHTTP_def http_error_def)
    with Some show ?thesis by (intro refused) (simp_all add: accepted_def)
  qed
qed

text \<open>Every answer of the endpoint, with what it changes.\<close>

lemma receiver_answers:
  "receiver_ServeHTTP decode_error body p =
    (case decode_body decode_event zero_event body of
       None \<Rightarrow> (http_error (''invalid payload: '' @ decode_error body) 400, p)
     | Some ev \<Rightarrow>
         if \<exists>(err, field) \<in> set required_fields. field ev = []
         then (http_error (''invalid event: '' @ join [CHR 0x0A] (map (\<lambda>(err, field). event_error_text err)
                (filter (\<lambda>(err, field). field ev = []) required_fields))) 400, p)
         else if Waiting \<in> set (plWorkers p) \<or> length (plBuf p) < plCap p
         then (accepted_response, the (try_send ev p))
         else (http_error ''queue full'' 503, p))"
proof (cases "decode_body decode_event zero_event body")
  case None
  then show ?thesis by (simp add: receiver_ServeHTTP_def)
next
  case (Some ev)
  have send: "try_send ev p = None \<longleftrightarrow> \<not> (Waiting \<in> set (plWorkers p) \<or> length (plBuf p) < plCap p)"
    using hand_over_None [of ev "plWorkers p"] by (auto simp: try_send_def split: option.split)
  have valid: "event_validate ev \<noteq> [] \<longleftrightarrow> (\<exists>(err, field) \<in> set required_fields. field ev = [])"
    by (auto simp: event_validate_Nil_iff)
  show ?thesis
  proof (cases "event_validate ev = []")
    case True
    with Some valid send show ?thesis by (cases "try_send ev p") (auto simp: receiver_ServeHTTP_def)
  next
    case False
    then have "map event_error_text (event_validate ev) = map (\<lambda>(err, field). event_error_text err)
        (filter (\<lambda>(err, field). field ev = []) required_fields)" by (simp add: event_validate_spec)
    with Some False valid show ?thesis by (simp add: receiver_ServeHTTP_def)
  qed
qed

section \<open>No event is lost while the workers run\<close>

definition pool_ok :: "int \<Rightarrow> int \<Rightarrow> event list \<Rightarrow> pool \<Rightarrow> bool" where
  "pool_ok cap n evs p \<longleftrightarrow> plCap p = nat cap \<and> length (plWorkers p) = nat n \<and> length (plBuf p) \<le> nat cap \<and>
     (Waiting \<in> set (plWorkers p) \<longrightarrow> plBuf p = []) \<and> (Stopped \<in> set (plWorkers p) \<longrightarrow> plCancelled p) \<and>
     mset evs = mset (plIngested p) + mset (in_work (plWorkers p)) + mset (plBuf p) \<and>
     (n = 1 \<longrightarrow> evs = plIngested p @ in_work (plWorkers p) @ plBuf p)"

definition start_pool :: "int \<Rightarrow> int \<Rightarrow> pool" where
  "start_pool cap n = RunWorkers n \<lparr>plCap = nat cap, plBuf = [], plWorkers = [], plIngested = [], plCancelled = False\<rparr>"

lemma start_pool_handler: "0 \<le> cap \<Longrightarrow> map_option (RunWorkers n) (receiver_NewHandler cap) = Some (start_pool cap n)"
  by (simp add: start_pool_def receiver_NewHandler_def)

lemma pool_ok_start: "pool_ok cap n [] (start_pool cap n)"
  by (simp add: pool_ok_def start_pool_def RunWorkers_def)

lemma one_worker:
  "length (pre @ w # post) = nat 1 \<Longrightarrow> pre = [] \<and> post = []"
  by simp

lemma pool_ok_step:
  assumes "pool_ok cap n evs p" and "pool_step p evs' p'"
  shows "pool_ok cap n (evs @ evs') p'"
  using assms(2)
proof cases
  case (request decode_error body rsp)
  show ?thesis
    using request(2)
  proof (cases rule: request_cases)
    case refused
    with assms(1) request show ?thesis by simp
  next
    case (sent ev)
    show ?thesis
      using sent(3)
    proof (cases rule: try_send_cases)
      case (handed pre post)
      with assms(1) sent(2) request(1) show ?thesis by (cases "n = 1") (auto simp: pool_ok_def)
    next
      case queued
      with assms(1) sent(2) request(1) show ?thesis by (auto simp: pool_ok_def)
    qed
  qed
next
  case (wait pre post)
  with assms(1) show ?thesis by (cases "n = 1") (auto simp: pool_ok_def)
next
  case (take_event pre post ev buf)
  with assms(1) show ?thesis by (cases "n = 1") (auto simp: pool_ok_def)
next
  case (finish pre ev post)
  with assms(1) show ?thesis by (cases "n = 1") (auto simp: pool_ok_def)
next
  case cancel
  with assms(1) show ?thesis by (simp add: pool_ok_def)
next
  case (stop pre w post)
  with assms(1) show ?thesis by (cases "n = 1") (auto simp: pool_ok_def)
qed

lemma pool_ok_run: "pool_run (start_pool cap n) evs p \<Longrightarrow> pool_ok cap n evs p"
  by (induction rule: pool_run.induct) (auto intro: pool_ok_start pool_ok_step)

text \<open>
  In every run of endpoint and workers the events answered with 202 are, as a multiset,
  those ingested, those being ingested and those in the channel, which never holds more than
  its capacity.
\<close>

lemma accepted_events_kept:
  assumes "pool_run (start_pool cap n) evs p"
  shows "mset evs = mset (plIngested p) + mset (in_work (plWorkers p)) + mset (plBuf p) \<and>
    length (plBuf p) \<le> nat cap \<and> length (in_work (plWorkers p)) \<le> nat n"
proof -
  have "length (in_work ws) \<le> length ws" for ws
  proof (induction ws)
    case (Cons w ws)
    then show ?case by (cases w) auto
  qed simp
  from this [of "plWorkers p"] pool_ok_run [OF assms] show ?thesis by (simp add: pool_ok_def)
qed

text \<open>One worker ingests in the order of the answers.\<close>

lemma one_worker_keeps_order:
  assumes "pool_run (start_pool cap 1) evs p"
  shows "evs = plIngested p @ in_work (plWorkers p) @ plBuf p"
  using pool_ok_run [OF assms] by (simp add: pool_ok_def)

section \<open>The workers drain the channel\<close>

lemma in_work_split: "in_work ws \<noteq> [] \<Longrightarrow> \<exists>pre ev post. ws = pre @ Busy ev # post"
proof (induction ws)
  case (Cons w ws)
  show ?case
  proof (cases w)
    case (Busy ev)
    then show ?thesis by (metis append_Nil)
  qed (use Cons in \<open>auto, (metis append_Cons)+\<close>)
qed simp

lemma idle_ready:
  assumes "in_work ws = []" and "Waiting \<notin> set ws" and "Stopped \<notin> set ws" and "w \<in> set ws"
  shows "w = Ready"
proof -
  obtain pre post where "ws = pre @ w # post" using split_list [OF assms(4)] by blast
  with assms show ?thesis by (cases w) auto
qed

lemma drain:
  assumes "pool_ok cap n evs p" and "0 < n" and "\<not> plCancelled p"
  shows "\<exists>p'. pool_run p [] p' \<and> plBuf p' = [] \<and> in_work (plWorkers p') = [] \<and> pool_ok cap n evs p'"
  using assms
proof (induction "2 * length (plBuf p) + length (in_work (plWorkers p))" arbitrary: p rule: less_induct)
  case less
  have onward: ?case if "pool_step p [] p'" "\<not> plCancelled p'"
      "2 * length (plBuf p') + length (in_work (plWorkers p')) < 2 * length (plBuf p) + length (in_work (plWorkers p))" for p'
  proof -
    have "pool_ok cap n evs p'" using pool_ok_step [OF less.prems(1) that(1)] by simp
    from less.hyps [OF that(3) this less.prems(2) that(2)] obtain p'' where
      "pool_run p' [] p''" "plBuf p'' = []" "in_work (plWorkers p'') = []" "pool_ok cap n evs p''" by blast
    moreover have "pool_run p [] p'" using pool_run_silent [OF pool_run.start that(1)] .
    ultimately show ?thesis using pool_run_trans [of p' "[]" p'' p "[]"] by auto
  qed
  show ?case
  proof (cases "in_work (plWorkers p) = []")
    case False
    then obtain pre ev post where ws: "plWorkers p = pre @ Busy ev # post" using in_work_split by blast
    show ?thesis by (rule onward [OF pool_step.finish [OF ws]]) (use ws less.prems(3) in simp_all)
  next
    case idle: True
    show ?thesis
    proof (cases "plBuf p")
      case Nil
      with idle less.prems(1) pool_run.start [of p] show ?thesis by blast
    next
      case (Cons ev buf)
      from less.prems(1,2) have "plWorkers p \<noteq> []" by (auto simp: pool_ok_def)
      then obtain w ws where ws: "plWorkers p = [] @ w # ws" by (cases "plWorkers p") auto
      with idle Cons less.prems have "w = Ready" using idle_ready [OF idle, of w] by (auto simp: pool_ok_def)
      with ws have ready: "plWorkers p = [] @ Ready # ws" by simp
      show ?thesis by (rule onward [OF pool_step.take_event [OF ready Cons]]) (use ready Cons idle less.prems(3) in simp_all)
    qed
  qed
qed

text \<open>
  As long as the context is not cancelled and there is a worker, the workers can bring
  every accepted event to the engine: no reachable state is stuck.
\<close>

lemma workers_can_drain:
  assumes "pool_run (start_pool cap n) evs p" and "0 < n" and "\<not> plCancelled p"
  shows "\<exists>p'. pool_run (start_pool cap n) evs p' \<and> plBuf p' = [] \<and> in_work (plWorkers p') = [] \<and>
    mset (plIngested p') = mset evs"
proof -
  obtain p' where p': "pool_run p [] p'" "plBuf p' = []" "in_work (plWorkers p') = []" "pool_ok cap n evs p'"
    using drain [OF pool_ok_run [OF assms(1)] assms(2,3)] by blast
  with pool_run_trans [OF p'(1) assms(1)] show ?thesis by (auto simp: pool_ok_def)
qed

text \<open>Without a worker everything stays in the channel.\<close>

lemma no_worker_run:
  assumes "pool_run (start_pool cap n) evs p" and "n \<le> 0"
  shows "plWorkers p = [] \<and> plIngested p = [] \<and> plBuf p = evs \<and> plCap p = nat cap"
  using assms(1)
proof induction
  case start
  show ?case using assms(2) by (simp add: start_pool_def RunWorkers_def)
next
  case (step evs p evs' p')
  from step.hyps(2) step.IH show ?case
  proof cases
    case (request decode_error body rsp)
    show ?thesis
      using request(2)
    proof (cases rule: request_cases)
      case (sent ev)
      from sent(3) step.IH show ?thesis using sent(2) request(1) by (auto simp: try_send_def split: if_splits)
    qed (use step.IH request in simp)
  qed auto
qed

text \<open>
  With a worker count of zero or less nothing is ever ingested, and once the channel is full
  every event is refused.
\<close>

lemma no_worker_no_delivery:
  assumes "pool_run (start_pool cap n) evs p" and "n \<le> 0"
  shows "plIngested p = [] \<and> length evs \<le> nat cap \<and>
    (length evs = nat cap \<longrightarrow> rsStatus (fst (receiver_ServeHTTP decode_error body p)) \<in> {400, 503})"
proof -
  note facts = no_worker_run [OF assms]
  moreover have "length evs \<le> nat cap" using pool_ok_run [OF assms(1)] facts by (simp add: pool_ok_def)
  moreover have "rsStatus (fst (receiver_ServeHTTP decode_error body p)) \<in> {400, 503}" if "length evs = nat cap"
    using facts that by (auto simp: receiver_ServeHTTP_def http_error_def try_send_def split: option.split)
  ultimately show ?thesis by blast
qed

section \<open>Sample runs\<close>

abbreviation sample_body :: string where
  "sample_body \<equiv> json_text (core_event_json created_on_wire)"

lemma sample_accepted:
  "receiver_ServeHTTP (\<lambda>s. s) sample_body (start_pool 1 n) = (accepted_response, (start_pool 1 n)\<lparr>plBuf := [created]\<rparr>)"
  "accepted sample_body accepted_response = [created]"
proof -
  have valid: "event_validate created = []" by code_simp
  note read = event_contract [OF created_on_wire_ok(1,2), unfolded created_on_wire_ok(3)]
  have "hand_over ev (replicate k Ready) = None" for ev k using hand_over_None [of ev "replicate k Ready"] by auto
  then show "receiver_ServeHTTP (\<lambda>s. s) sample_body (start_pool 1 n) = (accepted_response, (start_pool 1 n)\<lparr>plBuf := [created]\<rparr>)"
    using read valid
    by (simp add: receiver_ServeHTTP_def try_send_def start_pool_def RunWorkers_def)
  show "accepted sample_body accepted_response = [created]"
    using read by (simp add: accepted_def accepted_response_def)
qed

lemma sample_pool_run: "pool_run (start_pool 1 n) [created] ((start_pool 1 n)\<lparr>plBuf := [created]\<rparr>)"
  using pool_run.step [OF pool_run.start pool_step.request [OF sample_accepted(1)]] sample_accepted(2) by simp

lemma accepted_events_kept_witness:
  "mset [created] = mset (plIngested ((start_pool 1 2)\<lparr>plBuf := [created]\<rparr>)) +
     mset (in_work (plWorkers (start_pool 1 2))) + mset [created]"
  using accepted_events_kept [OF sample_pool_run [of 2]] by simp

lemma one_worker_keeps_order_witness:
  "[created] = plIngested (start_pool 1 1) @ in_work (plWorkers (start_pool 1 1)) @ [created]"
  using one_worker_keeps_order [OF sample_pool_run [of 1]] by simp

lemma workers_can_drain_witness:
  "\<exists>p'. pool_run (start_pool 1 2) [created] p' \<and> plBuf p' = [] \<and> mset (plIngested p') = {#created#}"
  using workers_can_drain [OF sample_pool_run [of 2]] by (auto simp: start_pool_def RunWorkers_def)

lemma no_worker_no_delivery_witness:
  "rsStatus (fst (receiver_ServeHTTP (\<lambda>s. s) sample_body ((start_pool 1 0)\<lparr>plBuf := [created]\<rparr>))) \<in> {400, 503}"
  using no_worker_no_delivery [OF sample_pool_run [of 0]] by simp

text \<open>The worker takes the event and ingests it.\<close>

definition sample_ingested :: pool where
  "sample_ingested = (start_pool 1 1)\<lparr>plIngested := [created]\<rparr>"

lemma sample_ingested_run: "pool_run (start_pool 1 1) [created] sample_ingested"
proof -
  let ?p = "(start_pool 1 1)\<lparr>plBuf := [created]\<rparr>"
  have "plWorkers ?p = [] @ Ready # []" "plBuf ?p = created # []" by (simp_all add: start_pool_def RunWorkers_def)
  from pool_run_silent [OF sample_pool_run pool_step.take_event [OF this]]
  have "pool_run (start_pool 1 1) [created] ((start_pool 1 1)\<lparr>plWorkers := [Busy created]\<rparr>)"
    by (simp add: start_pool_def RunWorkers_def)
  from pool_run_silent [OF this pool_step.finish [of _ "[]" created "[]"]]
  show ?thesis by (simp add: sample_ingested_def start_pool_def RunWorkers_def)
qed

end
