(* ===== verification/Leader.thy ===== *)
theory Leader
  imports Httpx
begin

text \<open>
  Packages \<open>internal/leader\<close> and \<open>internal/leaderproxy\<close>, and the address of the leader that
  \<open>cmd/argocd-notifier\<close> makes of them. The election itself is client-go's: it calls the three
  callbacks, in any order as far as this code is concerned.
\<close>

section \<open>The elector\<close>

record elector =
  elLeading :: bool
  elCurrentLeader :: "string option"

datatype callback = OnStartedLeading | OnStoppedLeading | OnNewLeader string

definition new_elector :: elector where
  "new_elector = \<lparr>elLeading = False, elCurrentLeader = None\<rparr>"

definition on_callback :: "callback \<Rightarrow> elector \<Rightarrow> elector" where
  "on_callback cb e = (case cb of
       OnStartedLeading \<Rightarrow> e\<lparr>elLeading := True\<rparr>
     | OnStoppedLeading \<Rightarrow> e\<lparr>elLeading := False\<rparr>
     | OnNewLeader identity \<Rightarrow> e\<lparr>elCurrentLeader := Some identity\<rparr>)"

definition IsLeader :: "elector \<Rightarrow> bool" where
  "IsLeader e = elLeading e"

definition CurrentLeader :: "elector \<Rightarrow> string option" where
  "CurrentLeader e = elCurrentLeader e"

section \<open>The address of a pod\<close>

text \<open>
  The pods of the Kubernetes API are a parameter: \<open>get\<close> yields the IP of a pod, empty as long as
  it has none. The lock is released during the call, so a lookup has two critical sections.
\<close>

datatype 'e resolve_error = GetPodFailed string 'e | NoIPYet string

record pod_resolver =
  prIdentity :: string
  prAddr :: string

definition NewPodAddressResolver :: pod_resolver where
  "NewPodAddressResolver = \<lparr>prIdentity = [], prAddr = []\<rparr>"

definition resolve_cached :: "string \<Rightarrow> pod_resolver \<Rightarrow> string option" where
  "resolve_cached identity r = (if identity = prIdentity r \<and> prAddr r \<noteq> [] then Some (prAddr r) else None)"

definition resolve_store :: "string \<Rightarrow> string \<Rightarrow> pod_resolver \<Rightarrow> pod_resolver" where
  "resolve_store identity addr r = r\<lparr>prIdentity := identity, prAddr := addr\<rparr>"

definition resolve_get :: "(string \<Rightarrow> 'w \<Rightarrow> ('e + string) \<times> 'w) \<Rightarrow> string \<Rightarrow> 'w \<Rightarrow> ('e resolve_error + string) \<times> 'w" where
  "resolve_get get identity w =
     (case get identity w of
        (Inl e, w) \<Rightarrow> (Inl (GetPodFailed identity e), w)
      | (Inr ip, w) \<Rightarrow> if ip = [] then (Inl (NoIPYet identity), w) else (Inr ip, w))"

definition Pod_Resolve :: "(string \<Rightarrow> 'w \<Rightarrow> ('e + string) \<times> 'w) \<Rightarrow> string \<Rightarrow> pod_resolver \<times> 'w \<Rightarrow>
    ('e resolve_error + string) \<times> pod_resolver \<times> 'w" where
  "Pod_Resolve get identity = (\<lambda>(r, w).
     case resolve_cached identity r of
       Some addr \<Rightarrow> (Inr addr, r, w)
     | None \<Rightarrow>
         (case resolve_get get identity w of
            (Inl e, w) \<Rightarrow> (Inl e, r, w)
          | (Inr ip, w) \<Rightarrow> (Inr ip, resolve_store identity ip r, w)))"

text \<open>The closure \<open>leaderAddr\<close> of \<open>main\<close>.\<close>

definition leaderAddr :: "(string \<Rightarrow> 'w \<Rightarrow> ('e + string) \<times> 'w) \<Rightarrow> string \<Rightarrow> elector \<Rightarrow> pod_resolver \<times> 'w \<Rightarrow>
    string option \<times> pod_resolver \<times> 'w" where
  "leaderAddr get listenAddr e st =
     (case CurrentLeader e of
        None \<Rightarrow> (None, st)
      | Some identity \<Rightarrow>
          (case Pod_Resolve get identity st of
             (Inl err, st) \<Rightarrow> (None, st)
           | (Inr ip, st) \<Rightarrow> (Some (''http://'' @ ip @ listenAddr), st)))"

section \<open>The proxy\<close>

text \<open>
  The request is handled here by the leader, and forwarded by the others. \<open>Rewrite\<close> asks for the
  address a second time; where that fails, or the address does not parse, the request goes to no
  host. The reverse proxy of \<open>net/http/httputil\<close> is a parameter: a request sent to an address.
\<close>

definition proxy_ServeHTTP :: "('s \<Rightarrow> bool) \<Rightarrow> ('s \<Rightarrow> string option \<times> 's) \<Rightarrow> (http_request \<Rightarrow> 's \<Rightarrow> http_response \<times> 's) \<Rightarrow>
    (string \<Rightarrow> 'u option) \<Rightarrow> ('u option \<Rightarrow> http_request \<Rightarrow> 's \<Rightarrow> http_response \<times> 's) \<Rightarrow>
    http_request \<Rightarrow> 's \<Rightarrow> http_response \<times> 's" where
  "proxy_ServeHTTP isLeader addr local parse forward req st =
     (if isLeader st then local req st
      else (case addr st of
              (None, st) \<Rightarrow> (http_error ''no leader currently known'' 503, st)
            | (Some a, st) \<Rightarrow>
                (case addr st of (a', st) \<Rightarrow>
                   forward (parse (case a' of None \<Rightarrow> [] | Some a' \<Rightarrow> a')) req st)))"

section \<open>What the elector remembers\<close>

text \<open>The reference: the last callback of each kind decides.\<close>

fun last_state :: "callback list \<Rightarrow> bool \<times> string option" where
  "last_state [] = (False, None)"
| "last_state (OnStartedLeading # cbs) = (True, snd (last_state cbs))"
| "last_state (OnStoppedLeading # cbs) = (False, snd (last_state cbs))"
| "last_state (OnNewLeader l # cbs) = (fst (last_state cbs), Some l)"

definition elector_after :: "callback list \<Rightarrow> elector" where
  "elector_after cbs = fold on_callback cbs new_elector"

text \<open>The last callback of each kind decides what the elector reports.\<close>

lemma elector_last_callbacks:
  "(IsLeader (elector_after cbs), CurrentLeader (elector_after cbs)) = last_state (rev cbs)"
proof (induction cbs rule: rev_induct)
  case (snoc cb cbs)
  then have "IsLeader (elector_after cbs) = fst (last_state (rev cbs))"
    "CurrentLeader (elector_after cbs) = snd (last_state (rev cbs))" by (metis fst_conv, metis snd_conv)
  then show ?case
    by (cases cb) (simp_all add: elector_after_def on_callback_def IsLeader_def CurrentLeader_def)
qed (simp add: elector_after_def new_elector_def IsLeader_def CurrentLeader_def)

section \<open>The cache of addresses\<close>

text \<open>
  Lookups interleave: between its two critical sections a call holds an answer of the API, and
  another call may store its own in the meantime.
\<close>

inductive resolver_step :: "(string \<Rightarrow> 'w \<Rightarrow> ('e + string) \<times> 'w) \<Rightarrow>
    pod_resolver \<times> (string \<times> string) list \<Rightarrow> pod_resolver \<times> (string \<times> string) list \<Rightarrow> bool" for get where
  asked: "resolve_cached identity r = None \<Longrightarrow> resolve_get get identity w = (Inr ip, w') \<Longrightarrow>
     resolver_step get (r, flying) (r, (identity, ip) # flying)"
| stored: "(identity, ip) \<in> set flying \<Longrightarrow>
     resolver_step get (r, flying) (resolve_store identity ip r, remove1 (identity, ip) flying)"

definition from_api :: "(string \<Rightarrow> 'w \<Rightarrow> ('e + string) \<times> 'w) \<Rightarrow> string \<Rightarrow> string \<Rightarrow> bool" where
  "from_api get identity ip \<longleftrightarrow> ip \<noteq> [] \<and> (\<exists>w w'. get identity w = (Inr ip, w'))"

lemma resolve_get_api: "resolve_get get identity w = (Inr ip, w') \<Longrightarrow> from_api get identity ip"
  by (auto simp: resolve_get_def from_api_def split: prod.splits sum.splits if_splits)

lemma resolver_steps_api:
  assumes "(resolver_step get)\<^sup>*\<^sup>* (NewPodAddressResolver, []) (r, flying)"
  shows "(prAddr r \<noteq> [] \<longrightarrow> from_api get (prIdentity r) (prAddr r)) \<and>
    (\<forall>(identity, ip) \<in> set flying. from_api get identity ip)"
  using assms
proof (induction "(r, flying)" arbitrary: r flying rule: rtranclp_induct)
  case base
  then show ?case by (simp add: NewPodAddressResolver_def)
next
  case (step st)
  obtain r0 flying0 where st: "st = (r0, flying0)" by force
  from step(2)[unfolded st] step(3) [OF st] show ?case
    by cases (auto simp: resolve_store_def dest: resolve_get_api set_remove1_subset [THEN subsetD] split: prod.splits)
qed

text \<open>
  However lookups interleave, an address is only ever returned for the pod the API
  reported it for; after a lookup the same identity is answered from the cache, without a call.
\<close>

lemma resolver_never_mixes:
  assumes "(resolver_step get)\<^sup>*\<^sup>* (NewPodAddressResolver, []) (r, flying)"
    and "Pod_Resolve get identity (r, w) = (Inr ip, r', w')"
  shows "from_api get identity ip \<and> (w' = w \<or> get identity w = (Inr ip, w')) \<and>
    (\<forall>w2. Pod_Resolve get identity (r', w2) = (Inr ip, r', w2))"
proof (cases "resolve_cached identity r")
  case None
  with assms(2) have "resolve_get get identity w = (Inr ip, w')" "r' = resolve_store identity ip r"
    by (auto simp: Pod_Resolve_def split: prod.splits sum.splits)
  moreover note resolve_get_api [OF this(1)]
  ultimately show ?thesis
    by (auto simp: Pod_Resolve_def resolve_cached_def resolve_store_def from_api_def resolve_get_def
        split: prod.splits sum.splits if_splits)
next
  case (Some a)
  with assms resolver_steps_api [OF assms(1)] show ?thesis
    by (auto simp: Pod_Resolve_def resolve_cached_def split: if_splits)
qed

section \<open>Every replica leads to the leader\<close>

text \<open>
  A cluster: each replica has its elector, and a pod IP under its identity; a replica handles a
  request by recording it. The network takes a request to the replica an address belongs to, for
  at most \<open>k\<close> hops.
\<close>

definition pod_ip :: "(string \<Rightarrow> string) \<Rightarrow> string \<Rightarrow> 'w \<Rightarrow> (unit + string) \<times> 'w" where
  "pod_ip ips identity w = (Inr (ips identity), w)"

fun cluster_serve :: "(string \<Rightarrow> elector) \<Rightarrow> (string \<Rightarrow> string) \<Rightarrow> string \<Rightarrow> (string \<Rightarrow> string option) \<Rightarrow> nat \<Rightarrow>
    string \<Rightarrow> http_request \<Rightarrow> (string \<times> http_request) list \<Rightarrow> http_response \<times> (string \<times> http_request) list" where
  "cluster_serve els ips listen owner 0 i req log = (http_error ''gateway timeout'' 504, log)"
| "cluster_serve els ips listen owner (Suc k) i req log =
     proxy_ServeHTTP (\<lambda>log. IsLeader (els i))
       (\<lambda>log. (case leaderAddr (pod_ip ips) listen (els i) (NewPodAddressResolver, log) of (a, _, log) \<Rightarrow> (a, log)))
       (\<lambda>req log. (no_content, log @ [(i, req)]))
       owner
       (\<lambda>j req log. case j of None \<Rightarrow> (http_error ''bad gateway'' 502, log)
          | Some j \<Rightarrow> cluster_serve els ips listen owner k j req log)
       req log"

lemma leaderAddr_pod_ip:
  "ips l \<noteq> [] \<Longrightarrow> CurrentLeader e = Some l \<Longrightarrow> leaderAddr (pod_ip ips) listen e (NewPodAddressResolver, w) =
     (Some (''http://'' @ ips l @ listen), resolve_store l (ips l) NewPodAddressResolver, w)"
  by (simp add: leaderAddr_def Pod_Resolve_def resolve_cached_def NewPodAddressResolver_def resolve_get_def pod_ip_def)

lemma cluster_leader:
  "IsLeader (els i) \<Longrightarrow> cluster_serve els ips listen owner (Suc k) i req log = (no_content, log @ [(i, req)])"
  by (simp add: proxy_ServeHTTP_def)

lemma cluster_forward:
  assumes "\<not> IsLeader (els i)" and "CurrentLeader (els i) = Some l" and "ips l \<noteq> []"
    and "owner (''http://'' @ ips l @ listen) = Some l"
  shows "cluster_serve els ips listen owner (Suc k) i req log = cluster_serve els ips listen owner k l req log"
  using assms by (simp add: proxy_ServeHTTP_def leaderAddr_pod_ip)

text \<open>
  C37: Where one replica leads, with a pod IP that makes an address under which it is reached,
  and the others do not lead and know it, a request sent to any replica is handled by the
  leader, exactly once, after at most one hop.
\<close>

theorem requests_reach_leader:
  assumes "IsLeader (els l)" and "ips l \<noteq> []" and "owner (''http://'' @ ips l @ listen) = Some l"
    and "\<forall>i. i = l \<or> \<not> IsLeader (els i) \<and> CurrentLeader (els i) = Some l"
  shows "cluster_serve els ips listen owner (Suc (Suc k)) i req log = (no_content, log @ [(l, req)])"
proof (cases "i = l")
  case True
  with assms(1) show ?thesis by (simp only: cluster_leader)
next
  case False
  with assms(4) have "\<not> IsLeader (els i)" "CurrentLeader (els i) = Some l" by auto
  from cluster_forward [of els i l ips owner listen, OF this assms(2,3)] show ?thesis using assms(1) by (simp only: cluster_leader)
qed

text \<open>
  A replica that has lost its lease still knows itself as the current leader until it hears of
  another: it forwards to its own address.
\<close>

text \<open>
  C38: A replica that has led, has lost the lease and has not heard of a successor, and that is
  reached under the address its pod IP makes, forwards requests to that address, its own: they
  are never handled, for any number of hops.
\<close>

theorem deposed_leader_calls_itself:
  assumes "els i = elector_after (cbs @ [OnNewLeader i, OnStartedLeading, OnStoppedLeading])"
    and "ips i \<noteq> []" and "owner (''http://'' @ ips i @ listen) = Some i"
  shows "cluster_serve els ips listen owner k i req log = (http_error ''gateway timeout'' 504, log)"
proof (induction k)
  case (Suc k)
  have "\<not> IsLeader (els i)" "CurrentLeader (els i) = Some i"
    by (simp_all add: assms(1) elector_after_def on_callback_def IsLeader_def CurrentLeader_def)
  from cluster_forward [of els i i ips owner listen, OF this assms(2,3)] Suc show ?case by simp
qed simp

section \<open>Samples\<close>

definition sample_ips :: "string \<Rightarrow> string" where
  "sample_ips i = ''10.0.0.'' @ i"

definition sample_owner :: "string \<Rightarrow> string option" where
  "sample_owner url = (if take 14 url = ''http://10.0.0.'' then Some [url ! 14] else None)"

definition sample_request :: http_request where
  "sample_request = \<lparr>rqMethod = ''POST'', rqURL = ''/events'', rqHeader = [], rqBody = []\<rparr>"

lemma requests_reach_leader_witness:
  "cluster_serve (\<lambda>i. elector_after (if i = ''1'' then [OnNewLeader ''1'', OnStartedLeading] else [OnNewLeader ''1'']))
     sample_ips '':8080'' sample_owner 2 ''2'' sample_request [] = (no_content, [(''1'', sample_request)])"
  using requests_reach_leader [of "\<lambda>i. elector_after (if i = ''1'' then [OnNewLeader ''1'', OnStartedLeading] else [OnNewLeader ''1''])"
      "''1''" sample_ips sample_owner "'':8080''" 0 "''2''" sample_request "[]"]
  by (simp add: elector_after_def on_callback_def IsLeader_def CurrentLeader_def new_elector_def sample_ips_def
      sample_owner_def numeral_2_eq_2 del: cluster_serve.simps)

lemma deposed_leader_calls_itself_witness:
  "cluster_serve (\<lambda>i. elector_after [OnNewLeader ''1'', OnStartedLeading, OnStoppedLeading])
     sample_ips '':8080'' sample_owner 9 ''1'' sample_request [] = (http_error ''gateway timeout'' 504, [])"
  using deposed_leader_calls_itself [of "\<lambda>i. elector_after [OnNewLeader ''1'', OnStartedLeading, OnStoppedLeading]"
      "''1''" "[]" sample_ips sample_owner "'':8080''" 9]
  by (simp add: sample_ips_def sample_owner_def del: cluster_serve.simps)

definition sample_get :: "string \<Rightarrow> nat \<Rightarrow> (unit + string) \<times> nat" where
  "sample_get identity w = (Inr (sample_ips identity), Suc w)"

lemma resolver_never_mixes_witness:
  "\<exists>r'. Pod_Resolve sample_get ''1'' (NewPodAddressResolver, 0) = (Inr ''10.0.0.1'', r', 1) \<and>
     Pod_Resolve sample_get ''1'' (r', 7) = (Inr ''10.0.0.1'', r', 7)"
proof -
  let ?r = "resolve_store ''1'' ''10.0.0.1'' NewPodAddressResolver"
  have first: "Pod_Resolve sample_get ''1'' (NewPodAddressResolver, 0) = (Inr ''10.0.0.1'', ?r, 1)"
    by (simp add: Pod_Resolve_def resolve_cached_def NewPodAddressResolver_def resolve_get_def sample_get_def sample_ips_def)
  from resolver_never_mixes [OF rtranclp.rtrancl_refl first] first show ?thesis by blast
qed

end
