(* ===== verification/Config.thy ===== *)
theory Config
  imports Prelude
begin

text \<open>
  Packages \<open>internal/config\<close> and \<open>internal/logging\<close>, and the configuration of the Slack backend
  (\<open>internal/slackbackend/config.go\<close>). Durations are nanoseconds. Filling the struct from the
  environment is the library envconfig's: a parameter of \<open>Load\<close>.
\<close>

section \<open>The configuration of the core\<close>

datatype config_error =
    ErrIdleWindowTooLong
  | ErrMaxWaitTooLong
  | ErrInvalidLogFormat
  | ErrInvalidDuplicateAction
  | ErrMissingLeaderElectionNamespace
  | ErrLeaseDurationTooShort
  | ErrRenewDeadlineTooShort
  | ErrPprofAddrConflict
  | ErrInvalidBackendRegistryTTL
  | ErrInvalidRemoteBackendTimeout
  | ErrMissingPodNamespace
  | ErrInvalidLeaderProxyTimeout

record config =
  cfListenAddr :: string
  cfIngestQueueSize :: int
  cfWorkerCount :: int
  cfGroupLabel :: string
  cfIdleWindow :: int
  cfMaxWait :: int
  cfCombineTriggers :: bool
  cfSessionTTL :: int
  cfDuplicateAction :: string
  cfBackendRegistryTTL :: int
  cfRemoteBackendRequestTimeout :: int
  cfLogLevel :: string
  cfLogFormat :: string
  cfLeaderElectionEnabled :: bool
  cfLeaderElectionNamespace :: string
  cfLeaseName :: string
  cfLeaseDuration :: int
  cfRenewDeadline :: int
  cfRetryPeriod :: int
  cfPodName :: string
  cfPodNamespace :: string
  cfLeaderProxyRequestTimeout :: int
  cfPprofEnabled :: bool
  cfPprofAddr :: string

definition config_validate :: "config \<Rightarrow> config_error list" where
  "config_validate c =
     (let errs = [];
          errs = (if cfIdleWindow c \<ge> cfMaxWait c then errs @ [ErrIdleWindowTooLong] else errs);
          errs = (if cfMaxWait c \<ge> cfSessionTTL c then errs @ [ErrMaxWaitTooLong] else errs);
          errs = (if to_lower (cfLogFormat c) \<in> {''json'', ''text''} then errs else errs @ [ErrInvalidLogFormat]);
          errs = (if to_lower (cfDuplicateAction c) \<in> {''drop'', ''thread''} then errs else errs @ [ErrInvalidDuplicateAction]);
          errs = (if cfLeaderElectionEnabled c then
            (let errs = (if cfLeaderElectionNamespace c = [] then errs @ [ErrMissingLeaderElectionNamespace] else errs);
                 errs = (if cfLeaseDuration c \<le> cfRenewDeadline c then errs @ [ErrLeaseDurationTooShort] else errs);
                 errs = (if cfRenewDeadline c \<le> cfRetryPeriod c then errs @ [ErrRenewDeadlineTooShort] else errs);
                 errs = (if cfPodNamespace c = [] then errs @ [ErrMissingPodNamespace] else errs)
             in errs) else errs);
          errs = (if cfLeaderProxyRequestTimeout c \<le> 0 then errs @ [ErrInvalidLeaderProxyTimeout] else errs);
          errs = (if cfPprofEnabled c \<and> cfPprofAddr c = cfListenAddr c then errs @ [ErrPprofAddrConflict] else errs);
          errs = (if cfBackendRegistryTTL c \<le> 0 then errs @ [ErrInvalidBackendRegistryTTL] else errs);
          errs = (if cfRemoteBackendRequestTimeout c \<le> 0 then errs @ [ErrInvalidRemoteBackendTimeout] else errs)
      in errs)"

text \<open>\<open>hostname\<close> is \<open>None\<close> where \<open>os.Hostname\<close> fails.\<close>

definition config_load :: "('e + config) \<Rightarrow> string option \<Rightarrow> ('e + config_error list) + config" where
  "config_load process hostname =
     (case process of
        Inl e \<Rightarrow> Inl (Inl e)
      | Inr cfg \<Rightarrow>
          (let cfg = (if cfPodName cfg = []
                      then (case hostname of None \<Rightarrow> cfg | Some h \<Rightarrow> cfg\<lparr>cfPodName := h\<rparr>) else cfg)
           in if config_validate cfg \<noteq> [] then Inl (Inr (config_validate cfg)) else Inr cfg))"

section \<open>The configuration of the Slack backend\<close>

datatype backend_config_error = ErrInvalidRegisterInterval | ErrInvalidMessageTemplateReloadInterval

record backend_config =
  bcSlackBotToken :: string
  bcSlackRequestTimeout :: int
  bcSlackMaxRetries :: int
  bcListenAddr :: string
  bcCoreURL :: string
  bcPublicBaseURL :: string
  bcBackendName :: string
  bcRegisterInterval :: int
  bcMessageTemplatePath :: string
  bcMessageTemplateReloadInterval :: int
  bcMessageTemplateFallbackToDefault :: bool
  bcLogLevel :: string
  bcLogFormat :: string

definition backend_config_validate :: "backend_config \<Rightarrow> backend_config_error option" where
  "backend_config_validate c =
     (if bcRegisterInterval c \<le> 0 then Some ErrInvalidRegisterInterval
      else if bcMessageTemplateReloadInterval c \<le> 0 then Some ErrInvalidMessageTemplateReloadInterval
      else None)"

definition backend_config_load :: "('e + backend_config) \<Rightarrow> ('e + backend_config_error) + backend_config" where
  "backend_config_load process =
     (case process of
        Inl e \<Rightarrow> Inl (Inl e)
      | Inr cfg \<Rightarrow> (case backend_config_validate cfg of Some e \<Rightarrow> Inl (Inr e) | None \<Rightarrow> Inr cfg))"

section \<open>Logging\<close>

datatype log_level = LevelDebug | LevelInfo | LevelWarn | LevelError

text \<open>The levels of \<open>log/slog\<close> and their order.\<close>

fun level_number :: "log_level \<Rightarrow> int" where
  "level_number LevelDebug = - 4"
| "level_number LevelInfo = 0"
| "level_number LevelWarn = 4"
| "level_number LevelError = 8"

lemma level_number_inj: "level_number l = level_number l' \<Longrightarrow> l = l'"
  by (cases l; cases l') simp_all

instantiation log_level :: linorder
begin

definition less_eq_log_level :: "log_level \<Rightarrow> log_level \<Rightarrow> bool" where
  "less_eq_log_level l l' \<longleftrightarrow> level_number l \<le> level_number l'"

definition less_log_level :: "log_level \<Rightarrow> log_level \<Rightarrow> bool" where
  "less_log_level l l' \<longleftrightarrow> level_number l < level_number l'"

instance
  by standard (auto simp: less_eq_log_level_def less_log_level_def level_number_inj)

end

datatype log_format = TextHandler | JSONHandler

record log_handler =
  lhFormat :: log_format
  lhLevel :: log_level

definition newHandler :: "string \<Rightarrow> string \<Rightarrow> log_handler" where
  "newHandler level fmt =
     (let l = to_lower level;
          lvl = (if l = ''debug'' then LevelDebug
                 else if l = ''warn'' \<or> l = ''warning'' then LevelWarn
                 else if l = ''error'' then LevelError
                 else LevelInfo)
      in \<lparr>lhFormat = (if to_lower fmt = ''text'' then TextHandler else JSONHandler), lhLevel = lvl\<rparr>)"

text \<open>A record is written from the level of the handler on.\<close>

definition log_enabled :: "log_handler \<Rightarrow> log_level \<Rightarrow> bool" where
  "log_enabled h l \<longleftrightarrow> lhLevel h \<le> l"

section \<open>What a configuration that was loaded guarantees\<close>

text \<open>The rules, in the order in which they are reported.\<close>

definition config_rules :: "(config_error \<times> (config \<Rightarrow> bool)) list" where
  "config_rules =
     [(ErrIdleWindowTooLong, \<lambda>c. cfIdleWindow c < cfMaxWait c),
      (ErrMaxWaitTooLong, \<lambda>c. cfMaxWait c < cfSessionTTL c),
      (ErrInvalidLogFormat, \<lambda>c. to_lower (cfLogFormat c) \<in> {''json'', ''text''}),
      (ErrInvalidDuplicateAction, \<lambda>c. to_lower (cfDuplicateAction c) \<in> {''drop'', ''thread''}),
      (ErrMissingLeaderElectionNamespace, \<lambda>c. cfLeaderElectionEnabled c \<longrightarrow> cfLeaderElectionNamespace c \<noteq> []),
      (ErrLeaseDurationTooShort, \<lambda>c. cfLeaderElectionEnabled c \<longrightarrow> cfRenewDeadline c < cfLeaseDuration c),
      (ErrRenewDeadlineTooShort, \<lambda>c. cfLeaderElectionEnabled c \<longrightarrow> cfRetryPeriod c < cfRenewDeadline c),
      (ErrMissingPodNamespace, \<lambda>c. cfLeaderElectionEnabled c \<longrightarrow> cfPodNamespace c \<noteq> []),
      (ErrInvalidLeaderProxyTimeout, \<lambda>c. 0 < cfLeaderProxyRequestTimeout c),
      (ErrPprofAddrConflict, \<lambda>c. cfPprofEnabled c \<longrightarrow> cfPprofAddr c \<noteq> cfListenAddr c),
      (ErrInvalidBackendRegistryTTL, \<lambda>c. 0 < cfBackendRegistryTTL c),
      (ErrInvalidRemoteBackendTimeout, \<lambda>c. 0 < cfRemoteBackendRequestTimeout c)]"

text \<open>A chain of conditional additions is a concatenation.\<close>

lemma add_if:
  "(if P then xs @ ys else xs) = xs @ (if P then ys else [])"
  "(if P then xs else xs @ ys) = xs @ (if P then [] else ys)"
  by simp_all

lemma if_append: "(if L then xs @ ys else []) = (if L then xs else []) @ (if L then ys else [])"
  by simp

lemma broken_rules:
  "map fst (filter (\<lambda>(e, holds). \<not> holds c) []) = []"
  "map fst (filter (\<lambda>(e, holds). \<not> holds c) ((err, holds) # rules)) =
     (if holds c then [] else [err]) @ map fst (filter (\<lambda>(e, holds). \<not> holds c) rules)"
  by simp_all

lemma config_validate_rules:
  "config_validate c = map fst (filter (\<lambda>(e, holds). \<not> holds c) config_rules)"
proof -
  have eqs: "a = a' \<Longrightarrow> b = b' \<Longrightarrow> a @ b = a' @ b'" for a a' b b' :: "config_error list" by simp
  show ?thesis
    unfolding config_validate_def Let_def config_rules_def broken_rules
      add_if append_assoc append_Nil append_Nil2 if_append
    by (intro eqs) auto
qed

lemma config_validate_Nil: "config_validate c = [] \<longleftrightarrow> (\<forall>(e, holds) \<in> set config_rules. holds c)"
  by (auto simp: config_validate_rules filter_empty_conv)

text \<open>
  \<open>Load\<close> reports exactly the rules that do not hold, in their order, after the host name has
  filled in for the pod name.
\<close>

lemma config_load_result:
  "config_load (Inr c) hostname =
    (let c' = (if cfPodName c = [] \<and> hostname \<noteq> None then c\<lparr>cfPodName := the hostname\<rparr> else c)
     in if list_all (\<lambda>(e, holds). holds c') config_rules then Inr c'
        else Inl (Inr (map fst (filter (\<lambda>(e, holds). \<not> holds c') config_rules))))"
proof (cases "cfPodName c = []")
  case True
  then show ?thesis
    by (cases hostname) (simp_all add: config_load_def Let_def config_validate_rules filter_empty_conv list_all_iff split_def)
next
  case False
  then show ?thesis
    by (simp add: config_load_def Let_def config_validate_rules filter_empty_conv list_all_iff split_def)
qed

end
