(* ===== verification/App.thy ===== *)
theory App
  imports Delivery RemoteBackend Receiver Leader Config
begin

text \<open>
  \<open>cmd/argocd-notifier\<close> and \<open>cmd/slack-backend\<close>: how \<open>main\<close> puts the parts together. The state
  of a core process is its channel and workers, its registry, its elector, the cache of pod
  addresses, its clock, and the world outside.
\<close>

section \<open>Wiring\<close>

definition main_publisher_deps :: "config \<Rightarrow> ('w, 'e) remote_env \<Rightarrow> (string \<Rightarrow> string) \<Rightarrow> (int \<Rightarrow> string) \<Rightarrow>
    ('w, 'e remote_error) publisher_deps" where
  "main_publisher_deps cfg env sha256hex rfc3339 = \<lparr>spSessionTTL = cfSessionTTL cfg,
     spDuplicateAction = cfDuplicateAction cfg, spBuild = Build, spResolve = Resolve env,
     spSha256Hex = sha256hex, spRFC3339 = rfc3339\<rparr>"

definition main_engine_config :: "config \<Rightarrow> engine_config" where
  "main_engine_config cfg = \<lparr>ecIdleWindow = cfIdleWindow cfg, ecMaxWait = cfMaxWait cfg,
     ecCombineTriggers = cfCombineTriggers cfg\<rparr>"

text \<open>The receiver with its workers; \<open>None\<close> where \<open>make\<close> panics.\<close>

definition main_pool :: "config \<Rightarrow> pool option" where
  "main_pool cfg = map_option (RunWorkers (cfWorkerCount cfg)) (receiver_NewHandler (cfIngestQueueSize cfg))"

text \<open>The client of the Slack backend; a template path switches the watcher on.\<close>

definition main_slack_client :: "backend_config \<Rightarrow> ('w \<Rightarrow> 'e watcher) \<Rightarrow> (string \<Rightarrow> bool) \<Rightarrow>
    ('w \<Rightarrow> http_request \<Rightarrow> ('x + http_response) \<times> 'w) \<Rightarrow> (64 word \<Rightarrow> 'w \<Rightarrow> bool \<times> 'w) \<Rightarrow>
    ('w, 'x, 'e template_error) slack_client" where
  "main_slack_client cfg watcher buildable do wait =
     (let clientOpts = (if bcMessageTemplatePath cfg \<noteq> []
                        then [WithRenderer (\<lambda>w n. TemplateWatcher_Render (watcher w) n)] else [])
      in NewClient (bcSlackBotToken cfg) (bcSlackMaxRetries cfg) clientOpts buildable do wait)"

section \<open>The server of the core\<close>

record 'w core_app =
  caPool :: pool
  caRegistry :: registry
  caElector :: elector
  caResolver :: pod_resolver
  caNow :: int
  caWorld :: 'w

definition local_events :: "(string \<Rightarrow> string) \<Rightarrow> http_request \<Rightarrow> 'w core_app \<Rightarrow> http_response \<times> 'w core_app" where
  "local_events decode_error req a =
     (case receiver_ServeHTTP decode_error (rqBody req) (caPool a) of (rsp, p) \<Rightarrow> (rsp, a\<lparr>caPool := p\<rparr>))"

definition local_register :: "(string \<Rightarrow> string) \<Rightarrow> http_request \<Rightarrow> 'w core_app \<Rightarrow> http_response \<times> 'w core_app" where
  "local_register decode_error req a =
     (case RegisterBackend decode_error (caNow a) (rqBody req) (caRegistry a) of (rsp, r) \<Rightarrow> (rsp, a\<lparr>caRegistry := r\<rparr>))"

definition main_leaderAddr :: "(string \<Rightarrow> 'w \<Rightarrow> ('e + string) \<times> 'w) \<Rightarrow> config \<Rightarrow> 'w core_app \<Rightarrow>
    string option \<times> 'w core_app" where
  "main_leaderAddr get cfg a =
     (case leaderAddr get (cfListenAddr cfg) (caElector a) (caResolver a, caWorld a) of
        (addr, r, w) \<Rightarrow> (addr, a\<lparr>caResolver := r, caWorld := w\<rparr>))"

definition with_leader :: "config \<Rightarrow> (string \<Rightarrow> 'w \<Rightarrow> ('e + string) \<times> 'w) \<Rightarrow> (string \<Rightarrow> 'u option) \<Rightarrow>
    ('u option \<Rightarrow> http_request \<Rightarrow> 'w \<Rightarrow> http_response \<times> 'w) \<Rightarrow>
    (http_request \<Rightarrow> 'w core_app \<Rightarrow> http_response \<times> 'w core_app) \<Rightarrow>
    http_request \<Rightarrow> 'w core_app \<Rightarrow> http_response \<times> 'w core_app" where
  "with_leader cfg get parse forward local =
     (if cfLeaderElectionEnabled cfg
      then proxy_ServeHTTP (\<lambda>a. IsLeader (caElector a)) (main_leaderAddr get cfg) local parse
        (\<lambda>u req a. (case forward u req (caWorld a) of (rsp, w) \<Rightarrow> (rsp, a\<lparr>caWorld := w\<rparr>)))
      else local)"

definition core_server :: "(string \<Rightarrow> string) \<Rightarrow> config \<Rightarrow> (string \<Rightarrow> 'w \<Rightarrow> ('e + string) \<times> 'w) \<Rightarrow> (string \<Rightarrow> 'u option) \<Rightarrow>
    ('u option \<Rightarrow> http_request \<Rightarrow> 'w \<Rightarrow> http_response \<times> 'w) \<Rightarrow> 'w core_app handler_func" where
  "core_server decode_error cfg get parse forward =
     (let events = with_leader cfg get parse forward (local_events decode_error);
          register = with_leader cfg get parse forward (local_register decode_error)
      in Middleware (serve_mux (core_routes []
           (\<lambda>req a. apfst Some (events req a)) HealthzHandler (ReadyzHandler None)
           (\<lambda>req a. apfst Some (register req a)))))"

section \<open>Requests\<close>

lemma core_mux:
  fixes submit healthz readyz register :: "'w handler_func"
  defines "refuse \<equiv> \<lambda>(req :: http_request) (a :: 'w). (Some (http_error ''Method Not Allowed'' 405), a)"
  shows "rqURL req = ''/events'' \<Longrightarrow> serve_mux (core_routes [] submit healthz readyz register) req a =
      (if rqMethod req = ''POST'' then submit req a else refuse req a)"
    and "rqURL req = ''/v1/backends/register'' \<Longrightarrow> serve_mux (core_routes [] submit healthz readyz register) req a =
      (if rqMethod req = ''POST'' then register req a else refuse req a)"
    and "rqURL req = ''/healthz'' \<Longrightarrow> serve_mux (core_routes [] submit healthz readyz register) req a =
      (if rqMethod req \<in> {''GET'', ''HEAD''} then healthz req a else refuse req a)"
    and "rqURL req = ''/readyz'' \<Longrightarrow> serve_mux (core_routes [] submit healthz readyz register) req a =
      (if rqMethod req \<in> {''GET'', ''HEAD''} then readyz req a else refuse req a)"
    and "rqURL req \<notin> {''/events'', ''/v1/backends/register'', ''/healthz'', ''/readyz''} \<Longrightarrow>
      serve_mux (core_routes [] submit healthz readyz register) req a = (Some (http_error ''404 page not found'' 404), a)"
  unfolding refuse_def core_routes_def serve_mux_def method_matches_def append_Nil
  subgoal by (simp add: eq_commute)
  subgoal by (simp add: eq_commute)
  subgoal by (simp add: eq_commute)
  subgoal by (simp add: eq_commute)
  subgoal by (simp add: eq_commute)
  done

lemma Middleware_apfst: "Middleware (\<lambda>req a. apfst Some (f req a)) req a = apfst Some (f req a)"
  by (simp add: Middleware_def split_beta prod_eq_iff)

lemma Middleware_cong: "next req a = apfst Some (rsp, a') \<Longrightarrow> Middleware next req a = (Some rsp, a')"
  by (simp add: Middleware_def)

text \<open>The probes answer on every replica, and a path or a method without a route is refused.\<close>

lemma core_server_probes:
  "let rsp = core_server decode_error cfg get parse forward req a in
    (rqURL req \<in> {''/healthz'', ''/readyz''} \<and> rqMethod req \<in> {''GET'', ''HEAD''} \<longrightarrow>
       rsp = (Some (write_status 200), a)) \<and>
    (rqURL req \<notin> {''/events'', ''/v1/backends/register'', ''/healthz'', ''/readyz''} \<longrightarrow>
       rsp = (Some (http_error ''404 page not found'' 404), a)) \<and>
    (rqURL req \<in> {''/events'', ''/v1/backends/register''} \<and> rqMethod req \<noteq> ''POST'' \<longrightarrow>
       rsp = (Some (http_error ''Method Not Allowed'' 405), a))"
  unfolding Let_def core_server_def
  by (auto simp: Middleware_def core_mux HealthzHandler_def ReadyzHandler_def)

lemma proxy_follower:
  assumes "\<not> isLeader st"
  shows "proxy_ServeHTTP isLeader addr local parse forward req st =
    (case addr st of
       (None, st) \<Rightarrow> (http_error ''no leader currently known'' 503, st)
     | (Some a, st) \<Rightarrow> (case addr st of (a', st) \<Rightarrow>
          forward (parse (case a' of None \<Rightarrow> [] | Some a' \<Rightarrow> a')) req st))"
  using assms by (simp add: proxy_ServeHTTP_def)

lemma main_leaderAddr_keeps:
  "caPool (snd (main_leaderAddr get cfg a)) = caPool a" "caRegistry (snd (main_leaderAddr get cfg a)) = caRegistry a"
  by (simp_all add: main_leaderAddr_def split: prod.split)

lemma with_leader_follower:
  assumes "cfLeaderElectionEnabled cfg" and "\<not> IsLeader (caElector a)"
  shows "caPool (snd (with_leader cfg get parse forward local req a)) = caPool a \<and>
    caRegistry (snd (with_leader cfg get parse forward local req a)) = caRegistry a"
  using assms main_leaderAddr_keeps [of get cfg]
  by (simp add: with_leader_def proxy_follower split_beta split: option.split)

lemma with_leader_local:
  "\<not> (cfLeaderElectionEnabled cfg \<and> \<not> IsLeader (caElector a)) \<Longrightarrow>
    with_leader cfg get parse forward local req a = local req a"
  by (auto simp: with_leader_def proxy_ServeHTTP_def)

lemma core_server_post:
  assumes "rqMethod req = ''POST''" and "rqURL req = ''/events'' \<or> rqURL req = ''/v1/backends/register''"
  shows "core_server decode_error cfg get parse forward req a =
    apfst Some (with_leader cfg get parse forward
      (if rqURL req = ''/events'' then local_events decode_error else local_register decode_error) req a)"
  using assms by (auto simp: core_server_def Middleware_def core_mux split_beta prod_eq_iff)

text \<open>
  A replica that does not lead keeps its channel and its registry as they are, whatever it is
  sent; the leader, and a process without leader election, handle the request themselves.
\<close>

text \<open>
  C17: With leader election a replica that does not lead never touches its own channel or
  registry for an event or a registration; the leader, and a process without leader election,
  handle it themselves; every request gets an answer.
\<close>

theorem only_leader_handles:
  assumes "rqMethod req = ''POST''" and "rqURL req = ''/events'' \<or> rqURL req = ''/v1/backends/register''"
  shows "let (rsp, a') = core_server decode_error cfg get parse forward req a in
    rsp \<noteq> None \<and>
    (if cfLeaderElectionEnabled cfg \<and> \<not> IsLeader (caElector a)
     then caPool a' = caPool a \<and> caRegistry a' = caRegistry a
     else (rsp, a') = apfst Some (if rqURL req = ''/events'' then local_events decode_error req a
                                  else local_register decode_error req a))"
proof -
  let ?local = "if rqURL req = ''/events'' then local_events decode_error else local_register decode_error"
  note run = core_server_post [OF assms, of decode_error cfg get parse forward a]
  show ?thesis
  proof (cases "cfLeaderElectionEnabled cfg \<and> \<not> IsLeader (caElector a)")
    case True
    with with_leader_follower [of cfg a get parse forward ?local req] show ?thesis
      unfolding run by (simp add: split_beta)
  next
    case False
    with with_leader_local [OF False, of get parse forward ?local req] show ?thesis
      unfolding run by (auto simp: split_beta prod_eq_iff)
  qed
qed

section \<open>The configured action for duplicates\<close>

text \<open>
  \<open>Validate\<close> compares in lower case, the publisher compares the value as it was given: a setting
  that is valid only up to case never posts a thread reply.
\<close>

lemma duplicate_action_unused:
  fixes deps :: "('w, 'e) publisher_deps" and x :: string
  defines "deps' \<equiv> deps\<lparr>spDuplicateAction := x\<rparr>"
  shows "upsert_begin deps' = upsert_begin deps" and "upsert_deliver deps' = upsert_deliver deps"
proof -
  have same: "spSessionTTL deps' = spSessionTTL deps" "spBuild deps' = spBuild deps" "spResolve deps' = spResolve deps"
    "spSha256Hex deps' = spSha256Hex deps" by (simp_all add: deps'_def)
  have "current_session deps' = current_session deps" by (intro ext) (unfold current_session_def same, rule refl)
  then show "upsert_begin deps' = upsert_begin deps" by (intro ext) (simp add: upsert_begin_def same)
  have "deliver_group deps' = deliver_group deps" by (intro ext) (unfold deliver_group_def same, rule refl)
  then show "upsert_deliver deps' = upsert_deliver deps" by (intro ext) (simp add: upsert_deliver_def deliver_def)
qed

text \<open>
  A setting of the duplicate action that Validate accepts but that is not spelled "thread"
  behaves exactly like "drop", even where it is "thread" in other letters.
\<close>

lemma duplicate_action_case:
  assumes "config_validate cfg = []" and "cfDuplicateAction cfg \<noteq> ''thread''"
  shows "to_lower (cfDuplicateAction cfg) \<in> {''drop'', ''thread''} \<and>
    Upsert (main_publisher_deps cfg env sha rfc) now key evs sp w =
      Upsert (main_publisher_deps (cfg\<lparr>cfDuplicateAction := ''drop''\<rparr>) env sha rfc) now key evs sp w"
proof -
  let ?deps = "main_publisher_deps cfg env sha rfc"
  let ?drop = "main_publisher_deps (cfg\<lparr>cfDuplicateAction := ''drop''\<rparr>) env sha rfc"
  have deps: "?drop = ?deps\<lparr>spDuplicateAction := ''drop''\<rparr>" by (simp add: main_publisher_deps_def)
  have "to_lower (cfDuplicateAction cfg) \<in> {''drop'', ''thread''}"
    using assms(1) by (simp add: config_validate_Nil config_rules_def)
  moreover have "thread_replies ?deps ul d = d" "thread_replies ?drop ul d = d" for ul d
    using assms(2) by (auto intro!: thread_replies_drop simp: main_publisher_deps_def DuplicateActionThread_def)
  moreover note duplicate_action_unused [where deps = ?deps and x = "''drop''", folded deps]
  ultimately show ?thesis by (simp add: Upsert_def)
qed

section \<open>From the endpoint to the publisher\<close>

text \<open>
  The workers call \<open>Ingest\<close>: the history of the engine is the list of events they have ingested.
  When nothing is left in the channel, in the workers and in the buckets, what was accepted is
  what was handed to the publisher.
\<close>

text \<open>
  End to end: once channel, workers and buckets are empty, the events of a group and
  trigger that were answered with 202 are exactly those handed to the publisher, and with one
  worker in the same order.
\<close>

lemma accepted_is_published:
  assumes "pool_run (start_pool cap n) evs p" and "reachable ecfg s" and "esIngested s = plIngested p"
    and "plBuf p = []" and "in_work (plWorkers p) = []" and "waiting_of g t (esEngine s) = []"
  shows "mset (flushed_of g t (esFlushed s)) = mset (arrived_of g t evs) \<and>
    (n = 1 \<longrightarrow> flushed_of g t (esFlushed s) = arrived_of g t evs)"
proof -
  have "flushed_of g t (esFlushed s) = arrived_of g t (plIngested p)"
    using reachable_inv [OF assms(2)] assms(3,6) by (metis append_Nil2 fifo_inv_def)
  with pool_ok_run [OF assms(1)] assms(4,5) show ?thesis by (simp add: pool_ok_def arrived_of_def mset_filter)
qed

section \<open>Samples\<close>

text \<open>The defaults of the environment, with a spelling of the action that \<open>Validate\<close> accepts.\<close>

definition sample_config :: config where
  "sample_config = \<lparr>cfListenAddr = '':8080'', cfIngestQueueSize = 1024, cfWorkerCount = 4, cfGroupLabel = ''group'',
     cfIdleWindow = 30 * second, cfMaxWait = 300 * second, cfCombineTriggers = True, cfSessionTTL = 2700 * second,
     cfDuplicateAction = ''Thread'', cfBackendRegistryTTL = 90 * second, cfRemoteBackendRequestTimeout = 5 * second,
     cfLogLevel = ''info'', cfLogFormat = ''json'', cfLeaderElectionEnabled = True, cfLeaderElectionNamespace = ''ns'',
     cfLeaseName = ''lease'', cfLeaseDuration = 15 * second, cfRenewDeadline = 10 * second, cfRetryPeriod = 2 * second,
     cfPodName = ''1'', cfPodNamespace = ''ns'', cfLeaderProxyRequestTimeout = 5 * second, cfPprofEnabled = False,
     cfPprofAddr = '':6060''\<rparr>"

definition sample_app :: "nat core_app" where
  "sample_app = \<lparr>caPool = start_pool 1 1, caRegistry = NewRegistry 90, caElector = new_elector,
     caResolver = NewPodAddressResolver, caNow = 0, caWorld = 0\<rparr>"

lemma core_server_probes_witness:
  "core_server (\<lambda>s. s) sample_config sample_get sample_owner (\<lambda>u req w. (no_content, w))
     (sample_request\<lparr>rqMethod := ''GET'', rqURL := ''/readyz''\<rparr>) sample_app = (Some (write_status 200), sample_app)"
  using core_server_probes [of "\<lambda>s. s" sample_config sample_get sample_owner "\<lambda>u req w. (no_content, w)"
      "sample_request\<lparr>rqMethod := ''GET'', rqURL := ''/readyz''\<rparr>" sample_app] by (simp add: Let_def)

lemma only_leader_handles_witness:
  "caPool (snd (core_server (\<lambda>s. s) sample_config sample_get sample_owner (\<lambda>u req w. (no_content, w))
     sample_request sample_app)) = start_pool 1 1"
  using only_leader_handles [of sample_request "\<lambda>s. s" sample_config sample_get sample_owner "\<lambda>u req w. (no_content, w)" sample_app]
  by (simp add: sample_request_def split_beta sample_config_def sample_app_def new_elector_def IsLeader_def)

lemma duplicate_action_case_witness:
  "Upsert (main_publisher_deps sample_config sample_core (\<lambda>s. s) (\<lambda>t. [])) 5 sample_key [created] newSessionPublisher 0 =
   Upsert (main_publisher_deps (sample_config\<lparr>cfDuplicateAction := ''drop''\<rparr>) sample_core (\<lambda>s. s) (\<lambda>t. [])) 5 sample_key
     [created] newSessionPublisher 0"
proof -
  have "config_validate sample_config = []" by code_simp
  from duplicate_action_case [OF this, of sample_core "\<lambda>s. s" "\<lambda>t. []"] show ?thesis by (simp add: sample_config_def)
qed

lemma accepted_is_published_witness:
  "flushed_of ''g'' ''on-created'' (esFlushed sample_quiet) = [created]"
proof -
  have "esIngested sample_quiet = [created]" "waiting_of ''g'' ''on-created'' (esEngine sample_quiet) = []"
    "arrived_of ''g'' ''on-created'' [created] = [created]" by code_simp+
  with accepted_is_published [OF sample_ingested_run reachable_run [OF sample_arrived_reachable sample_run],
      of "''g''" "''on-created''"]
  show ?thesis by (simp add: sample_ingested_def start_pool_def RunWorkers_def)
qed

end
