(* ===== verification/Typing.thy ===== *)
theory Typing
  imports Utf8 Session
begin

text \<open>
  What an accepted event may hold, and what \<open>Build\<close> and the publisher make of it: every string of
  a message is valid UTF-8, except where \<open>truncate\<close> and \<open>commitSHA\<close> of build.go cut one inside a
  character.
\<close>

section \<open>Functions that keep strings valid\<close>

named_theorems utf8_intros \<open>functions that keep strings valid\<close>

lemma utf8_append [utf8_intros]: "utf8_valid a \<Longrightarrow> utf8_valid b \<Longrightarrow> utf8_valid (a @ b)"
  by (rule utf8_valid_append)

lemma trim_prefix_utf8 [utf8_intros]:
  assumes "utf8_valid s" and "utf8_valid p"
  shows "utf8_valid (trim_prefix s p)"
proof -
  have "utf8_valid (drop (length p) s)" if "take (length p) s = p"
    using assms utf8_valid_tail [of p "drop (length p) s"] append_take_drop_id [of "length p" s] that by simp
  with assms show ?thesis by (simp add: trim_prefix_def)
qed

lemma trim_suffix_utf8:
  assumes "utf8_valid s" and "p = [] \<or> \<not> continuation (hd p)"
  shows "utf8_valid (trim_suffix s p)"
proof -
  let ?k = "length s - length p"
  have "utf8_valid (take ?k s)" if "drop ?k s = p"
    using utf8_valid_split [of "take ?k s" "drop ?k s"] assms unfolding append_take_drop_id by (simp add: that)
  with assms(1) show ?thesis by (simp add: trim_suffix_def has_suffix_def)
qed

lemma trim_right_utf8 [utf8_intros]:
  assumes "utf8_valid s" and "\<forall>c \<in> set cutset. \<not> continuation c"
  shows "utf8_valid (trim_right s cutset)"
proof -
  let ?b = "rev (takeWhile (\<lambda>c. c \<in> set cutset) (rev s))"
  have s: "s = trim_right s cutset @ ?b"
    using takeWhile_dropWhile_id [of "\<lambda>c. c \<in> set cutset" "rev s"]
    by (simp add: trim_right_def flip: rev_append)
  have "?b = [] \<or> \<not> continuation (hd ?b)"
  proof (cases "?b = []")
    case False
    then have "hd ?b \<in> set ?b" by (rule hd_in_set)
    with assms(2) show ?thesis by (auto dest: set_takeWhileD)
  qed simp
  with s assms(1) utf8_valid_split [of "trim_right s cutset" ?b] show ?thesis by simp
qed

lemma join_utf8 [utf8_intros]: "list_all utf8_valid ss \<Longrightarrow> utf8_valid sep \<Longrightarrow> utf8_valid (join sep ss)"
  by (induction sep ss rule: join.induct) (auto intro: utf8_valid_append)

lemma pieces_utf8:
  "utf8_valid (join [c] ps) \<Longrightarrow> byte_in 0 0x7F c \<Longrightarrow> list_all utf8_valid ps"
proof (induction "[c]" ps rule: join.induct)
  case (3 s s' ss)
  then have "\<not> continuation c" by (auto simp: byte_in_def)
  with 3 utf8_valid_split [of s "c # join [c] (s' # ss)"] show ?case by simp
qed simp_all

lemma split_on_utf8: "utf8_valid s \<Longrightarrow> byte_in 0 0x7F c \<Longrightarrow> list_all utf8_valid (split_on c s)"
  using pieces_utf8 [of c "split_on c s"] by (simp add: join_split_on)

text \<open>The runes \<open>TrimSpace\<close> removes.\<close>

lemma ascii_space_byte: "ascii_space a \<Longrightarrow> byte_in 0 0x7F a"
  by (auto simp: ascii_space_def byte_in_def)

definition space_list :: "string list" where
  "space_list = [[CHR 0xE1, CHR 0x9A, CHR 0x80], [CHR 0xE2, CHR 0x81, CHR 0x9F], [CHR 0xE3, CHR 0x80, CHR 0x80]] @
     map (\<lambda>c. [CHR 0xE2, CHR 0x80, c])
       [CHR 0x80, CHR 0x81, CHR 0x82, CHR 0x83, CHR 0x84, CHR 0x85, CHR 0x86, CHR 0x87,
        CHR 0x88, CHR 0x89, CHR 0x8A, CHR 0xA8, CHR 0xA9, CHR 0xAF]"

lemma space_list_utf8: "list_all utf8_valid ([[CHR 0xC2, CHR 0x85], [CHR 0xC2, CHR 0xA0]] @ space_list)"
  by code_simp

lemma space3_list: "space3 a b c \<Longrightarrow> [a, b, c] \<in> set space_list"
  unfolding space3_def space_list_def by (elim disjE conjE insertE emptyE; simp)

lemma space_runes:
  "ascii_space a \<Longrightarrow> utf8_valid [a]" "space2 a b \<Longrightarrow> utf8_valid [a, b]" "space3 a b c \<Longrightarrow> utf8_valid [a, b, c]"
proof -
  show "space2 a b \<Longrightarrow> utf8_valid [a, b]" using space_list_utf8 unfolding space2_def by (elim conjE disjE; simp)
  show "space3 a b c \<Longrightarrow> utf8_valid [a, b, c]"
    using space_list_utf8 space3_list [of a b c] unfolding list_all_iff set_append by blast
qed (simp add: ascii_space_byte)

lemma space_leads: "ascii_space a \<or> space2 a b \<or> space3 a b c \<Longrightarrow> \<not> continuation a"
  by (auto simp: ascii_space_def space2_def space3_def byte_in_def)

lemma space_tails:
  "ascii_space a \<Longrightarrow> utf8_valid (a # s) \<Longrightarrow> utf8_valid s"
  "space2 a b \<Longrightarrow> utf8_valid (a # b # s) \<Longrightarrow> utf8_valid s"
  "space3 a b c \<Longrightarrow> utf8_valid (a # b # c # s) \<Longrightarrow> utf8_valid s"
  using utf8_valid_tail [of "[a]" s] utf8_valid_tail [of "[a, b]" s] utf8_valid_tail [of "[a, b, c]" s] space_runes
  by simp_all

lemma drop_space_utf8: "utf8_valid s \<Longrightarrow> utf8_valid (drop_space s)"
proof (induction s rule: drop_space.induct)
  case (4 a b c s)
  then show ?case using space_tails(1) [of a "b # c # s"] space_tails(2) [of a b "c # s"] space_tails(3) [of a b c s]
    by (auto simp del: utf8_valid_Cons)
qed (auto simp del: utf8_valid_Cons dest: space_tails(1))

text \<open>What is cut from the end of a string, given reversed, does not start inside a rune.\<close>

definition cut_before_rune :: "string \<Rightarrow> string \<Rightarrow> bool" where
  "cut_before_rune s r \<longleftrightarrow> (\<exists>t. rev s = rev r @ t \<and> (t = [] \<or> \<not> continuation (hd t)))"

lemma cut_before_rune_refl: "cut_before_rune s s"
  by (simp add: cut_before_rune_def)

lemma cut_before_rune_more:
  assumes "cut_before_rune s r" and "\<not> continuation (last u)" and "u \<noteq> []"
  shows "cut_before_rune (u @ s) r"
proof -
  from assms(1) obtain t where t: "rev s = rev r @ t" "t = [] \<or> \<not> continuation (hd t)"
    by (auto simp: cut_before_rune_def)
  have "hd (t @ rev u) = (if t = [] then last u else hd t)" using assms(3) by (cases t) (simp_all add: hd_rev)
  with t assms(2) show ?thesis unfolding cut_before_rune_def
    by (intro exI [of _ "t @ rev u"]) (auto simp del: hd_append)
qed

lemma drop_space_rev_split: "cut_before_rune s (drop_space_rev s)"
proof (induction s rule: drop_space_rev.induct)
  case (4 c b a s)
  show ?case
    using 4 cut_before_rune_more [of "b # a # s" _ "[c]"] cut_before_rune_more [of "a # s" _ "[c, b]"]
      cut_before_rune_more [of s _ "[c, b, a]"] space_leads [of c] space_leads [of b c] space_leads [of a b c]
    by (simp add: cut_before_rune_refl)
next
  case (3 b a)
  show ?case
    using 3 cut_before_rune_more [of "[a]" _ "[b]"] cut_before_rune_more [of "[]" "[]" "[b, a]"]
      space_leads [of b] space_leads [of a b] by (simp add: cut_before_rune_refl)
next
  case (2 a)
  show ?case using cut_before_rune_more [of "[]" "[]" "[a]"] space_leads [of a] by (simp add: cut_before_rune_refl)
qed (simp add: cut_before_rune_refl)

lemma trim_space_utf8 [utf8_intros]: "utf8_valid s \<Longrightarrow> utf8_valid (trim_space s)"
proof -
  assume "utf8_valid s"
  then have valid: "utf8_valid (drop_space s)" by (rule drop_space_utf8)
  obtain t where t: "drop_space s = trim_space s @ t" "t = [] \<or> \<not> continuation (hd t)"
    using drop_space_rev_split [of "rev (drop_space s)"] by (auto simp: cut_before_rune_def trim_space_def)
  with valid have "utf8_valid (trim_space s @ t)" by simp
  from utf8_valid_split [OF this t(2)] show ?thesis by simp
qed

lemma splitRecipients_utf8: "utf8_valid s \<Longrightarrow> r \<in> set (splitRecipients s) \<Longrightarrow> utf8_valid r"
  using split_on_utf8 [of s "CHR '';''"]
  by (auto simp: splitRecipients_def list_all_iff byte_in_def intro: utf8_intros split: if_splits)

lemma itoa_utf8 [utf8_intros]: "utf8_valid (itoa n)"
proof (induction n rule: itoa.induct)
  case (1 n)
  have digit: "utf8_valid [''0123456789'' ! k]" if "k < 10" for k
  proof -
    have "list_all (\<lambda>c. byte_in 0 0x7F c) ''0123456789''" by code_simp
    with that have "byte_in 0 0x7F (''0123456789'' ! k)" by (simp add: list_all_length)
    then show ?thesis by simp
  qed
  show ?case
    using 1 digit [of n] digit [of "n mod 10"]
    by (subst itoa.simps) (auto intro: utf8_intros)
qed

lemma em_dash_utf8 [utf8_intros]: "utf8_valid em_dash"
  unfolding em_dash_def by code_simp

section \<open>Events and messages\<close>

text \<open>An event the endpoint accepts: its strings are valid, and the required ones are present.\<close>

definition event_ok :: "event \<Rightarrow> bool" where
  "event_ok ev \<longleftrightarrow> event_typed ev \<and> event_validate ev = []"

lemma decoded_event_typed: "decode_body decode_event zero_event body = Some ev \<Longrightarrow> event_typed ev"
  by (rule decode_body_yields [OF yields_event zero_event_typed])

lemma event_typedD:
  assumes "event_typed ev"
  shows "utf8_valid (evGroupKey ev)" "utf8_valid (evAppName ev)" "utf8_valid (evTrigger ev)" "utf8_valid (evRevision ev)"
    "utf8_valid (evRecipient ev)" "utf8_valid (evBackend ev)" "utf8_valid (evTarget ev)" "utf8_valid (evHealthStatus ev)"
    "utf8_valid (evSyncPhase ev)" "utf8_valid (evSyncStatus ev)" "utf8_valid (evOperationMsg ev)" "utf8_valid (evRepoURL ev)"
    "utf8_valid (evInitiatedBy ev)" "utf8_valid (evArgoCDURL ev)" "utf8_valid (evTargetRevision ev)"
    "list_all utf8_valid (evImages ev)"
  using assms by (simp_all add: event_typed_def)

text \<open>The two cuts fall between characters.\<close>

definition cuts_clean :: "event \<Rightarrow> bool" where
  "cuts_clean ev \<longleftrightarrow>
     (300 < length (evOperationMsg ev) \<longrightarrow> utf8_valid (take 300 (evOperationMsg ev))) \<and>
     (8 < length (evRevision ev) \<longrightarrow> utf8_valid (take 8 (evRevision ev)))"

text \<open>A revision in hexadecimal and a short message are never cut inside a character.\<close>

lemma cuts_clean_ascii:
  assumes "list_all (byte_in 0 0x7F) (evRevision ev)"
    and "length (evOperationMsg ev) \<le> 300 \<or> list_all (byte_in 0 0x7F) (evOperationMsg ev)"
  shows "cuts_clean ev"
proof -
  have cut: "utf8_valid (take n s)" if "list_all (byte_in 0 0x7F) s" for n s
    by (rule utf8_valid_ascii) (use that in \<open>auto simp: list_all_iff dest: in_set_takeD\<close>)
  with assms show ?thesis by (auto simp: cuts_clean_def)
qed

lemma literals_utf8 [utf8_intros]:
  "utf8_valid ''?''" "utf8_valid ''auto-sync''" "utf8_valid ''Unknown''" "utf8_valid '':large_yellow_circle: Degraded''"
  "utf8_valid ''Phase''" "utf8_valid ''Health''" "utf8_valid ''Sync Status''" "utf8_valid ''/commit/''"
  "utf8_valid ''/applications/''" "utf8_valid ''...''" "utf8_valid '' ''" "utf8_valid '', ''" "utf8_valid ''on-''"
  by code_simp+

lemma orDefault_utf8 [utf8_intros]: "utf8_valid s \<Longrightarrow> utf8_valid d \<Longrightarrow> utf8_valid (orDefault s d)"
  by (simp add: orDefault_def)

lemma built_strings_utf8:
  assumes "event_typed ev"
  shows "utf8_valid (cluster ev)" "utf8_valid (argoCDLink ev)" "utf8_valid (commitURL ev)"
  using event_typedD [OF assms] trim_suffix_utf8 [of "evRepoURL ev" "''.git''"]
  by (auto simp: cluster_def argoCDLink_def commitURL_def byte_in_def intro!: utf8_intros)

lemma cut_strings_utf8:
  assumes "event_typed ev" and "cuts_clean ev"
  shows "utf8_valid (commitSHA ev)" "utf8_valid (truncate_msg (evOperationMsg ev) 300)"
  using event_typedD [OF assms(1)] assms(2)
  by (auto simp: commitSHA_def truncate_msg_def cuts_clean_def intro!: utf8_intros)

lemma built_item_utf8:
  assumes "map_of triggerBuilders t = Some b" and "event_typed ev" and "cuts_clean ev"
  shows "item_utf8 (b ev)"
proof -
  note facts = event_typedD [OF assms(2)] built_strings_utf8 [OF assms(2)] cut_strings_utf8 [OF assms(2,3)]
    literals_utf8 orDefault_utf8
  from assms(1) have "(t, b) \<in> set triggerBuilders" by (rule map_of_SomeD)
  then consider "b = buildCreatedItem" | "b = buildDeletedItem" | "b = buildDeployedItem" | "b = buildHealthDegradedItem"
    | "b = buildSyncFailedItem" | "b = buildSyncRunningItem" | "b = buildSyncStatusUnknownItem"
    | "b = buildSyncSucceededItem" unfolding triggerBuilders_def by auto
  then show ?thesis
    by cases (simp_all add: item_utf8_def zero_item_def facts buildCreatedItem_def buildDeletedItem_def buildDeployedItem_def
      buildHealthDegradedItem_def buildSyncFailedItem_def buildSyncRunningItem_def buildSyncStatusUnknownItem_def
      buildSyncSucceededItem_def)
qed

lemma Build_utf8:
  assumes "Build m = Inr n" and "gwf m" and "\<forall>(a, ev) \<in> set m. event_typed ev \<and> cuts_clean ev \<and> evGroupKey ev = g"
  shows "notification_utf8 n"
proof -
  from assms(1) have ne: "m \<noteq> []" by (auto simp: Build_def)
  let ?ns = "sorted_list_of_set (fst ` set m)"
  have n: "n = \<lparr>nSummary = summary_spec g m, nItems = build_items m ?ns\<rparr>"
    using Build_eq [OF assms(2) ne, of g] assms(1,3) by auto
  obtain a ev where "(a, ev) \<in> set m" using ne by (cases m) auto
  with assms(3) have g: "utf8_valid g" using event_typedD(1) [of ev] by auto
  have triggers: "utf8_valid (evTrigger (snd p))" if "p \<in> set m" for p
    using that assms(3) event_typedD(3) by fastforce
  have "utf8_valid (summary_spec g m)"
    unfolding summary_spec_def
    by (intro utf8_intros g) (use triggers in \<open>auto simp: list_all_iff byte_in_def comp_def
        intro!: itoa_utf8 trim_prefix_utf8 utf8_valid_append literals_utf8\<close>)
  moreover have "item_utf8 it" if it: "it \<in> set (build_items m ?ns)" for it
  proof -
    obtain k b where k: "k \<in> set ?ns" and b: "map_of triggerBuilders (evTrigger (gget zero_event m k)) = Some b"
      "it = b (gget zero_event m k)"
      using build_items_mem [OF it] by blast
    from k obtain ev where mem: "(k, ev) \<in> set m" by auto
    with assms(2) have "gget zero_event m k = ev" by (simp add: gget_Some)
    with b mem assms(3) built_item_utf8 [of _ b ev] show ?thesis by auto
  qed
  ultimately show ?thesis by (simp add: n notification_utf8_def list_all_iff)
qed

text \<open>A cut inside a character: the eighth byte of this revision is the first of two.\<close>

definition split_event :: event where
  "split_event = (sample_event ''a'' ''on-deployed'')\<lparr>evRevision := ''release'' @ [CHR 0xC3, CHR 0xA9]\<rparr>"

lemma cut_splits_character:
  "event_ok split_event \<and> \<not> utf8_valid (commitSHA split_event) \<and>
   (case Build [(''a'', split_event)] of Inl _ \<Rightarrow> False | Inr n \<Rightarrow> \<not> notification_utf8 n)"
  by code_simp

end
