(* ===== verification/Process.thy ===== *)
theory Process
  imports App Typing
begin

text \<open>
  The core process as a whole: server, channel and workers, engine, flush goroutines, session
  store, registry and elector, with everything that can happen in any order. The state has the
  parts of the other theories; a goroutine of \<open>flush\<close> is a job that works through the session
  keys of its batch, and each of its calls of \<open>Upsert\<close> is several steps, so that the locked
  sections of different jobs interleave. \<open>psAccepted\<close>, \<open>psUpserted\<close> and \<open>psCalls\<close> are the history:
  the events answered with 202, the batches stored, and the backend calls with their results.
\<close>

section \<open>What is outside\<close>

record ('w, 'e) externals =
  exDo :: "'w \<Rightarrow> http_request \<Rightarrow> ('e + http_response) \<times> 'w"
  exResolveURL :: "string \<Rightarrow> string \<Rightarrow> string option"
  exGetPod :: "string \<Rightarrow> 'w \<Rightarrow> ('e + string) \<times> 'w"
  exParse :: "string \<Rightarrow> string option"
  exForward :: "string option \<Rightarrow> http_request \<Rightarrow> 'w \<Rightarrow> http_response \<times> 'w"
  exSha256Hex :: "string \<Rightarrow> string"
  exRFC3339 :: "int \<Rightarrow> string"
  exDecodeError :: "string \<Rightarrow> string"

text \<open>The backends are looked up in the registry of the process and called through its client.\<close>

definition main_env :: "('w, 'e) externals \<Rightarrow> ('w core_app, 'e) remote_env" where
  "main_env x = \<lparr>reRegistry = caRegistry, reNow = caNow,
     reDo = (\<lambda>a req. case exDo x (caWorld a) req of (res, w) \<Rightarrow> (res, a\<lparr>caWorld := w\<rparr>)),
     reResolveURL = exResolveURL x\<rparr>"

definition main_deps :: "config \<Rightarrow> ('w, 'e) externals \<Rightarrow> ('w core_app, 'e remote_error) publisher_deps" where
  "main_deps cfg x = main_publisher_deps cfg (main_env x) (exSha256Hex x) (exRFC3339 x)"

definition main_server :: "config \<Rightarrow> ('w, 'e) externals \<Rightarrow> 'w core_app handler_func" where
  "main_server cfg x = core_server (exDecodeError x) cfg (exGetPod x) (exParse x) (exForward x)"

section \<open>The flush goroutines\<close>

text \<open>Where a call of \<open>Upsert\<close> is: not begun, in the delivery loop, or in the loop of the replies.\<close>

datatype ('w, 'e) stage =
    Idle
  | Delivering session_key upsert_local "(ref_key \<times> (string, event) gomap) list" "('w, 'e) delivery"
  | Replying session_key upsert_local "event list" "('w, 'e) delivery"

record ('w, 'e) flush_job =
  fjTodo :: "(session_key \<times> event list) list"
  fjStage :: "('w, 'e) stage"

text \<open>The loops of \<open>flush\<close> range over maps: over the buckets, and over the batches by session.\<close>

inductive starts_job :: "engine_config \<Rightarrow> (string \<times> buckets) option \<Rightarrow> ('w, 'e) flush_job list \<Rightarrow> bool" for cfg where
  nothing: "starts_job cfg None []"
| batch: "mset bs' = mset bs \<Longrightarrow> mset todo = mset (sessionize cfg g bs') \<Longrightarrow>
     starts_job cfg (Some (g, bs)) [\<lparr>fjTodo = todo, fjStage = Idle\<rparr>]"

definition new_calls :: "('w, 'e) delivery \<Rightarrow> ('w, 'e) delivery \<Rightarrow> 'e backend_call list" where
  "new_calls d d' = drop (length (dCalls d)) (dCalls d')"

text \<open>
  One step of a job, with the batch it stores and the calls it makes: the first locked section,
  one round of the delivery loop (over a map, and with the messages of a map), the second locked
  section, one round of the reply loop, and the end of the call.
\<close>

inductive job_step :: "config \<Rightarrow> ('w, 'e) externals \<Rightarrow> 'w core_app \<times> session_publisher \<times> ('w core_app, 'e remote_error) flush_job \<Rightarrow>
    (session_key \<times> event list) list \<Rightarrow> (session_key \<times> 'e remote_error backend_call) list \<Rightarrow>
    'w core_app \<times> session_publisher \<times> ('w core_app, 'e remote_error) flush_job \<Rightarrow> bool" for cfg x where
  upsert_nothing: "job_step cfg x (a, sp, \<lparr>fjTodo = (key, []) # todo, fjStage = Idle\<rparr>) [] []
     (a, sp, \<lparr>fjTodo = todo, fjStage = Idle\<rparr>)"
| upsert_first: "evs \<noteq> [] \<Longrightarrow> upsert_begin (main_deps cfg x) (caNow a) key evs sp = (ul, sp') \<Longrightarrow>
     mset m = mset (ulPerApp ul) \<Longrightarrow>
     mset gs = mset (if ulChanged ul then groupAppsByBackendRecipient m else []) \<Longrightarrow>
     job_step cfg x (a, sp, \<lparr>fjTodo = (key, evs) # todo, fjStage = Idle\<rparr>) [(key, evs)] []
       (a, sp', \<lparr>fjTodo = todo, fjStage = Delivering key ul gs (no_delivery a)\<rparr>)"
| upsert_send: "deliver_group (main_deps cfg x) (ulRefs ul) g (d\<lparr>dWorld := a\<rparr>) = d' \<Longrightarrow>
     job_step cfg x (a, sp, \<lparr>fjTodo = todo, fjStage = Delivering key ul (g # gs) d\<rparr>) [] (map (Pair key) (new_calls d d'))
       (dWorld d', sp, \<lparr>fjTodo = todo, fjStage = Delivering key ul gs d'\<rparr>)"
| upsert_second: "job_step cfg x (a, sp, \<lparr>fjTodo = todo, fjStage = Delivering key ul [] d\<rparr>) [] []
     (a, upsert_commit key (ulAddr ul) (dNewRefs d) sp,
      \<lparr>fjTodo = todo, fjStage = Replying key ul
        (if cfDuplicateAction cfg = DuplicateActionThread then ulDuplicates ul else []) d\<rparr>)"
| upsert_reply: "thread_reply (main_deps cfg x) (ulNow ul) (ulRefs ul) ev (d\<lparr>dWorld := a\<rparr>) = d' \<Longrightarrow>
     job_step cfg x (a, sp, \<lparr>fjTodo = todo, fjStage = Replying key ul (ev # evs) d\<rparr>) [] (map (Pair key) (new_calls d d'))
       (dWorld d', sp, \<lparr>fjTodo = todo, fjStage = Replying key ul evs d'\<rparr>)"
| upsert_return: "job_step cfg x (a, sp, \<lparr>fjTodo = todo, fjStage = Replying key ul [] d\<rparr>) [] []
     (a, sp, \<lparr>fjTodo = todo, fjStage = Idle\<rparr>)"

section \<open>The process\<close>

record ('w, 'e) process =
  psApp :: "'w core_app"
  psEngine :: engine_sys
  psStore :: session_publisher
  psJobs :: "('w core_app, 'e remote_error) flush_job list"
  psServing :: bool
  psExited :: bool
  psAccepted :: "event list"
  psUpserted :: "(session_key \<times> event list) list"
  psCalls :: "(session_key \<times> 'e remote_error backend_call) list"

definition start_app :: "config \<Rightarrow> int \<Rightarrow> 'w \<Rightarrow> 'w core_app" where
  "start_app cfg now w = \<lparr>caPool = start_pool (cfIngestQueueSize cfg) (cfWorkerCount cfg),
     caRegistry = NewRegistry (cfBackendRegistryTTL cfg), caElector = new_elector,
     caResolver = NewPodAddressResolver, caNow = now, caWorld = w\<rparr>"

definition start_process :: "config \<Rightarrow> int \<Rightarrow> 'w \<Rightarrow> ('w, 'e) process" where
  "start_process cfg now w = \<lparr>psApp = start_app cfg now w, psEngine = init_sys now, psStore = newSessionPublisher,
     psJobs = [], psServing = True, psExited = False, psAccepted = [], psUpserted = [], psCalls = []\<rparr>"

text \<open>
  What happens on the way in, apart from requests: time passes, the outside world changes, the
  election calls back, a worker waits, takes an event or returns, a worker ingests, a timer
  expires.
\<close>

inductive intake_step :: "config \<Rightarrow> 'w core_app \<times> engine_sys \<Rightarrow> 'w core_app \<times> engine_sys \<Rightarrow> bool" for cfg where
  pass: "0 \<le> d \<Longrightarrow> intake_step cfg (a, e) (a\<lparr>caNow := caNow a + d\<rparr>, es_tick d e)"
| outside: "intake_step cfg (a, e) (a\<lparr>caWorld := w\<rparr>, e)"
| election: "intake_step cfg (a, e) (a\<lparr>caElector := on_callback cb (caElector a)\<rparr>, e)"
| work: "pool_step (caPool a) [] p \<Longrightarrow> plIngested p = plIngested (caPool a) \<Longrightarrow> plCancelled p = plCancelled (caPool a) \<Longrightarrow>
     intake_step cfg (a, e) (a\<lparr>caPool := p\<rparr>, e)"
| ingest: "plWorkers (caPool a) = pre @ Busy ev # post \<Longrightarrow>
     intake_step cfg (a, e) (a\<lparr>caPool := (caPool a)\<lparr>plWorkers := pre @ Ready # post, plIngested := plIngested (caPool a) @ [ev]\<rparr>\<rparr>,
       es_arrive (main_engine_config cfg) ev e)"
| expire: "tm \<in> set (clkArmed (es_clock e)) \<Longrightarrow> tmDeadline tm \<le> clkNow (es_clock e) \<Longrightarrow>
     intake_step cfg (a, e) (a, es_expire tm e)"

text \<open>The events this process accepts with an answer: those its own endpoint has put into the channel.\<close>

definition takes_events :: "config \<Rightarrow> http_request \<Rightarrow> 'w core_app \<Rightarrow> bool" where
  "takes_events cfg req a \<longleftrightarrow> rqMethod req = ''POST'' \<and> rqURL req = ''/events'' \<and>
     (cfLeaderElectionEnabled cfg \<longrightarrow> IsLeader (caElector a))"

definition taken :: "config \<Rightarrow> http_request \<Rightarrow> 'w core_app \<Rightarrow> http_response \<Rightarrow> event list" where
  "taken cfg req a rsp = (if takes_events cfg req a then accepted (rqBody req) rsp else [])"

text \<open>
  The steps of the process. A signal cancels the context, of which only the workers take notice;
  \<open>main\<close> then shuts the server down, and returns.
\<close>

inductive process_step :: "config \<Rightarrow> ('w, 'e) externals \<Rightarrow> ('w, 'e) process \<Rightarrow> ('w, 'e) process \<Rightarrow> bool" for cfg x where
  intake: "\<not> psExited s \<Longrightarrow> intake_step cfg (psApp s, psEngine s) (a, e) \<Longrightarrow>
     process_step cfg x s (s\<lparr>psApp := a, psEngine := e\<rparr>)"
| request: "\<not> psExited s \<Longrightarrow> psServing s \<Longrightarrow> main_server cfg x req (psApp s) = (Some rsp, a) \<Longrightarrow>
     process_step cfg x s (s\<lparr>psApp := a, psAccepted := psAccepted s @ taken cfg req (psApp s) rsp\<rparr>)"
| callback: "\<not> psExited s \<Longrightarrow> cb \<in> set (esInflight (psEngine s)) \<Longrightarrow>
     starts_job (main_engine_config cfg) (snd (onTimerFire (fst cb) (snd cb) (esEngine (psEngine s)))) js \<Longrightarrow>
     process_step cfg x s (s\<lparr>psEngine := es_callback cb (psEngine s), psJobs := psJobs s @ js\<rparr>)"
| job: "\<not> psExited s \<Longrightarrow> psJobs s = pre @ j # post \<Longrightarrow> job_step cfg x (psApp s, psStore s, j) ups cs (a, sp, j') \<Longrightarrow>
     process_step cfg x s (s\<lparr>psApp := a, psStore := sp, psJobs := pre @ j' # post,
       psUpserted := psUpserted s @ ups, psCalls := psCalls s @ cs\<rparr>)"
| leave: "\<not> psExited s \<Longrightarrow> psJobs s = pre @ \<lparr>fjTodo = [], fjStage = Idle\<rparr> # post \<Longrightarrow>
     process_step cfg x s (s\<lparr>psJobs := pre @ post\<rparr>)"
| signal: "\<not> psExited s \<Longrightarrow>
     process_step cfg x s (s\<lparr>psApp := (psApp s)\<lparr>caPool := (caPool (psApp s))\<lparr>plCancelled := True\<rparr>\<rparr>\<rparr>)"
| shutdown: "\<not> psExited s \<Longrightarrow> plCancelled (caPool (psApp s)) \<Longrightarrow> process_step cfg x s (s\<lparr>psServing := False\<rparr>)"
| exit: "\<not> psExited s \<Longrightarrow> plCancelled (caPool (psApp s)) \<Longrightarrow> \<not> psServing s \<Longrightarrow> process_step cfg x s (s\<lparr>psExited := True\<rparr>)"

inductive process_run :: "config \<Rightarrow> ('w, 'e) externals \<Rightarrow> ('w, 'e) process \<Rightarrow> ('w, 'e) process \<Rightarrow> bool" for cfg x s0 where
  run_start: "process_run cfg x s0 s0"
| run_more: "process_run cfg x s0 s \<Longrightarrow> process_step cfg x s s' \<Longrightarrow> process_run cfg x s0 s'"

definition process_reachable :: "config \<Rightarrow> ('w, 'e) externals \<Rightarrow> ('w, 'e) process \<Rightarrow> bool" where
  "process_reachable cfg x s \<longleftrightarrow> (\<exists>now w. process_run cfg x (start_process cfg now w) s)"

lemma process_run_trans: "process_run cfg x t u \<Longrightarrow> process_run cfg x s t \<Longrightarrow> process_run cfg x s u"
  by (induction rule: process_run.induct) (auto intro: process_run.run_more)

lemma process_reachable_run: "process_reachable cfg x s \<Longrightarrow> process_run cfg x s s' \<Longrightarrow> process_reachable cfg x s'"
  unfolding process_reachable_def by (blast intro: process_run_trans)

section \<open>The way in\<close>

inductive_cases intake_stepE: "intake_step cfg (a, e) (a', e')"
inductive_cases process_stepE: "process_step cfg x s s'"
inductive_cases job_stepE: "job_step cfg x (a, sp, j) ups cs (a', sp', j')"
inductive_cases starts_jobE: "starts_job cfg batch js"

lemma with_leader_frame:
  assumes "\<And>req a. caNow (snd (local req a)) = caNow a \<and> caElector (snd (local req a)) = caElector a"
  shows "caNow (snd (with_leader cfg get parse forward local req a)) = caNow a \<and>
    caElector (snd (with_leader cfg get parse forward local req a)) = caElector a"
  using assms
  by (auto simp: with_leader_def proxy_ServeHTTP_def main_leaderAddr_def split_beta split: option.split)

lemma local_frames:
  "caNow (snd (local_events de req a)) = caNow a \<and> caElector (snd (local_events de req a)) = caElector a"
  "caNow (snd (local_register de req a)) = caNow a \<and> caElector (snd (local_register de req a)) = caElector a"
  by (simp_all add: local_events_def local_register_def split: prod.split)

text \<open>What a request does to the process: it may put the event it is answered 202 for into the channel.\<close>

lemma request_effect:
  assumes "main_server cfg x req a = (Some rsp, a')"
  shows "caNow a' = caNow a \<and> caElector a' = caElector a \<and>
    (takes_events cfg req a \<and> receiver_ServeHTTP (exDecodeError x) (rqBody req) (caPool a) = (rsp, caPool a') \<or>
     \<not> takes_events cfg req a \<and> caPool a' = caPool a)"
proof (cases "rqMethod req = ''POST'' \<and> (rqURL req = ''/events'' \<or> rqURL req = ''/v1/backends/register'')")
  case True
  let ?local = "if rqURL req = ''/events'' then local_events (exDecodeError x) else local_register (exDecodeError x)"
  obtain r b where run: "with_leader cfg (exGetPod x) (exParse x) (exForward x) ?local req a = (r, b)" by force
  have "main_server cfg x req a = (Some r, b)"
    unfolding main_server_def core_server_post [OF True [THEN conjunct1] True [THEN conjunct2]] run by simp
  with assms run have eq: "(rsp, a') = with_leader cfg (exGetPod x) (exParse x) (exForward x) ?local req a" by simp
  have local: "caNow (snd (?local req a)) = caNow a \<and> caElector (snd (?local req a)) = caElector a" for req a
    by (simp add: local_frames)
  have a': "a' = snd (with_leader cfg (exGetPod x) (exParse x) (exForward x) ?local req a)"
    using arg_cong [OF eq, of snd] by (simp only: snd_conv)
  have frame: "caNow a' = caNow a \<and> caElector a' = caElector a"
    unfolding a' by (rule with_leader_frame) (rule local)
  show ?thesis
  proof (cases "cfLeaderElectionEnabled cfg \<and> \<not> IsLeader (caElector a)")
    case follower: True
    with with_leader_follower [of cfg a "exGetPod x" "exParse x" "exForward x" ?local req] eq
    have "caPool a' = caPool a" unfolding a' by blast
    with follower frame show ?thesis by (simp add: takes_events_def)
  next
    case False
    with with_leader_local [OF False, of "exGetPod x" "exParse x" "exForward x" ?local req] eq
    have "(rsp, a') = ?local req a" by simp
    with True False frame show ?thesis
      by (auto simp: takes_events_def local_events_def local_register_def split: prod.splits if_splits)
  qed
next
  case False
  let ?serve = "serve_mux (core_routes [] (\<lambda>req a. apfst Some (with_leader cfg (exGetPod x) (exParse x) (exForward x)
      (local_events (exDecodeError x)) req a)) HealthzHandler (ReadyzHandler None)
    (\<lambda>req a. apfst Some (with_leader cfg (exGetPod x) (exParse x) (exForward x) (local_register (exDecodeError x)) req a))) req a"
  from False have serve: "snd ?serve = a" "fst ?serve \<noteq> None"
  proof -
    consider "rqURL req = ''/healthz''" | "rqURL req = ''/readyz''" | "rqURL req \<notin> {''/events'', ''/v1/backends/register'', ''/healthz'', ''/readyz''}"
      | "rqURL req = ''/events''" "rqMethod req \<noteq> ''POST''" | "rqURL req = ''/v1/backends/register''" "rqMethod req \<noteq> ''POST''"
      using False by auto
    then have "snd ?serve = a \<and> fst ?serve \<noteq> None"
      by cases (simp_all add: core_mux HealthzHandler_def ReadyzHandler_def)
    then show "snd ?serve = a" "fst ?serve \<noteq> None" by simp_all
  qed
  then obtain r where "?serve = (Some r, a)" by (cases ?serve) auto
  then have "main_server cfg x req a = (Some r, a)" unfolding main_server_def core_server_def Let_def
    by (rule Middleware_Some)
  with assms have "a' = a" by simp
  moreover have "\<not> takes_events cfg req a" using False by (auto simp: takes_events_def)
  ultimately show ?thesis by simp
qed

lemma request_pool:
  assumes "main_server cfg x req a = (Some rsp, a')"
  shows "pool_step (caPool a) (taken cfg req a rsp) (caPool a') \<or> taken cfg req a rsp = [] \<and> caPool a' = caPool a"
  using request_effect [OF assms] by (auto simp: taken_def intro: pool_step.request)

lemma request_counts:
  assumes "main_server cfg x req a = (Some rsp, a')"
  shows "plIngested (caPool a') = plIngested (caPool a) \<and> plCancelled (caPool a') = plCancelled (caPool a)"
proof -
  have "plIngested p' = plIngested p \<and> plCancelled p' = plCancelled p"
    if "receiver_ServeHTTP de body p = (rsp, p')" for de body p p'
    using that by (cases rule: request_cases) (auto elim: try_send_cases)
  with request_effect [OF assms] show ?thesis by auto
qed

definition intake_ok :: "config \<Rightarrow> ('w, 'e) process \<Rightarrow> bool" where
  "intake_ok cfg s \<longleftrightarrow>
     pool_ok (cfIngestQueueSize cfg) (cfWorkerCount cfg) (psAccepted s) (caPool (psApp s)) \<and>
     reachable (main_engine_config cfg) (psEngine s) \<and> esIngested (psEngine s) = plIngested (caPool (psApp s)) \<and>
     clkNow (es_clock (psEngine s)) = caNow (psApp s)"

lemma intake_ok_start: "intake_ok cfg (start_process cfg now w)"
  by (auto simp: intake_ok_def start_process_def start_app_def pool_ok_start reachable_def intro: engine_run.run_refl)
    (simp_all add: init_sys_def start_pool_def RunWorkers_def newEngine_def new_clock_def)

lemma reachable_step: "reachable cfg e \<Longrightarrow> engine_step cfg e e' \<Longrightarrow> reachable cfg e'"
  by (blast intro: reachable_run engine_run.intros)

lemma engine_frames [simp]:
  "esIngested (es_tick d e) = esIngested e" "esIngested (es_expire tm e) = esIngested e"
  "esIngested (es_callback cb e) = esIngested e" "esIngested (es_arrive c ev e) = esIngested e @ [ev]"
  "esFlushed (es_tick d e) = esFlushed e" "esFlushed (es_expire tm e) = esFlushed e" "esFlushed (es_arrive c ev e) = esFlushed e"
  "clkNow (es_clock (es_tick d e)) = clkNow (es_clock e) + d" "clkNow (es_clock (es_expire tm e)) = clkNow (es_clock e)"
  "clkNow (es_clock (es_callback cb e)) = clkNow (es_clock e)" "clkNow (es_clock (es_arrive c ev e)) = clkNow (es_clock e)"
  by (simp_all add: es_tick_def es_expire_def es_callback_def es_arrive_def Ingest_eq ingested_clock_def Let_def
      onTimerFire_eq fired_clock_def split: prod.split)

lemma intake_step_ok:
  assumes "intake_step cfg (a, e) (a', e')" and "pool_ok cap n evs (caPool a)" and "reachable (main_engine_config cfg) e"
    and "esIngested e = plIngested (caPool a)" and "clkNow (es_clock e) = caNow a"
  shows "pool_ok cap n evs (caPool a') \<and> reachable (main_engine_config cfg) e' \<and> esIngested e' = plIngested (caPool a') \<and>
    clkNow (es_clock e') = caNow a' \<and> esFlushed e' = esFlushed e"
  using assms(1)
proof cases
  case (pass d)
  with assms(2-5) show ?thesis by (auto intro: reachable_step engine_step.tick)
next
  case (work p)
  with assms(2-5) pool_ok_step [OF assms(2) work(3)] show ?thesis by simp
next
  case (ingest pre ev post)
  with assms(2-5) pool_ok_step [OF assms(2) pool_step.finish [OF ingest(3)]] show ?thesis
    by (auto intro: reachable_step engine_step.arrive)
next
  case (expire tm)
  with assms(2-5) reachable_step [OF assms(3) engine_step.expire [OF expire(3)]] show ?thesis by simp
qed (use assms(2-5) in auto)

text \<open>The calls of backends change nothing of the process itself.\<close>

definition world_only :: "'w core_app \<Rightarrow> 'w core_app \<Rightarrow> bool" where
  "world_only a a' \<longleftrightarrow> (\<exists>w. a' = a\<lparr>caWorld := w\<rparr>)"

lemma world_only_refl [simp]: "world_only a a"
  unfolding world_only_def by (intro exI [of _ "caWorld a"]) simp

lemma world_only_trans: "world_only a b \<Longrightarrow> world_only b c \<Longrightarrow> world_only a c"
  by (auto simp: world_only_def)

lemma world_onlyD:
  "world_only a a' \<Longrightarrow> caPool a' = caPool a \<and> caRegistry a' = caRegistry a \<and> caElector a' = caElector a \<and> caNow a' = caNow a"
  by (auto simp: world_only_def)

lemma exchange_world: "world_only a (snd (exchange (main_env x) a req server))"
  by (auto simp: exchange_def main_env_def world_only_def split: option.split prod.split sum.split)
    (metis surjective_pairing core_app.surjective core_app.update_convs(6))+

lemma remote_notify_world: "world_only a (snd (remote_notify (main_env x) name a recipient ref n))"
  using exchange_world [of a x]
  by (auto simp: remote_notify_def Let_def split: option.split prod.split sum.split bool.split) (metis snd_conv)+

lemma remote_reply_world: "world_only a (snd (remote_thread_reply (main_env x) name a recipient ref text))"
  using exchange_world [of a x]
  by (auto simp: remote_thread_reply_def Let_def split: option.split prod.split sum.split) (metis snd_conv)+

lemma main_deps_simps [simp]:
  "spBuild (main_deps cfg x) = Build" "spResolve (main_deps cfg x) = Resolve (main_env x)"
  "spDuplicateAction (main_deps cfg x) = cfDuplicateAction cfg" "spSessionTTL (main_deps cfg x) = cfSessionTTL cfg"
  by (simp_all add: main_deps_def main_publisher_deps_def)

text \<open>A round of the delivery loop calls \<open>Notify\<close>, or adds an error and does nothing.\<close>

lemma main_group_cases:
  assumes "deliver_group (main_deps cfg x) refs (rk, m) d = d'"
  obtains (silent) "dCalls d' = dCalls d" "dNewRefs d' = dNewRefs d" "dWorld d' = dWorld d"
  | (sent) n res where "Build m = Inr n" "dCalls d' = dCalls d @ [Notified rk (gget [] refs rk) n res]"
      "dNewRefs d' = (case res of Inl _ \<Rightarrow> dNewRefs d | Inr r \<Rightarrow> gput rk r (dNewRefs d))"
      "world_only (dWorld d) (dWorld d')"
proof (cases "Build m")
  case (Inl err)
  with assms show ?thesis by (intro silent) (auto simp: deliver_group_def)
next
  case (Inr n)
  show ?thesis
  proof (cases "Resolve (main_env x) (dWorld d) (rkBackend rk)")
    case None
    with Inr assms show ?thesis by (intro silent) (auto simp: deliver_group_def)
  next
    case (Some backend)
    then have notify: "boNotify backend = Some (remote_notify (main_env x) (rkBackend rk))"
      by (auto simp: Resolve_def split: option.splits)
    obtain res w where call: "remote_notify (main_env x) (rkBackend rk) (dWorld d) (rkRecipient rk) (gget [] refs rk) n = (res, w)"
      by force
    with remote_notify_world [of "dWorld d" x "rkBackend rk" "rkRecipient rk" "gget [] refs rk" n]
    have "world_only (dWorld d) w" by simp
    with Inr Some notify call assms show ?thesis
      by (intro sent [of n res]) (auto simp: deliver_group_def Let_def split: sum.splits)
  qed
qed

lemma reply_to_world:
  "world_only (dWorld d) (dWorld (reply_to (remote_thread_reply (main_env x) name) name msg refs r d))"
  using remote_reply_world [of "dWorld d" x name r _ msg]
  by (auto simp: reply_to_def Let_def split: option.split prod.split) (metis snd_conv)+

lemma thread_reply_world: "world_only (dWorld d) (dWorld (thread_reply (main_deps cfg x) now refs ev d))"
proof -
  have "world_only (dWorld d) (dWorld (fold (reply_to (remote_thread_reply (main_env x) (evBackend ev)) (evBackend ev) msg refs) rs d))"
    for msg rs
    by (induction rs arbitrary: d) (auto intro: world_only_trans [OF reply_to_world])
  then show ?thesis by (auto simp: thread_reply_def Resolve_def split: option.split)
qed

lemma job_step_world:
  assumes "job_step cfg x (a, sp, j) ups cs (a', sp', j')"
  shows "world_only a a'"
  using assms
proof cases
  case (upsert_send ul g d d' todo key gs)
  obtain rk m where g: "g = (rk, m)" by force
  from upsert_send(7) show ?thesis unfolding g by (cases rule: main_group_cases) (use upsert_send(4) in simp_all)
next
  case (upsert_reply ul ev d d' todo key evs)
  then show ?thesis using thread_reply_world [of "d\<lparr>dWorld := a\<rparr>" cfg x "ulNow ul" "ulRefs ul" ev] by simp
qed simp_all

lemma intake_ok_step:
  assumes "process_step cfg x s s'" and "intake_ok cfg s"
  shows "intake_ok cfg s'"
  using assms(1)
proof cases
  case (intake a e)
  with assms(2) intake_step_ok [OF intake(3), of "cfIngestQueueSize cfg" "cfWorkerCount cfg" "psAccepted s"]
  show ?thesis by (simp add: intake_ok_def)
next
  case (request req rsp a)
  let ?pool_ok = "pool_ok (cfIngestQueueSize cfg) (cfWorkerCount cfg)"
  have "?pool_ok (psAccepted s @ taken cfg req (psApp s) rsp) (caPool a)"
    using request_pool [OF request(4)] pool_ok_step [of _ _ "psAccepted s"] assms(2) by (auto simp: intake_ok_def)
  with request assms(2) request_counts [OF request(4)] request_effect [OF request(4)] show ?thesis
    by (simp add: intake_ok_def)
next
  case (callback cb js)
  with assms(2) show ?thesis by (auto simp: intake_ok_def intro: reachable_step engine_step.callback)
next
  case (job pre j post ups cs a sp j')
  with assms(2) world_onlyD [OF job_step_world [OF job(4)]] show ?thesis by (simp add: intake_ok_def)
next
  case signal
  with assms(2) pool_ok_step [OF _ pool_step.cancel, of _ _ "psAccepted s" "caPool (psApp s)"]
  show ?thesis by (simp add: intake_ok_def)
qed (use assms(2) in \<open>simp_all add: intake_ok_def\<close>)

section \<open>Every accepted event is accounted for\<close>

abbreviation batch_events :: "(session_key \<times> event list) list \<Rightarrow> event list" where
  "batch_events m \<equiv> concat (map snd m)"

definition in_jobs :: "('w, 'e) flush_job list \<Rightarrow> event list" where
  "in_jobs js = concat (map (batch_events \<circ> fjTodo) js)"

lemma in_jobs_simps [simp]:
  "in_jobs [] = []" "in_jobs (j # js) = batch_events (fjTodo j) @ in_jobs js" "in_jobs (js @ js') = in_jobs js @ in_jobs js'"
  by (simp_all add: in_jobs_def)

lemma mset_batch_events: "mset m = mset m' \<Longrightarrow> mset (concat (map snd m)) = mset (concat (map snd m'))"
  by (metis mset_concat mset_map sum_mset_sum_list)

lemma mset_put_event: "gwf m \<Longrightarrow> mset (batch_events (gput k (gget [] m k @ [ev]) m)) = add_mset ev (mset (batch_events m))"
  by (induction m) (auto simp: gget_def)

lemma mset_add_events:
  "split_ok m \<Longrightarrow> mset (batch_events (fold (add_to_session cfg g t) evs m)) = mset (batch_events m) + mset evs"
  by (induction evs arbitrary: m)
    (simp_all add: split_ok_add mset_put_event [of _ "session_key_of cfg g t _"] add_to_session_def split_ok_def)

lemma mset_sessionize: "mset (batch_events (sessionize cfg g bs)) = mset (concat (map snd bs))"
proof -
  have "mset (batch_events (fold (\<lambda>(t, evs). fold (add_to_session cfg g t) evs) bs m)) =
      mset (batch_events m) + mset (concat (map snd bs))" if "split_ok m" for m
    using that
  proof (induction bs arbitrary: m)
    case (Cons b bs)
    obtain t evs where "b = (t, evs)" by force
    with Cons fold_add_to_session [of m cfg g t evs] mset_add_events [of m cfg g t evs] show ?case by simp
  qed simp
  from this [of "[]"] show ?thesis by (simp add: sessionize_eq split_ok_def)
qed

lemma arrived_of_buckets:
  assumes "bucket_ok g bs"
  shows "arrived_of g' t (concat (map snd bs)) = (if g' = g then gget [] bs t else [])"
proof -
  have "arrived_of g' t (concat (map snd bs)) = (if g' = g then gget [] bs t else [])"
    if "gwf bs" "\<forall>(t, evs) \<in> set bs. \<forall>ev \<in> set evs. evGroupKey ev = g \<and> evTrigger ev = t" for bs
    using that
  proof (induction bs)
    case (Cons b bs)
    obtain t' evs where b: "b = (t', evs)" by force
    with Cons.prems have own: "arrived_of g' t evs = (if g' = g \<and> t = t' then evs else [])"
      by (auto simp: arrived_of_def filter_empty_conv intro!: filter_True)
    have "map_of bs t' = None" using Cons.prems b by (simp add: map_of_eq_None_iff)
    then have "gget [] bs t' = []" by (simp add: gget_def)
    moreover have "arrived_of g' t (concat (map snd bs)) = (if g' = g then gget [] bs t else [])"
      using Cons by simp
    ultimately show ?case using own b by (auto simp: arrived_of_def gget_def)
  qed (simp add: arrived_of_def gget_def)
  moreover have "\<forall>(t, evs) \<in> set bs. \<forall>ev \<in> set evs. evGroupKey ev = g \<and> evTrigger ev = t"
    using assms map_of_is_SomeI [of bs] unfolding bucket_ok_def by blast
  ultimately show ?thesis using assms by (simp add: bucket_ok_def)
qed

text \<open>A job has the events of the batch it was started for.\<close>

lemma starts_job_events:
  assumes "starts_job cfg batch js" and "\<And>g bs. batch = Some (g, bs) \<Longrightarrow> bucket_ok g bs"
  shows "mset (arrived_of g t (in_jobs js)) = mset (flushed_of g t (case batch of None \<Rightarrow> [] | Some b \<Rightarrow> [b]))"
  using assms(1)
proof cases
  case nothing
  then show ?thesis by (simp add: arrived_of_def flushed_of_def)
next
  case (batch bs' bs todo g')
  have "mset (batch_events todo) = mset (concat (map snd bs'))"
    unfolding mset_batch_events [OF batch(4)] by (rule mset_sessionize)
  also have "\<dots> = mset (concat (map snd bs))" using batch(3) by (rule mset_batch_events)
  finally have "mset (arrived_of g t (batch_events todo)) = mset (arrived_of g t (concat (map snd bs)))"
    by (simp add: arrived_of_def mset_filter)
  with batch assms(2) [of g' bs] show ?thesis by (simp add: arrived_of_buckets flushed_of_def eq_commute)
qed

definition flush_ok :: "('w, 'e) process \<Rightarrow> bool" where
  "flush_ok s \<longleftrightarrow> (\<forall>g t. mset (flushed_of g t (esFlushed (psEngine s))) =
     mset (arrived_of g t (batch_events (psUpserted s) @ in_jobs (psJobs s))))"

lemma job_step_events:
  "job_step cfg x (a, sp, j) ups cs (a', sp', j') \<Longrightarrow> batch_events (fjTodo j) = batch_events ups @ batch_events (fjTodo j')"
  by (erule job_stepE) simp_all

lemma flushed_of_more: "flushed_of g t (fl @ fl') = flushed_of g t fl @ flushed_of g t fl'"
  by (simp add: flushed_of_def)

lemma callback_flushed:
  "esFlushed (es_callback cb e) = esFlushed e @
     (case snd (onTimerFire (fst cb) (snd cb) (esEngine e)) of None \<Rightarrow> [] | Some b \<Rightarrow> [b])"
  by (simp add: es_callback_def split: prod.split)

lemma fired_batch_ok:
  "groups_ok e \<Longrightarrow> snd (onTimerFire g n e) = Some (g', bs) \<Longrightarrow> g' = g \<and> bs \<noteq> [] \<and> bucket_ok g' bs"
  using groups_ok_onTimerFire [of e g n] by (metis surjective_pairing)

lemma flush_ok_step:
  assumes "process_step cfg x s s'" and "intake_ok cfg s" and "flush_ok s"
  shows "flush_ok s'"
  using assms(1)
proof cases
  case (intake a e)
  with assms(2,3) intake_step_ok [OF intake(3), of "cfIngestQueueSize cfg" "cfWorkerCount cfg" "psAccepted s"]
  show ?thesis by (simp add: flush_ok_def intake_ok_def)
next
  case (callback cb js)
  let ?batch = "snd (onTimerFire (fst cb) (snd cb) (esEngine (psEngine s)))"
  have "groups_ok (esEngine (psEngine s))"
    using assms(2) reachable_inv by (auto simp: intake_ok_def fifo_inv_def)
  then have "mset (arrived_of g t (in_jobs js)) = mset (flushed_of g t (case ?batch of None \<Rightarrow> [] | Some b \<Rightarrow> [b]))" for g t
    using starts_job_events [OF callback(4)] fired_batch_ok by blast
  with assms(3) callback(1) show ?thesis
    by (simp add: flush_ok_def callback_flushed flushed_of_more) (simp add: arrived_of_def)
next
  case (job pre j post ups cs a sp j')
  with assms(3) job_step_events [OF job(4)] show ?thesis by (simp add: flush_ok_def arrived_of_def ac_simps)
next
  case (leave pre post)
  with assms(3) show ?thesis by (simp add: flush_ok_def)
qed (use assms(3) in \<open>simp_all add: flush_ok_def\<close>)

lemma flush_ok_start: "flush_ok (start_process cfg now w)"
  by (simp add: flush_ok_def start_process_def init_sys_def flushed_of_def arrived_of_def)

lemma process_reachable_induct [consumes 1, case_names start step]:
  assumes "process_reachable cfg x s" and "\<And>now w. P (start_process cfg now w)"
    and "\<And>s s'. process_reachable cfg x s \<Longrightarrow> P s \<Longrightarrow> process_step cfg x s s' \<Longrightarrow> P s'"
  shows "P s"
proof -
  obtain now w where "process_run cfg x (start_process cfg now w) s" using assms(1) by (auto simp: process_reachable_def)
  then have "P s \<and> process_reachable cfg x s"
  proof induction
    case run_start
    then show ?case using assms(2) by (auto simp: process_reachable_def intro: process_run.run_start)
  next
    case (run_more s s')
    then show ?case using assms(3) process_reachable_run [of cfg x s s'] process_run.intros by metis
  qed
  then show ?thesis ..
qed

lemma process_intake_flush: "process_reachable cfg x s \<Longrightarrow> intake_ok cfg s \<and> flush_ok s"
  by (induction rule: process_reachable_induct)
    (auto intro: intake_ok_start flush_ok_start intake_ok_step flush_ok_step)

lemma events_accounted:
  assumes "process_reachable cfg x s"
  shows "mset (arrived_of g t (psAccepted s)) =
    mset (arrived_of g t (batch_events (psUpserted s))) + mset (arrived_of g t (in_jobs (psJobs s))) +
    mset (waiting_of g t (esEngine (psEngine s))) +
    mset (arrived_of g t (in_work (plWorkers (caPool (psApp s))) @ plBuf (caPool (psApp s))))"
proof -
  have ok: "intake_ok cfg s" "flush_ok s" using process_intake_flush [OF assms] by simp_all
  then have "flushed_of g t (esFlushed (psEngine s)) @ waiting_of g t (esEngine (psEngine s)) =
      arrived_of g t (plIngested (caPool (psApp s)))"
    using reachable_inv [of "main_engine_config cfg" "psEngine s"] by (auto simp: intake_ok_def fifo_inv_def)
  then have "mset (flushed_of g t (esFlushed (psEngine s))) + mset (waiting_of g t (esEngine (psEngine s))) =
      mset (arrived_of g t (plIngested (caPool (psApp s))))" by (metis mset_append)
  with ok show ?thesis
    by (simp add: intake_ok_def flush_ok_def pool_ok_def arrived_of_def mset_filter ac_simps)
qed

text \<open>
  C1: In every reachable state of the core process, however its goroutines interleave, the
  events of a group and trigger that were answered with 202 are, as a multiset, those handed to
  Upsert, those in flush goroutines, those waiting in the bucket, and those in the workers and
  the channel.
\<close>

theorem process_accounts_for_events:
  assumes "process_reachable cfg x s"
  shows "mset (arrived_of g t (psAccepted s)) =
    mset (arrived_of g t (batch_events (psUpserted s))) + mset (arrived_of g t (in_jobs (psJobs s))) +
    mset (waiting_of g t (esEngine (psEngine s))) +
    mset (arrived_of g t (in_work (plWorkers (caPool (psApp s))) @ plBuf (caPool (psApp s))))"
  by (rule events_accounted [OF assms])

section \<open>What the store and the calls are made of\<close>

text \<open>
  Relative to the events that have been stored and the calls that have been made: where the
  events, references and messages of a session come from.
\<close>

definition apps_from :: "event set \<Rightarrow> engine_config \<Rightarrow> session_key \<Rightarrow> (string, event) gomap \<Rightarrow> bool" where
  "apps_from A ec key m \<longleftrightarrow> perapp_ok ec key m \<and> snd ` set m \<subseteq> A"

definition ref_known :: "(session_key \<times> 'e backend_call) set \<Rightarrow> session_key \<Rightarrow> ref_key \<Rightarrow> string \<Rightarrow> bool" where
  "ref_known C key rk r \<longleftrightarrow> (\<exists>ref n. (key, Notified rk ref n (Inr r)) \<in> C)"

definition refs_from :: "(session_key \<times> 'e backend_call) set \<Rightarrow> session_key \<Rightarrow> message_refs \<Rightarrow> bool" where
  "refs_from C key refs \<longleftrightarrow> gwf refs \<and> (\<forall>rk r. map_of refs rk = Some r \<longrightarrow> ref_known C key rk r)"

definition message_from :: "event set \<Rightarrow> engine_config \<Rightarrow> session_key \<Rightarrow> ref_key \<Rightarrow> (string, event) gomap \<Rightarrow> bool" where
  "message_from A ec key rk m \<longleftrightarrow> m \<noteq> [] \<and> apps_from A ec key m \<and> (\<forall>ev \<in> snd ` set m. routed rk ev)"

fun call_ok :: "event set \<Rightarrow> engine_config \<Rightarrow> (session_key \<times> 'e backend_call) set \<Rightarrow> session_key \<times> 'e backend_call \<Rightarrow> bool" where
  "call_ok A ec C (key, Notified rk ref n res) \<longleftrightarrow> (ref = [] \<or> ref_known C key rk ref) \<and>
     (\<exists>m. message_from A ec key rk m \<and> Build m = Inr n)"
| "call_ok A ec C (key, Replied rk ref msg res) \<longleftrightarrow> ref_known C key rk ref \<and>
     (\<exists>ev \<in> A. in_session ec key ev \<and> routed rk ev)"
| "call_ok A ec C (key, c) \<longleftrightarrow> False"

definition store_ok :: "event set \<Rightarrow> engine_config \<Rightarrow> (session_key \<times> 'e backend_call) set \<Rightarrow> session_publisher \<Rightarrow> bool" where
  "store_ok A ec C sp \<longleftrightarrow> publisher_ok ec sp \<and>
     (\<forall>key st. map_of (spSessions sp) key = Some st \<longrightarrow> apps_from A ec key (stPerApp st) \<and> refs_from C key (stRefs st))"

fun stage_ok :: "event set \<Rightarrow> engine_config \<Rightarrow> (session_key \<times> 'e backend_call) set \<Rightarrow> ('w, 'e) stage \<Rightarrow> bool" where
  "stage_ok A ec C Idle = True"
| "stage_ok A ec C (Delivering key ul gs d) \<longleftrightarrow> refs_from C key (ulRefs ul) \<and> refs_from C key (dNewRefs d) \<and>
     (\<forall>(rk, m) \<in> set gs. message_from A ec key rk m) \<and> (\<forall>ev \<in> set (ulDuplicates ul). ev \<in> A \<and> in_session ec key ev)"
| "stage_ok A ec C (Replying key ul evs d) \<longleftrightarrow> refs_from C key (ulRefs ul) \<and> (\<forall>ev \<in> set evs. ev \<in> A \<and> in_session ec key ev)"

definition todo_ok :: "engine_config \<Rightarrow> (session_key \<times> event list) list \<Rightarrow> bool" where
  "todo_ok ec todo \<longleftrightarrow> (\<forall>(key, evs) \<in> set todo. \<forall>ev \<in> set evs. in_session ec key ev)"

definition publish_ok :: "engine_config \<Rightarrow> ('w, 'e) process \<Rightarrow> bool" where
  "publish_ok ec s \<longleftrightarrow>
     (let A = set (batch_events (psUpserted s)); C = set (psCalls s) in
      store_ok A ec C (psStore s) \<and> (\<forall>j \<in> set (psJobs s). todo_ok ec (fjTodo j) \<and> stage_ok A ec C (fjStage j)) \<and>
      (\<forall>c \<in> C. call_ok A ec C c))"

lemma ref_known_mono: "ref_known C key rk r \<Longrightarrow> C \<subseteq> C' \<Longrightarrow> ref_known C' key rk r"
  by (auto simp: ref_known_def)

lemma apps_from_mono: "apps_from A ec key m \<Longrightarrow> A \<subseteq> A' \<Longrightarrow> apps_from A' ec key m"
  by (auto simp: apps_from_def)

lemma refs_from_mono: "refs_from C key refs \<Longrightarrow> C \<subseteq> C' \<Longrightarrow> refs_from C' key refs"
  by (auto simp: refs_from_def intro: ref_known_mono)

lemma message_from_mono: "message_from A ec key rk m \<Longrightarrow> A \<subseteq> A' \<Longrightarrow> message_from A' ec key rk m"
  by (auto simp: message_from_def intro: apps_from_mono)

lemma call_ok_mono: "call_ok A ec C c \<Longrightarrow> A \<subseteq> A' \<Longrightarrow> C \<subseteq> C' \<Longrightarrow> call_ok A' ec C' c"
  by (induction A ec C c rule: call_ok.induct) (auto intro: ref_known_mono message_from_mono)

lemma store_ok_mono: "store_ok A ec C sp \<Longrightarrow> A \<subseteq> A' \<Longrightarrow> C \<subseteq> C' \<Longrightarrow> store_ok A' ec C' sp"
  unfolding store_ok_def by (blast intro: apps_from_mono refs_from_mono)

lemma stage_ok_mono: "stage_ok A ec C st \<Longrightarrow> A \<subseteq> A' \<Longrightarrow> C \<subseteq> C' \<Longrightarrow> stage_ok A' ec C' st"
  by (cases st) (auto intro: refs_from_mono message_from_mono)

lemmas origin_mono = call_ok_mono store_ok_mono stage_ok_mono

lemma store_begin:
  assumes "store_ok A ec C sp" and "\<forall>ev \<in> set evs. in_session ec key ev \<and> ev \<in> A"
    and "upsert_begin deps now key evs sp = (ul, sp')"
  shows "store_ok A ec C sp' \<and> apps_from A ec key (ulPerApp ul) \<and> refs_from C key (ulRefs ul) \<and>
    set (ulDuplicates ul) \<subseteq> set evs"
proof -
  obtain st nxt where st: "current_session deps now key sp = (st, nxt)" by force
  obtain m ds c where m: "absorb (spSha256Hex deps) evs (stPerApp st, [], False) = (m, ds, c)"
    by (metis prod_cases3)
  from assms(1) have sp: "publisher_ok ec sp" by (simp add: store_ok_def)
  note ok = current_session_ok [OF sp st]
  from assms(1) st have old: "apps_from A ec key (stPerApp st)" "refs_from C key (stRefs st)"
    by (auto simp: current_session_def store_ok_def apps_from_def refs_from_def Let_def split: option.splits if_splits)
  have begun: "publisher_ok ec sp' \<and> perapp_ok ec key (ulPerApp ul) \<and> gwf (ulRefs ul)"
    using publisher_ok_begin [OF sp _ assms(3)] assms(2) by blast
  have gwf: "gwf m" "gwf (stRefs st)" using absorb_gwf [OF m] ok by (auto simp: perapp_ok_def)
  have ul: "ulPerApp ul = m" "ulRefs ul = stRefs st" "ulDuplicates ul = ds"
    "spSessions sp' = gput key (st\<lparr>stPerApp := m, stLastFlush := now\<rparr>) (spSessions sp)"
    using assms(3) st m gwf by (auto simp: upsert_begin_def Let_def)
  have "snd ` set m \<subseteq> snd ` set (stPerApp st) \<union> set evs" using absorb_values [OF m] ok by (simp add: perapp_ok_def)
  with old(1) assms(2) begun ul have apps: "apps_from A ec key m" by (auto simp: apps_from_def)
  have "set ds \<subseteq> set evs" using absorb_dups [OF m] by auto
  with begun apps old assms(1) ul show ?thesis by (auto simp: store_ok_def)
qed

lemma store_commit:
  assumes "store_ok A ec C sp" and "refs_from C key newRefs"
  shows "store_ok A ec C (upsert_commit key addr newRefs sp)"
proof -
  have "refs_from C key (maps_copy (stRefs cur) newRefs)" if "refs_from C key (stRefs cur)" for cur
    using that assms(2) by (auto simp: refs_from_def map_of_maps_copy map_add_def split: option.splits)
  with assms publisher_ok_commit [of ec sp key addr newRefs] show ?thesis
    by (auto simp: store_ok_def upsert_commit_def split: option.split)
qed

lemma group_messages:
  assumes "apps_from A ec key p" and "mset m = mset p" and "mset gs = mset (if ch then groupAppsByBackendRecipient m else [])"
    and "(rk, apps) \<in> set gs"
  shows "message_from A ec key rk apps"
proof -
  have wf: "gwf p" "gwf m" using assms(1) gwf_perm [OF assms(2)] by (auto simp: apps_from_def perapp_ok_def)
  have "set gs = set (if ch then groupAppsByBackendRecipient m else [])" using assms(3) by (metis set_mset_mset)
  with assms(4) mem_group_apps [OF wf(2)] have apps: "apps = apps_of rk m" "apps \<noteq> []"
    by (auto split: if_splits)
  have sub: "set apps \<subseteq> set p" using assms(2) unfolding apps apps_of_def by (metis filter_is_subset set_mset_mset)
  have "gwf apps" using wf(2) by (simp add: apps apps_of_def distinct_map_filter)
  moreover have "map_of p a = Some ev" if "map_of apps a = Some ev" for a ev
    using map_of_SomeD [OF that] sub wf(1) by auto
  ultimately have "perapp_ok ec key apps" using assms(1) by (auto simp: apps_from_def perapp_ok_def)
  moreover have "snd ` set apps \<subseteq> A" using sub assms(1) by (auto simp: apps_from_def)
  moreover have "\<forall>ev \<in> snd ` set apps. routed rk ev" by (auto simp: apps apps_of_def)
  ultimately show ?thesis using apps(2) by (simp add: message_from_def apps_from_def)
qed

lemma send_ok:
  assumes "deliver_group (main_deps cfg x) refs (rk, m) d = d'" and "message_from A ec key rk m"
    and "refs_from C key refs" and "refs_from C key (dNewRefs d)"
  shows "let C' = C \<union> Pair key ` set (new_calls d d') in
    refs_from C' key (dNewRefs d') \<and> (\<forall>c \<in> set (new_calls d d'). call_ok A ec C' (key, c))"
  using assms(1)
proof (cases rule: main_group_cases)
  case silent
  with assms(4) show ?thesis by (simp add: new_calls_def)
next
  case (sent n res)
  let ?c = "Notified rk (gget [] refs rk) n res"
  let ?C = "C \<union> Pair key ` set (new_calls d d')"
  have new: "new_calls d d' = [?c]" using sent(2) by (simp add: new_calls_def)
  have "gget [] refs rk = [] \<or> ref_known ?C key rk (gget [] refs rk)"
    using assms(3) by (auto simp: gget_def refs_from_def intro: ref_known_mono split: option.split)
  with sent(1) assms(2) new have "call_ok A ec ?C (key, ?c)" by auto
  moreover have "refs_from ?C key (dNewRefs d')"
  proof (cases res)
    case (Inl e)
    with sent(3) assms(4) show ?thesis by (auto intro: refs_from_mono)
  next
    case (Inr r)
    then have "ref_known ?C key rk r" unfolding ref_known_def new by auto
    with Inr sent(3) refs_from_mono [OF assms(4), of ?C] show ?thesis by (auto simp: refs_from_def)
  qed
  ultimately show ?thesis by (simp add: Let_def new)
qed

lemma reply_calls_ok:
  assumes "thread_reply (main_deps cfg x) now refs ev d = d'" and "refs_from C key refs" and "ev \<in> A" and "in_session ec key ev"
  shows "\<forall>c \<in> set (new_calls d d'). call_ok A ec C (key, c)"
proof -
  from thread_reply_adds [of ev "[ev]" "main_deps cfg x" now refs d] assms(1)
  obtain cs where cs: "dCalls d' = dCalls d @ cs" "\<forall>c \<in> set cs. reply_ok (main_deps cfg x) now refs [ev] c"
    by (auto simp: only_adds_def)
  have "call_ok A ec C (key, c)" if "c \<in> set cs" for c
    using bspec [OF cs(2) that] assms(2-4) by (cases c) (auto simp: reply_ok_def refs_from_def)
  with cs(1) show ?thesis by (simp add: new_calls_def)
qed

lemma job_step_publish:
  assumes "job_step cfg x (a, sp, j) ups cs (a', sp', j')"
    and "store_ok A ec C sp" and "todo_ok ec (fjTodo j)" and "stage_ok A ec C (fjStage j)" and "\<forall>c \<in> C. call_ok A ec C c"
  shows "let A' = A \<union> set (batch_events ups); C' = C \<union> set cs in
    store_ok A' ec C' sp' \<and> todo_ok ec (fjTodo j') \<and> stage_ok A' ec C' (fjStage j') \<and> (\<forall>c \<in> C'. call_ok A' ec C' c)"
  using assms(1)
proof cases
  case (upsert_nothing key todo)
  with assms(2-5) show ?thesis by (simp add: todo_ok_def)
next
  case (upsert_first evs key ul m gs todo)
  let ?A = "A \<union> set evs"
  have "store_ok ?A ec C sp" using store_ok_mono [OF assms(2)] by simp
  moreover have evs: "\<forall>ev \<in> set evs. in_session ec key ev \<and> ev \<in> ?A" using assms(3) upsert_first(1) by (simp add: todo_ok_def)
  ultimately have begun: "store_ok ?A ec C sp' \<and> apps_from ?A ec key (ulPerApp ul) \<and> refs_from C key (ulRefs ul) \<and>
      set (ulDuplicates ul) \<subseteq> set evs" using store_begin upsert_first(7) by blast
  have "\<forall>(rk, apps) \<in> set gs. message_from ?A ec key rk apps"
    using group_messages [OF _ upsert_first(8,9)] begun by blast
  moreover have "refs_from C key []" by (simp add: refs_from_def)
  moreover have "\<forall>c \<in> C. call_ok ?A ec C c" using assms(5) by (auto intro: call_ok_mono)
  ultimately show ?thesis using begun evs upsert_first(1-5) assms(3) by (auto simp: todo_ok_def)
next
  case (upsert_send ul g d d' todo key gs)
  obtain rk m where g: "g = (rk, m)" by force
  let ?C = "C \<union> Pair key ` set (new_calls d d')"
  have new: "new_calls (d\<lparr>dWorld := a\<rparr>) d' = new_calls d d'" by (simp add: new_calls_def)
  have "refs_from ?C key (dNewRefs d') \<and> (\<forall>c \<in> set (new_calls d d'). call_ok A ec ?C (key, c))"
    using send_ok [OF upsert_send(7) [unfolded g], of A ec key C] assms(4) upsert_send(1) g by (simp add: new Let_def)
  with upsert_send assms(2-5) show ?thesis
    by (auto simp: Let_def g intro: origin_mono refs_from_mono)
next
  case (upsert_second key ul d todo)
  with assms(2-5) store_commit [OF assms(2)] show ?thesis by auto
next
  case (upsert_reply ul ev d d' todo key evs)
  let ?C = "C \<union> Pair key ` set (new_calls d d')"
  have new: "new_calls (d\<lparr>dWorld := a\<rparr>) d' = new_calls d d'" by (simp add: new_calls_def)
  have "\<forall>c \<in> set (new_calls d d'). call_ok A ec C (key, c)"
    using reply_calls_ok [OF upsert_reply(7)] assms(4) upsert_reply(1) by (simp add: new)
  with upsert_reply assms(2-5) show ?thesis
    by (auto simp: Let_def intro: origin_mono refs_from_mono)
next
  case (upsert_return todo key ul d)
  with assms(2-5) show ?thesis by simp
qed

lemma starts_job_ok:
  assumes "starts_job ec batch js" and "\<And>g bs. batch = Some (g, bs) \<Longrightarrow> bucket_ok g bs"
  shows "\<forall>j \<in> set js. todo_ok ec (fjTodo j) \<and> fjStage j = Idle"
  using assms(1)
proof cases
  case (batch bs' bs todo g)
  have "bucket_ok g bs'"
    using assms(2) [OF batch(1)] batch(3) gwf_perm [OF batch(3)] map_of_perm [OF batch(3)] by (auto simp: bucket_ok_def)
  then have "in_session ec key ev" if "(key, evs) \<in> set (sessionize ec g bs')" "ev \<in> set evs" for key evs ev
    using sessionize_keys [OF that(1)] that(2) batch_in_session [of g bs' ev ec key] by simp
  then have "todo_ok ec (sessionize ec g bs')" unfolding todo_ok_def by blast
  then have "todo_ok ec todo" unfolding todo_ok_def mset_eq_setD [OF batch(4)] .
  with batch(2) show ?thesis by simp
qed simp

lemma publish_ok_step:
  assumes "process_step cfg x s s'" and "intake_ok cfg s" and "publish_ok (main_engine_config cfg) s"
  shows "publish_ok (main_engine_config cfg) s'"
  using assms(1)
proof cases
  case (callback cb js)
  have "groups_ok (esEngine (psEngine s))"
    using assms(2) reachable_inv by (auto simp: intake_ok_def fifo_inv_def)
  then have "\<forall>j \<in> set js. todo_ok (main_engine_config cfg) (fjTodo j) \<and> fjStage j = Idle"
    using starts_job_ok [OF callback(4)] fired_batch_ok by blast
  with assms(3) callback(1) show ?thesis by (auto simp: publish_ok_def Let_def)
next
  case (job pre j post ups cs a sp j')
  let ?A = "set (batch_events (psUpserted s))" and ?C = "set (psCalls s)" and ?ec = "main_engine_config cfg"
  have ok: "store_ok ?A ?ec ?C (psStore s)" "\<forall>c \<in> ?C. call_ok ?A ?ec ?C c"
    "\<And>i. i \<in> set (pre @ j # post) \<Longrightarrow> todo_ok ?ec (fjTodo i) \<and> stage_ok ?A ?ec ?C (fjStage i)"
    using assms(3) job(3) by (auto simp: publish_ok_def Let_def)
  have sets: "set (batch_events (psUpserted s @ ups)) = ?A \<union> set (batch_events ups)" "set (psCalls s @ cs) = ?C \<union> set cs"
    by simp_all
  have more: "store_ok (?A \<union> set (batch_events ups)) ?ec (?C \<union> set cs) sp" "todo_ok ?ec (fjTodo j')"
    "stage_ok (?A \<union> set (batch_events ups)) ?ec (?C \<union> set cs) (fjStage j')"
    "\<forall>c \<in> ?C \<union> set cs. call_ok (?A \<union> set (batch_events ups)) ?ec (?C \<union> set cs) c"
    using job_step_publish [OF job(4) ok(1) _ _ ok(2)] ok(3) [of j] by (simp_all add: Let_def)
  have "todo_ok ?ec (fjTodo i) \<and> stage_ok (?A \<union> set (batch_events ups)) ?ec (?C \<union> set cs) (fjStage i)"
    if "i \<in> set (pre @ j' # post)" for i
    using that more ok(3) [of i] stage_ok_mono [of ?A ?ec ?C "fjStage i"] by auto
  with more show ?thesis unfolding publish_ok_def Let_def job(1) by (simp add: sets)
next
  case (leave pre post)
  with assms(3) show ?thesis by (simp add: publish_ok_def Let_def)
qed (use assms(3) in \<open>simp_all add: publish_ok_def\<close>)

lemma publish_ok_start: "publish_ok ec (start_process cfg now w)"
  by (simp add: publish_ok_def start_process_def store_ok_def) (simp add: newSessionPublisher_def)

lemma process_publish: "process_reachable cfg x s \<Longrightarrow> publish_ok (main_engine_config cfg) s"
  by (induction rule: process_reachable_induct)
    (auto intro: publish_ok_start publish_ok_step dest: process_intake_flush)

text \<open>What is stored was accepted before.\<close>

lemma upserted_accepted:
  assumes "process_reachable cfg x s"
  shows "set (batch_events (psUpserted s)) \<subseteq> set (psAccepted s)"
proof
  fix ev assume ev: "ev \<in> set (batch_events (psUpserted s))"
  let ?of = "arrived_of (evGroupKey ev) (evTrigger ev)"
  from ev have "ev \<in># mset (?of (batch_events (psUpserted s)))" by (auto simp: arrived_of_def)
  then have "ev \<in># mset (?of (psAccepted s))"
    unfolding events_accounted [OF assms, of "evGroupKey ev" "evTrigger ev"] by simp
  then show "ev \<in> set (psAccepted s)" by (simp add: arrived_of_def)
qed

text \<open>
  C2: Whatever the interleaving, a message that leaves the process is what Build renders for
  apps of one session, each by an event that was accepted, belongs to that session and is
  routed to that destination; the reference it edits is one a backend returned for the same
  destination of the same session. A thread reply names such a reference, too.
\<close>

theorem messages_from_accepted_events:
  assumes "process_reachable cfg x s"
  shows "\<forall>(key, c) \<in> set (psCalls s).
    (case c of
       Notified rk ref n res \<Rightarrow>
         (ref = [] \<or> (\<exists>ref' n'. (key, Notified rk ref' n' (Inr ref)) \<in> set (psCalls s))) \<and>
         (\<exists>m. m \<noteq> [] \<and> gwf m \<and> Build m = Inr n \<and>
            (\<forall>(a, ev) \<in> set m. ev \<in> set (psAccepted s) \<and> evAppName ev = a \<and> routed rk ev \<and>
               in_session (main_engine_config cfg) key ev))
     | Replied rk ref msg res \<Rightarrow>
         (\<exists>ref' n'. (key, Notified rk ref' n' (Inr ref)) \<in> set (psCalls s)) \<and>
         (\<exists>ev \<in> set (psAccepted s). in_session (main_engine_config cfg) key ev \<and> routed rk ev)
     | _ \<Rightarrow> False)"
proof -
  let ?A = "set (batch_events (psUpserted s))"
  note sub = upserted_accepted [OF assms]
  have message: "\<exists>m. m \<noteq> [] \<and> gwf m \<and> Build m = Inr n \<and>
      (\<forall>(a, ev) \<in> set m. ev \<in> set (psAccepted s) \<and> evAppName ev = a \<and> routed rk ev \<and> in_session ec key ev)"
    if "\<exists>m. message_from ?A ec key rk m \<and> Build m = Inr n" for ec key rk n
  proof -
    from that obtain m where m: "m \<noteq> []" "perapp_ok ec key m" "snd ` set m \<subseteq> ?A" "\<forall>ev \<in> snd ` set m. routed rk ev"
      "Build m = Inr n" by (auto simp: message_from_def apps_from_def)
    have "ev \<in> set (psAccepted s) \<and> evAppName ev = a \<and> routed rk ev \<and> in_session ec key ev" if "(a, ev) \<in> set m" for a ev
      using m that sub map_of_is_SomeI [of m a ev] unfolding perapp_ok_def by (metis image_eqI snd_conv subsetD)
    with m show ?thesis by (intro exI [of _ m]) (auto simp: perapp_ok_def)
  qed
  have "\<forall>c \<in> set (psCalls s). call_ok ?A (main_engine_config cfg) (set (psCalls s)) c"
    using process_publish [OF assms] by (simp add: publish_ok_def Let_def)
  then have ok: "call_ok ?A (main_engine_config cfg) (set (psCalls s)) (key, c)" if "(key, c) \<in> set (psCalls s)" for key c
    using that by blast
  show ?thesis
  proof (intro ballI case_prodI2)
    fix kc key c assume "kc \<in> set (psCalls s)" "kc = (key, c)"
    then have c: "call_ok ?A (main_engine_config cfg) (set (psCalls s)) (key, c)" using ok by blast
    show "case c of
       Notified rk ref n res \<Rightarrow>
         (ref = [] \<or> (\<exists>ref' n'. (key, Notified rk ref' n' (Inr ref)) \<in> set (psCalls s))) \<and>
         (\<exists>m. m \<noteq> [] \<and> gwf m \<and> Build m = Inr n \<and>
            (\<forall>(a, ev) \<in> set m. ev \<in> set (psAccepted s) \<and> evAppName ev = a \<and> routed rk ev \<and>
               in_session (main_engine_config cfg) key ev))
     | Replied rk ref msg res \<Rightarrow>
         (\<exists>ref' n'. (key, Notified rk ref' n' (Inr ref)) \<in> set (psCalls s)) \<and>
         (\<exists>ev \<in> set (psAccepted s). in_session (main_engine_config cfg) key ev \<and> routed rk ev)
     | _ \<Rightarrow> False"
    proof (cases c)
      case (Notified rk ref n res)
      with c message [of "main_engine_config cfg" key rk n] show ?thesis by (simp add: ref_known_def)
    next
      case (Replied rk ref msg res)
      with c sub show ?thesis by (auto simp: ref_known_def)
    qed (use c in simp_all)
  qed
qed

end
