(* ===== verification/Lifecycle.thy ===== *)
theory Lifecycle
  imports Process
begin

text \<open>
  Whole runs of the core process: what its events and messages may hold, that everything accepted
  can be delivered while the process runs, and what a shutdown leaves behind.
\<close>

section \<open>Types\<close>

text \<open>References come from backends through the JSON reader.\<close>

lemma parsed_ref_utf8:
  assumes "ParseNotifyResponse rsp = Inr (Some r)"
  shows "utf8_valid (nrRef r)"
proof -
  obtain j where j: "json_unmarshal (rsBody rsp) = Some j" "decode_notify_result j \<lparr>nrRef = []\<rparr> = Some r"
    using assms by (auto simp: ParseNotifyResponse_def split: if_splits option.splits)
  show ?thesis by (rule yieldsD [OF yields_notify_result json_unmarshal_utf8 [OF j(1)] _ j(2)]) simp
qed

lemma remote_notify_ref_utf8: "remote_notify env name w recipient ref n = (Inr r, w') \<Longrightarrow> utf8_valid r"
  by (auto simp: remote_notify_def Let_def dest: parsed_ref_utf8
      split: option.splits prod.splits sum.splits if_splits bool.splits)

definition refs_utf8 :: "'e backend_call list \<Rightarrow> bool" where
  "refs_utf8 cs \<longleftrightarrow> (\<forall>c \<in> set cs. \<forall>rk ref n r. c = Notified rk ref n (Inr r) \<longrightarrow> utf8_valid r)"

lemma send_refs_utf8:
  assumes "deliver_group (main_deps cfg x) refs (rk, m) d = d'"
  shows "refs_utf8 (new_calls d d')"
proof -
  have "dCalls d' = dCalls d \<or> (\<exists>ref n w res w'. dCalls d' = dCalls d @ [Notified rk ref n res] \<and>
      remote_notify (main_env x) (rkBackend rk) w (rkRecipient rk) ref n = (res, w'))"
    using assms
    by (auto simp: deliver_group_def Resolve_def Let_def split: sum.splits option.splits prod.splits)
  then show ?thesis by (auto simp: refs_utf8_def new_calls_def dest: remote_notify_ref_utf8)
qed

lemma reply_refs_utf8:
  assumes "thread_reply (main_deps cfg x) now refs ev d = d'"
  shows "refs_utf8 (new_calls d d')"
proof -
  from thread_reply_adds [of ev "[ev]" "main_deps cfg x" now refs d] assms
  obtain cs where "dCalls d' = dCalls d @ cs" "\<forall>c \<in> set cs. reply_ok (main_deps cfg x) now refs [ev] c"
    by (auto simp: only_adds_def)
  then show ?thesis by (auto simp: refs_utf8_def new_calls_def reply_ok_def)
qed

lemma job_refs_utf8:
  assumes "job_step cfg x (a, sp, j) ups cs (a', sp', j')"
  shows "refs_utf8 (map snd cs)"
  using assms
proof cases
  case (upsert_send ul g d d' todo key gs)
  obtain rk m where g: "g = (rk, m)" by force
  have "new_calls (d\<lparr>dWorld := a\<rparr>) d' = new_calls d d'" by (simp add: new_calls_def)
  with send_refs_utf8 [OF upsert_send(7) [unfolded g]] upsert_send(3) show ?thesis by (simp add: comp_def)
next
  case (upsert_reply ul ev d d' todo key evs)
  have "new_calls (d\<lparr>dWorld := a\<rparr>) d' = new_calls d d'" by (simp add: new_calls_def)
  with reply_refs_utf8 [OF upsert_reply(7)] upsert_reply(3) show ?thesis by (simp add: comp_def)
qed (simp_all add: refs_utf8_def)

definition types_ok :: "('w, 'e) process \<Rightarrow> bool" where
  "types_ok s \<longleftrightarrow> (\<forall>ev \<in> set (psAccepted s). event_ok ev) \<and> refs_utf8 (map snd (psCalls s))"

lemma taken_ok:
  assumes "main_server cfg x req a = (Some rsp, a')"
  shows "\<forall>ev \<in> set (taken cfg req a rsp). event_ok ev"
proof (cases "takes_events cfg req a")
  case True
  with request_effect [OF assms] have "receiver_ServeHTTP (exDecodeError x) (rqBody req) (caPool a) = (rsp, caPool a')" by simp
  then have "\<forall>ev \<in> set (accepted (rqBody req) rsp). event_ok ev"
    by (cases rule: request_cases) (auto simp: event_ok_def decoded_event_typed)
  with True show ?thesis by (simp add: taken_def)
qed (simp add: taken_def)

lemma types_ok_step:
  assumes "process_step cfg x s s'" and "types_ok s"
  shows "types_ok s'"
  using assms(1)
proof cases
  case (request req rsp a)
  with assms(2) taken_ok [OF request(4)] show ?thesis by (auto simp: types_ok_def)
next
  case (job pre j post ups cs a sp j')
  with assms(2) job_refs_utf8 [OF job(4)] show ?thesis by (auto simp: types_ok_def refs_utf8_def)
qed (use assms(2) in \<open>simp_all add: types_ok_def\<close>)

lemma process_types_ok: "process_reachable cfg x s \<Longrightarrow> types_ok s"
  by (induction rule: process_reachable_induct)
    (auto intro: types_ok_step, simp add: types_ok_def start_process_def refs_utf8_def)

lemma routed_utf8:
  assumes "routed rk ev" and "event_ok ev"
  shows "rkBackend rk \<noteq> [] \<and> utf8_valid (rkBackend rk) \<and> rkRecipient rk \<noteq> [] \<and> utf8_valid (rkRecipient rk)"
proof -
  have "rkRecipient rk \<in> set (splitRecipients (evRecipient ev))" "evBackend ev = rkBackend rk"
    using assms(1) by (simp_all add: routed_def)
  moreover have "r \<noteq> []" if "r \<in> set (splitRecipients raw)" for r raw
    using that by (auto simp: splitRecipients_def split: if_splits)
  ultimately show ?thesis
    using assms(2) event_validate_NilD(6) [of ev] event_typedD(5,6) [of ev] splitRecipients_utf8 [of "evRecipient ev"]
    by (auto simp: event_ok_def)
qed

text \<open>The calls of a reachable process, with the invariants of its history.\<close>

lemma reachable_calls:
  assumes "process_reachable cfg x s" and "(key, c) \<in> set (psCalls s)"
  shows "call_ok (set (psAccepted s)) (main_engine_config cfg) (set (psCalls s)) (key, c)"
proof -
  have "call_ok (set (batch_events (psUpserted s))) (main_engine_config cfg) (set (psCalls s)) (key, c)"
    using process_publish [OF assms(1)] assms(2) by (auto simp: publish_ok_def Let_def)
  then show ?thesis by (rule call_ok_mono [OF _ upserted_accepted [OF assms(1)] subset_refl])
qed

lemma known_ref_utf8: "process_reachable cfg x s \<Longrightarrow> ref_known (set (psCalls s)) key rk r \<Longrightarrow> utf8_valid r"
  using process_types_ok [of cfg x s] by (force simp: types_ok_def refs_utf8_def ref_known_def)

lemma message_utf8:
  assumes "message_from A ec key rk m" and "Build m = Inr n" and "\<forall>ev \<in> A. event_ok ev" and "\<forall>ev \<in> A. cuts_clean ev"
  shows "notification_utf8 n"
proof -
  have wf: "gwf m" using assms(1) by (auto simp: message_from_def apps_from_def perapp_ok_def)
  show ?thesis
  proof (rule Build_utf8 [OF assms(2) wf], intro ballI case_prodI2)
    fix p a ev assume "p \<in> set m" "p = (a, ev)"
    then have mem: "(a, ev) \<in> set m" by simp
    with assms(1) have "ev \<in> A" by (force simp: message_from_def apps_from_def)
    moreover have "in_session ec key ev"
      using assms(1) map_of_is_SomeI [OF wf mem] by (auto simp: message_from_def apps_from_def perapp_ok_def)
    ultimately show "event_typed ev \<and> cuts_clean ev \<and> evGroupKey ev = skGroupKey key"
      using assms(3,4) by (auto simp: in_session_def session_key_of_def event_ok_def)
  qed
qed

lemma notified_utf8:
  assumes "process_reachable cfg x s" and "(key, Notified rk ref n res) \<in> set (psCalls s)"
  shows "rkBackend rk \<noteq> [] \<and> utf8_valid (rkBackend rk) \<and> rkRecipient rk \<noteq> [] \<and> utf8_valid (rkRecipient rk) \<and> utf8_valid ref \<and>
    ((\<forall>ev \<in> set (psAccepted s). cuts_clean ev) \<longrightarrow> notification_utf8 n)"
proof -
  from reachable_calls [OF assms] obtain m where ref: "ref = [] \<or> ref_known (set (psCalls s)) key rk ref"
    and m: "message_from (set (psAccepted s)) (main_engine_config cfg) key rk m" "Build m = Inr n" by auto
  have typed: "\<forall>ev \<in> set (psAccepted s). event_ok ev" using process_types_ok [OF assms(1)] by (simp add: types_ok_def)
  from m(1) have ne: "m \<noteq> []" and sub: "snd ` set m \<subseteq> set (psAccepted s)"
    and routed: "\<forall>ev \<in> snd ` set m. routed rk ev"
    by (auto simp: message_from_def apps_from_def)
  obtain ev where "ev \<in> snd ` set m" using ne by (cases m) auto
  with routed sub typed have "routed rk ev" "event_ok ev" by auto
  note dest = routed_utf8 [OF this]
  have "utf8_valid ref" using ref known_ref_utf8 [OF assms(1)] by auto
  moreover have "notification_utf8 n" if "\<forall>ev \<in> set (psAccepted s). cuts_clean ev"
    by (rule message_utf8 [OF m typed that])
  ultimately show ?thesis using dest by blast
qed

text \<open>
  C11: Types of a reachable process: every accepted event has its required fields and valid
  strings, every session holds such events only, under their app name; every message goes to a
  named backend and recipient with a valid reference, and is itself valid UTF-8 unless Build
  cut an event's text inside a character.
\<close>

theorem process_types:
  assumes "process_reachable cfg x s"
  shows "(\<forall>ev \<in> set (psAccepted s). event_ok ev) \<and>
    (\<forall>key st a ev. map_of (spSessions (psStore s)) key = Some st \<longrightarrow> map_of (stPerApp st) a = Some ev \<longrightarrow>
       event_ok ev \<and> evAppName ev = a \<and> in_session (main_engine_config cfg) key ev) \<and>
    (\<forall>key rk ref n res. (key, Notified rk ref n res) \<in> set (psCalls s) \<longrightarrow>
       rkBackend rk \<noteq> [] \<and> utf8_valid (rkBackend rk) \<and> rkRecipient rk \<noteq> [] \<and> utf8_valid (rkRecipient rk) \<and> utf8_valid ref \<and>
       ((\<forall>ev \<in> set (psAccepted s). cuts_clean ev) \<longrightarrow> notification_utf8 n))"
proof -
  have typed: "\<forall>ev \<in> set (psAccepted s). event_ok ev" using process_types_ok [OF assms] by (simp add: types_ok_def)
  have "event_ok ev \<and> evAppName ev = a \<and> in_session (main_engine_config cfg) key ev"
    if "map_of (spSessions (psStore s)) key = Some st" "map_of (stPerApp st) a = Some ev" for key st a ev
  proof -
    have "store_ok (set (batch_events (psUpserted s))) (main_engine_config cfg) (set (psCalls s)) (psStore s)"
      using process_publish [OF assms] by (simp add: publish_ok_def Let_def)
    with that(1) have apps: "perapp_ok (main_engine_config cfg) key (stPerApp st)"
      "snd ` set (stPerApp st) \<subseteq> set (batch_events (psUpserted s))" by (auto simp: store_ok_def apps_from_def)
    with upserted_accepted [OF assms] map_of_SomeD [OF that(2)] have "ev \<in> set (psAccepted s)" by force
    with typed apps(1) that(2) show ?thesis by (auto simp: perapp_ok_def)
  qed
  with typed notified_utf8 [OF assms] show ?thesis by blast
qed

section \<open>Everything accepted can be delivered\<close>

lemma run_down:
  assumes "\<And>s. P s \<Longrightarrow> 0 < (f s :: nat) \<Longrightarrow> \<exists>s'. process_run cfg x s s' \<and> P s' \<and> f s' < f s" and "P s"
  shows "\<exists>s'. process_run cfg x s s' \<and> P s' \<and> f s' = 0"
  using assms(2)
proof (induction "f s" arbitrary: s rule: less_induct)
  case less
  show ?case
  proof (cases "f s = 0")
    case True
    with less.prems show ?thesis by (blast intro: process_run.run_start)
  next
    case False
    with assms(1) [OF less.prems] obtain t where t: "process_run cfg x s t" "P t" "f t < f s" by blast
    with less.hyps [OF t(3) t(2)] show ?thesis by (blast intro: process_run_trans)
  qed
qed

lemma one_step: "process_step cfg x s s' \<Longrightarrow> process_run cfg x s s'"
  by (blast intro: process_run.intros)

text \<open>A flush goroutine comes to its end by its own steps.\<close>

definition only_jobs :: "('w, 'e) process \<Rightarrow> ('w, 'e) process \<Rightarrow> bool" where
  "only_jobs s s' \<longleftrightarrow> psEngine s' = psEngine s \<and> caPool (psApp s') = caPool (psApp s) \<and> psExited s' = psExited s \<and>
     psAccepted s' = psAccepted s"

lemma only_jobs_trans: "only_jobs s t \<Longrightarrow> only_jobs t u \<Longrightarrow> only_jobs s u"
  by (simp add: only_jobs_def)

lemma job_move:
  assumes "\<not> psExited s" and "psJobs s = pre @ j # post" and "job_step cfg x (psApp s, psStore s, j) ups cs (a, sp, j')"
  shows "\<exists>s'. process_run cfg x s s' \<and> only_jobs s s' \<and> psJobs s' = pre @ j' # post"
  using one_step [OF process_step.job [OF assms]] world_onlyD [OF job_step_world [OF assms(3)]]
  by (auto simp: only_jobs_def)

fun stage_size :: "('w, 'e) stage \<Rightarrow> nat" where
  "stage_size Idle = 0"
| "stage_size (Delivering key ul gs d) = length gs + length (ulDuplicates ul) + 2"
| "stage_size (Replying key ul evs d) = length evs + 1"

lemma stage_moves:
  assumes "fjStage j \<noteq> Idle"
  shows "\<exists>cs a' sp' st'. job_step cfg x (a, sp, j) [] cs (a', sp', j\<lparr>fjStage := st'\<rparr>) \<and> stage_size st' < stage_size (fjStage j)"
proof -
  obtain todo st where j: "j = \<lparr>fjTodo = todo, fjStage = st\<rparr>" by (cases j) auto
  show ?thesis
  proof (cases st)
    case Idle
    with assms j show ?thesis by simp
  next
    case (Delivering key ul gs d)
    show ?thesis
    proof (cases gs)
      case Nil
      from job_step.upsert_second [where cfg = cfg and x = x and a = a and sp = sp and todo = todo and key = key and ul = ul and d = d] show ?thesis
        unfolding j Delivering Nil by fastforce
    next
      case (Cons g gs')
      from job_step.upsert_send [OF refl, where cfg = cfg and x = x and a = a and sp = sp and todo = todo and key = key and ul = ul and d = d and g = g and gs = gs'] show ?thesis
        unfolding j Delivering Cons by fastforce
    qed
  next
    case (Replying key ul evs d)
    show ?thesis
    proof (cases evs)
      case Nil
      from job_step.upsert_return [where cfg = cfg and x = x and a = a and sp = sp and todo = todo and key = key and ul = ul and d = d] show ?thesis
        unfolding j Replying Nil by fastforce
    next
      case (Cons ev evs')
      from job_step.upsert_reply [OF refl, where cfg = cfg and x = x and a = a and sp = sp and todo = todo and key = key and ul = ul and d = d and ev = ev and evs = evs'] show ?thesis
        unfolding j Replying Cons by fastforce
    qed
  qed
qed

lemma job_call_ends:
  assumes "\<not> psExited s" and "psJobs s = pre @ j # post"
  shows "\<exists>s'. process_run cfg x s s' \<and> only_jobs s s' \<and> psJobs s' = pre @ \<lparr>fjTodo = fjTodo j, fjStage = Idle\<rparr> # post"
  using assms
proof (induction "stage_size (fjStage j)" arbitrary: s j rule: less_induct)
  case less
  show ?case
  proof (cases "fjStage j = Idle")
    case True
    then have "j = \<lparr>fjTodo = fjTodo j, fjStage = Idle\<rparr>" by (cases j) simp
    with less.prems(2) show ?thesis by (metis only_jobs_def process_run.run_start)
  next
    case False
    then obtain cs a sp st' where move: "job_step cfg x (psApp s, psStore s, j) [] cs (a, sp, j\<lparr>fjStage := st'\<rparr>)"
      "stage_size st' < stage_size (fjStage j)" using stage_moves [of j cfg x "psApp s" "psStore s"] by blast
    obtain t where t: "process_run cfg x s t" "only_jobs s t" "psJobs t = pre @ j\<lparr>fjStage := st'\<rparr> # post"
      using job_move [OF less.prems move(1)] by blast
    then have "\<not> psExited t" using less.prems(1) by (simp add: only_jobs_def)
    from less.hyps [OF _ this t(3)] move(2) obtain u where "process_run cfg x t u" "only_jobs t u"
      "psJobs u = pre @ \<lparr>fjTodo = fjTodo j, fjStage = Idle\<rparr> # post" by auto
    with t show ?thesis by (blast intro: process_run_trans only_jobs_trans)
  qed
qed

lemma job_begins:
  "\<exists>ups sp' st'. job_step cfg x (a, sp, \<lparr>fjTodo = (key, evs) # todo, fjStage = Idle\<rparr>) ups [] (a, sp', \<lparr>fjTodo = todo, fjStage = st'\<rparr>)"
proof (cases "evs = []")
  case True
  with job_step.upsert_nothing [of cfg x a sp key todo] show ?thesis by blast
next
  case False
  obtain ul sp' where "upsert_begin (main_deps cfg x) (caNow a) key evs sp = (ul, sp')" by force
  from job_step.upsert_first [OF False this refl refl] show ?thesis by blast
qed

lemma job_ends:
  assumes "\<not> psExited s" and "psJobs s = pre @ j # post"
  shows "\<exists>s'. process_run cfg x s s' \<and> only_jobs s s' \<and> psJobs s' = pre @ post"
  using assms
proof (induction "length (fjTodo j)" arbitrary: s j)
  case 0
  obtain t where t: "process_run cfg x s t" "only_jobs s t" "psJobs t = pre @ \<lparr>fjTodo = [], fjStage = Idle\<rparr> # post"
    using job_call_ends [OF 0(2,3), of cfg x] 0(1) by auto
  then have "\<not> psExited t" using 0(2) by (simp add: only_jobs_def)
  from one_step [OF process_step.leave [OF this t(3)]] t show ?case
    by (intro exI [of _ "t\<lparr>psJobs := pre @ post\<rparr>"]) (auto simp: only_jobs_def intro: process_run_trans)
next
  case (Suc n)
  then obtain key evs todo where todo: "fjTodo j = (key, evs) # todo" "length todo = n" by (cases "fjTodo j") auto
  obtain t where t: "process_run cfg x s t" "only_jobs s t"
    "psJobs t = pre @ \<lparr>fjTodo = (key, evs) # todo, fjStage = Idle\<rparr> # post"
    using job_call_ends [OF Suc.prems, of cfg x] todo(1) by auto
  then have running: "\<not> psExited t" using Suc.prems(1) by (simp add: only_jobs_def)
  obtain ups sp' st' where "job_step cfg x (psApp t, psStore t, \<lparr>fjTodo = (key, evs) # todo, fjStage = Idle\<rparr>) ups []
      (psApp t, sp', \<lparr>fjTodo = todo, fjStage = st'\<rparr>)" using job_begins by blast
  from job_move [OF running t(3) this] obtain u where u: "process_run cfg x t u" "only_jobs t u"
    "psJobs u = pre @ \<lparr>fjTodo = todo, fjStage = st'\<rparr> # post" by blast
  then have "\<not> psExited u" using running by (simp add: only_jobs_def)
  from Suc.hyps(1) [OF _ this u(3)] todo(2) obtain v where "process_run cfg x u v" "only_jobs u v" "psJobs v = pre @ post"
    by auto
  with t u show ?case by (blast intro: process_run_trans only_jobs_trans)
qed

text \<open>The process runs, has not been told to stop, and has accepted these events.\<close>

definition running :: "config \<Rightarrow> ('w, 'e) externals \<Rightarrow> event list \<Rightarrow> ('w, 'e) process \<Rightarrow> bool" where
  "running cfg x evs s \<longleftrightarrow> process_reachable cfg x s \<and> \<not> psExited s \<and> \<not> plCancelled (caPool (psApp s)) \<and> psAccepted s = evs"

definition channel_load :: "('w, 'e) process \<Rightarrow> nat" where
  "channel_load s = 2 * length (plBuf (caPool (psApp s))) + length (in_work (plWorkers (caPool (psApp s))))"

abbreviation armed :: "('w, 'e) process \<Rightarrow> timer list" where
  "armed s \<equiv> clkArmed (es_clock (psEngine s))"

abbreviation inflight :: "('w, 'e) process \<Rightarrow> (string \<times> nat) list" where
  "inflight s \<equiv> esInflight (psEngine s)"

lemma running_step:
  assumes "running cfg x evs s" and "process_step cfg x s s'"
    and "psExited s' = psExited s" and "plCancelled (caPool (psApp s')) = plCancelled (caPool (psApp s))" and "psAccepted s' = psAccepted s"
  shows "running cfg x evs s'"
  using assms process_reachable_run [OF _ one_step [OF assms(2)]] by (simp add: running_def)

lemma running_pool_ok: "running cfg x evs s \<Longrightarrow> pool_ok (cfIngestQueueSize cfg) (cfWorkerCount cfg) evs (caPool (psApp s))"
  using process_intake_flush by (fastforce simp: running_def intake_ok_def)

lemma drain_step:
  assumes "running cfg x evs s" and "0 < cfWorkerCount cfg" and "0 < channel_load s"
  shows "\<exists>s'. process_run cfg x s s' \<and> running cfg x evs s' \<and> channel_load s' < channel_load s"
proof -
  let ?p = "caPool (psApp s)"
  note pool = running_pool_ok [OF assms(1)]
  from assms(1) have live: "\<not> psExited s" "\<not> plCancelled ?p" by (simp_all add: running_def)
  have onward: ?thesis if "process_step cfg x s s'" "psExited s' = psExited s" "psAccepted s' = psAccepted s"
    "plCancelled (caPool (psApp s')) = plCancelled ?p" "channel_load s' < channel_load s" for s'
    using running_step [OF assms(1) that(1,2,4,3)] one_step [OF that(1)] that(5) by blast
  show ?thesis
  proof (cases "in_work (plWorkers ?p) = []")
    case False
    then obtain pre ev post where ws: "plWorkers ?p = pre @ Busy ev # post" using in_work_split by blast
    show ?thesis
      by (rule onward [OF process_step.intake [OF live(1) intake_step.ingest [OF ws]]]) (use ws in \<open>simp_all add: channel_load_def\<close>)
  next
    case idle: True
    with assms(3) obtain ev buf where buf: "plBuf ?p = ev # buf" by (cases "plBuf ?p") (auto simp: channel_load_def)
    from pool assms(2) have "plWorkers ?p \<noteq> []" by (auto simp: pool_ok_def)
    then obtain w ws where ws: "plWorkers ?p = [] @ w # ws" by (cases "plWorkers ?p") auto
    have "w = Ready" using idle_ready [OF idle, of w] pool buf live(2) ws by (auto simp: pool_ok_def)
    with ws have ready: "plWorkers ?p = [] @ Ready # ws" by simp
    show ?thesis
      by (rule onward [OF process_step.intake [OF live(1) intake_step.work [OF pool_step.take_event [OF ready buf]]]])
        (use ready buf idle in \<open>simp_all add: channel_load_def\<close>)
  qed
qed

definition drained :: "config \<Rightarrow> ('w, 'e) externals \<Rightarrow> event list \<Rightarrow> ('w, 'e) process \<Rightarrow> bool" where
  "drained cfg x evs s \<longleftrightarrow> running cfg x evs s \<and> channel_load s = 0"

definition all_due :: "('w, 'e) process \<Rightarrow> bool" where
  "all_due s \<longleftrightarrow> (\<forall>tm \<in> set (armed s). tmDeadline tm \<le> clkNow (es_clock (psEngine s)))"

lemma wait_step:
  assumes "drained cfg x evs s"
  shows "\<exists>s'. process_run cfg x s s' \<and> drained cfg x evs s' \<and> all_due s'"
proof -
  let ?now = "clkNow (es_clock (psEngine s))"
  define late where "late = Max (insert 0 ((\<lambda>tm. tmDeadline tm - ?now) ` set (armed s)))"
  let ?s = "s\<lparr>psApp := (psApp s)\<lparr>caNow := caNow (psApp s) + late\<rparr>, psEngine := es_tick late (psEngine s)\<rparr>"
  have "0 \<le> late" by (simp add: late_def)
  from assms have live: "\<not> psExited s" by (simp add: drained_def running_def)
  note step = process_step.intake [OF live intake_step.pass [OF \<open>0 \<le> late\<close>]]
  have "running cfg x evs ?s" by (rule running_step [OF _ step]) (use assms in \<open>simp_all add: drained_def\<close>)
  moreover have "tmDeadline tm - ?now \<le> late" if "tm \<in> set (armed s)" for tm using that by (simp add: late_def)
  then have "all_due ?s" by (force simp: all_due_def es_tick_def)
  ultimately show ?thesis using one_step [OF step] assms
    by (intro exI [of _ ?s]) (simp add: drained_def channel_load_def)
qed

lemma expire_step:
  assumes "drained cfg x evs s \<and> all_due s" and "0 < length (armed s)"
  shows "\<exists>s'. process_run cfg x s s' \<and> (drained cfg x evs s' \<and> all_due s') \<and> length (armed s') < length (armed s)"
proof -
  from assms obtain tm where tm: "tm \<in> set (armed s)" "tmDeadline tm \<le> clkNow (es_clock (psEngine s))"
    unfolding all_due_def by (metis length_greater_0_conv last_in_set)
  let ?s = "s\<lparr>psApp := psApp s, psEngine := es_expire tm (psEngine s)\<rparr>"
  from assms have live: "\<not> psExited s" by (simp add: drained_def running_def)
  note step = process_step.intake [OF live intake_step.expire [OF tm, where a = "psApp s"]]
  have "running cfg x evs ?s" by (rule running_step [OF _ step]) (use assms in \<open>simp_all add: drained_def\<close>)
  moreover have "all_due ?s" using assms(1) by (auto simp: all_due_def es_expire_def dest: notin_set_remove1)
  moreover have "length (armed ?s) < length (armed s)" using assms(2) tm(1) by (simp add: es_expire_def length_remove1)
  ultimately show ?thesis using one_step [OF step] assms
    by (intro exI [of _ ?s]) (simp add: drained_def channel_load_def)
qed

lemma call_step:
  fixes s :: "('w, 'e) process"
  assumes "drained cfg x evs s \<and> armed s = []" and "0 < length (inflight s)"
  shows "\<exists>s'. process_run cfg x s s' \<and> (drained cfg x evs s' \<and> armed s' = []) \<and> length (inflight s') < length (inflight s)"
proof -
  let ?ec = "main_engine_config cfg"
  from assms(2) obtain cb where cb: "cb \<in> set (inflight s)" by (metis length_greater_0_conv last_in_set)
  let ?batch = "snd (onTimerFire (fst cb) (snd cb) (esEngine (psEngine s)))"
  obtain js :: "('w core_app, 'e remote_error) flush_job list" where js: "starts_job ?ec ?batch js"
  proof (cases ?batch)
    case (Some b)
    obtain g bs where "b = (g, bs)" by force
    with Some starts_job.batch [OF refl refl, where g = g and bs = bs and cfg = ?ec] that show ?thesis by auto
  qed (use starts_job.nothing that in auto)
  let ?s = "s\<lparr>psEngine := es_callback cb (psEngine s), psJobs := psJobs s @ js\<rparr>"
  from assms have live: "\<not> psExited s" by (simp add: drained_def running_def)
  note step = process_step.callback [OF live cb js]
  have "running cfg x evs ?s" by (rule running_step [OF _ step]) (use assms in \<open>simp_all add: drained_def\<close>)
  moreover have "armed ?s = []" "inflight ?s = remove1 cb (inflight s)"
    using assms(1)
    by (auto simp: es_callback_def onTimerFire_eq fired_clock_def Let_def split: prod.splits if_splits)
  ultimately show ?thesis using one_step [OF step] assms cb
    by (intro exI [of _ ?s]) (simp add: drained_def channel_load_def length_remove1)
qed

lemma jobs_step:
  assumes "drained cfg x evs s \<and> armed s = [] \<and> inflight s = []" and "0 < length (psJobs s)"
  shows "\<exists>s'. process_run cfg x s s' \<and> (drained cfg x evs s' \<and> armed s' = [] \<and> inflight s' = []) \<and>
    length (psJobs s') < length (psJobs s)"
proof -
  from assms(2) obtain j post where j: "psJobs s = [] @ j # post" by (cases "psJobs s") auto
  from assms have "\<not> psExited s" by (simp add: drained_def running_def)
  from job_ends [OF this j, of cfg x] obtain t where t: "process_run cfg x s t" "only_jobs s t" "psJobs t = post" by auto
  with assms(1) process_reachable_run [OF _ t(1)] have "drained cfg x evs t" "armed t = []" "inflight t = []"
    by (auto simp: drained_def running_def channel_load_def only_jobs_def)
  with t j show ?thesis by (intro exI [of _ t]) simp
qed

text \<open>
  C10: As long as no signal has come and there is a worker, no reachable state is stuck: the
  process can go on by itself, without another request, to a state in which exactly the
  accepted events have been handed to Upsert and every call of Upsert has returned.
\<close>

theorem process_can_deliver_all:
  assumes "process_reachable cfg x s" and "\<not> psExited s" and "\<not> plCancelled (caPool (psApp s))" and "0 < cfWorkerCount cfg"
  shows "\<exists>s'. process_run cfg x s s' \<and> psAccepted s' = psAccepted s \<and> psJobs s' = [] \<and>
    mset (batch_events (psUpserted s')) = mset (psAccepted s)"
proof -
  let ?evs = "psAccepted s"
  have "running cfg x ?evs s" using assms(1-3) by (simp add: running_def)
  then obtain t1 where t1: "process_run cfg x s t1" "drained cfg x ?evs t1"
    using run_down [of "running cfg x ?evs" channel_load, OF drain_step [OF _ assms(4)]] by (auto simp: drained_def)
  obtain t2 where t2: "process_run cfg x t1 t2" "drained cfg x ?evs t2 \<and> all_due t2" using wait_step [OF t1(2)] by blast
  obtain t3 where t3: "process_run cfg x t2 t3" "drained cfg x ?evs t3 \<and> armed t3 = []"
    using run_down [of "\<lambda>s. drained cfg x ?evs s \<and> all_due s" "\<lambda>s. length (armed s)", OF expire_step t2(2)] by auto
  obtain t4 where t4: "process_run cfg x t3 t4" "drained cfg x ?evs t4 \<and> armed t4 = [] \<and> inflight t4 = []"
    using run_down [of "\<lambda>s. drained cfg x ?evs s \<and> armed s = []" "\<lambda>s. length (inflight s)", OF call_step t3(2)] by auto
  obtain t5 where t5: "process_run cfg x t4 t5" "drained cfg x ?evs t5" "armed t5 = []" "inflight t5 = []" "psJobs t5 = []"
    using run_down [of "\<lambda>s. drained cfg x ?evs s \<and> armed s = [] \<and> inflight s = []" "\<lambda>s. length (psJobs s)", OF jobs_step t4(2)] by auto
  have run: "process_run cfg x s t5" using t1(1) t2(1) t3(1) t4(1) t5(1) by (blast intro: process_run_trans)
  from t5(2) have reach: "process_reachable cfg x t5" and acc: "psAccepted t5 = ?evs" and load: "channel_load t5 = 0"
    by (simp_all add: drained_def running_def)
  have "reachable (main_engine_config cfg) (psEngine t5)" using process_intake_flush [OF reach] by (simp add: intake_ok_def)
  note quiet = quiescent_flushed [OF this t5(3,4)]
  have "mset (arrived_of g t ?evs) = mset (arrived_of g t (batch_events (psUpserted t5)))" for g t
    using events_accounted [OF reach, of g t] quiet [of g t] load t5(5) acc
    by (simp add: channel_load_def waiting_of_def gget_def arrived_of_def)
  then have "filter_mset (\<lambda>ev. evGroupKey ev = g \<and> evTrigger ev = t) (mset ?evs) =
      filter_mset (\<lambda>ev. evGroupKey ev = g \<and> evTrigger ev = t) (mset (batch_events (psUpserted t5)))" for g t
    by (simp add: arrived_of_def mset_filter)
  then have "count (mset ?evs) ev = count (mset (batch_events (psUpserted t5))) ev" for ev
    by (metis (mono_tags, lifting) count_filter_mset)
  then have "mset (batch_events (psUpserted t5)) = mset ?evs" by (simp add: multiset_eqI)
  with run acc t5(5) show ?thesis by blast
qed

section \<open>What a shutdown leaves behind\<close>

lemma exited_stuck: "psExited s \<Longrightarrow> process_run cfg x s s' \<Longrightarrow> s' = s"
proof (rotate_tac, induction rule: process_run.induct)
  case (run_more t u)
  then show ?case by (auto elim: process_step.cases)
qed simp

text \<open>The process can go down at any time, whatever the engine and the channel hold.\<close>

lemma can_exit:
  assumes "\<not> psExited s" and "plCancelled (caPool (psApp s))"
  shows "\<exists>s'. process_run cfg x s s' \<and> psExited s' \<and> psAccepted s' = psAccepted s \<and> psUpserted s' = psUpserted s \<and>
    psCalls s' = psCalls s"
proof -
  let ?t = "s\<lparr>psServing := False\<rparr>"
  have "process_step cfg x s ?t" by (rule process_step.shutdown [OF assms])
  moreover have "process_step cfg x ?t (?t\<lparr>psExited := True\<rparr>)" by (rule process_step.exit) (use assms in simp_all)
  ultimately have "process_run cfg x s (?t\<lparr>psExited := True\<rparr>)" by (blast intro: one_step process_run_trans)
  then show ?thesis by (intro exI [of _ "?t\<lparr>psExited := True\<rparr>"]) simp
qed

lemma local_submit:
  assumes "takes_events cfg req a" and "decode_body decode_event zero_event (rqBody req) = Some ev" and "event_validate ev = []"
    and "try_send ev (caPool a) = Some p"
  shows "main_server cfg x req a = (Some accepted_response, a\<lparr>caPool := p\<rparr>) \<and> taken cfg req a accepted_response = [ev]"
proof -
  have "with_leader cfg (exGetPod x) (exParse x) (exForward x) (local_events (exDecodeError x)) req a =
      local_events (exDecodeError x) req a"
    by (rule with_leader_local) (use assms(1) in \<open>auto simp: takes_events_def\<close>)
  moreover have "receiver_ServeHTTP (exDecodeError x) (rqBody req) (caPool a) = (accepted_response, p)"
    using assms(2-4) by (simp add: receiver_ServeHTTP_def)
  ultimately show ?thesis
    using core_server_post [of req "exDecodeError x" cfg "exGetPod x" "exParse x" "exForward x" a] assms(1,2)
    by (auto simp: main_server_def takes_events_def taken_def local_events_def accepted_def accepted_response_def)
qed

text \<open>
  C18: A signal does not stop the server first: in any state of a process that is serving and
  has room in the channel, a valid event that comes in after the signal, for this replica to
  handle, can still be answered with 202, and the process then exits without storing it or
  sending a message for it; nothing happens after that.
\<close>

theorem shutdown_drops_accepted:
  assumes "\<not> psExited s" and "psServing s" and "takes_events cfg req (psApp s)"
    and "decode_body decode_event zero_event (rqBody req) = Some ev" and "event_validate ev = []"
    and "length (plBuf (caPool (psApp s))) < plCap (caPool (psApp s))"
  shows "\<exists>t a s'. process_run cfg x s t \<and> plCancelled (caPool (psApp t)) \<and>
    main_server cfg x req (psApp t) = (Some accepted_response, a) \<and> process_run cfg x t s' \<and> psExited s' \<and>
    psAccepted s' = psAccepted s @ [ev] \<and> psUpserted s' = psUpserted s \<and> psCalls s' = psCalls s \<and>
    (\<forall>s''. process_run cfg x s' s'' \<longrightarrow> s'' = s')"
proof -
  let ?t = "s\<lparr>psApp := (psApp s)\<lparr>caPool := (caPool (psApp s))\<lparr>plCancelled := True\<rparr>\<rparr>\<rparr>"
  have signal: "process_run cfg x s ?t" by (rule one_step [OF process_step.signal [OF assms(1)]])
  have "try_send ev (caPool (psApp ?t)) \<noteq> None"
    using assms(6) by (simp add: try_send_def split: option.split)
  then obtain p where p: "try_send ev (caPool (psApp ?t)) = Some p" by auto
  have takes: "takes_events cfg req (psApp ?t)" using assms(3) by (simp add: takes_events_def)
  note answer = local_submit [OF takes assms(4,5) p, of x]
  let ?u = "?t\<lparr>psApp := (psApp ?t)\<lparr>caPool := p\<rparr>, psAccepted := psAccepted ?t @ [ev]\<rparr>"
  have "process_step cfg x ?t (?t\<lparr>psApp := (psApp ?t)\<lparr>caPool := p\<rparr>,
      psAccepted := psAccepted ?t @ taken cfg req (psApp ?t) accepted_response\<rparr>)"
    by (rule process_step.request) (use assms(1,2) answer in simp_all)
  then have submit: "process_step cfg x ?t ?u" using answer by simp
  have "plCancelled p" using p by (cases rule: try_send_cases) simp_all
  then have "\<not> psExited ?u" "plCancelled (caPool (psApp ?u))" using assms(1) by simp_all
  from can_exit [OF this, of cfg x] obtain s' where s': "process_run cfg x ?u s'" "psExited s'"
    "psAccepted s' = psAccepted s @ [ev]" "psUpserted s' = psUpserted s" "psCalls s' = psCalls s" by auto
  have "process_run cfg x ?t s'" using one_step [OF submit] s'(1) by (blast intro: process_run_trans)
  moreover have "\<forall>s''. process_run cfg x s' s'' \<longrightarrow> s'' = s'" using exited_stuck [OF s'(2)] by blast
  moreover have "plCancelled (caPool (psApp ?t))" by simp
  ultimately show ?thesis using signal answer s'(2-5) by blast
qed

end
