(* ===== verification/ApiClient.thy ===== *)
theory ApiClient
  imports App
begin

text \<open>
  The generated clients of \<open>api/core\<close> and \<open>api/backendapi\<close> in full: construction with options,
  request editors, the methods with and without parsed responses. The two packages share their
  text but for the operations, so \<open>Client\<close>, its options and what every method does are stated
  once. The end of the theory relates the clients to the shorter models that RemoteBackend and
  SlackBackend use, and follows an event from a client to the channel of the core.

  An answer of \<open>net/http\<close> comes with a body that is still to be read, which may fail. A call is
  \<open>None\<close> when it panics.
\<close>

record 'e raw_response =
  rwStatus :: string
  rwStatusCode :: int
  rwContentType :: string
  rwBody :: "'e + string"

type_synonym ('w, 'e) doer = "'w \<Rightarrow> http_request \<Rightarrow> ('e + 'e raw_response) \<times> 'w"
type_synonym ('w, 'e) request_editor = "http_request \<Rightarrow> 'w \<Rightarrow> ('e + http_request) \<times> 'w"

datatype 'e client_error = BadURL string | EditorFailed 'e | DoFailed 'e | ReadFailed 'e | BadJSON string

type_synonym ('w, 'e, 'a) call_outcome = "(('e client_error + 'a) \<times> 'w) option"

section \<open>Clients and their options\<close>

record ('w, 'e) api_client =
  acServer :: string
  acDoer :: "('w, 'e) doer option"
  acEditors :: "('w, 'e) request_editor list"

type_synonym ('w, 'e) client_option = "('w, 'e) api_client \<Rightarrow> 'e client_error + ('w, 'e) api_client"

fun apply_options :: "('w, 'e) client_option list \<Rightarrow> ('w, 'e) client_option" where
  "apply_options [] c = Inr c"
| "apply_options (opt # opts) c = (case opt c of Inl e \<Rightarrow> Inl e | Inr c \<Rightarrow> apply_options opts c)"

text \<open>\<open>NewClient\<close>; the first argument is \<open>&http.Client{}\<close>.\<close>

definition api_NewClient :: "('w, 'e) doer \<Rightarrow> string \<Rightarrow> ('w, 'e) client_option list \<Rightarrow>
    'e client_error + ('w, 'e) api_client" where
  "api_NewClient standard server opts =
     (case apply_options opts \<lparr>acServer = server, acDoer = None, acEditors = []\<rparr> of
        Inl e \<Rightarrow> Inl e
      | Inr c \<Rightarrow>
          let c = (if has_suffix (acServer c) ''/'' then c else c\<lparr>acServer := acServer c @ ''/''\<rparr>)
          in Inr (case acDoer c of None \<Rightarrow> c\<lparr>acDoer := Some standard\<rparr> | Some _ \<Rightarrow> c))"

definition WithHTTPClient :: "('w, 'e) doer \<Rightarrow> ('w, 'e) client_option" where
  "WithHTTPClient do c = Inr (c\<lparr>acDoer := Some do\<rparr>)"

definition WithRequestEditorFn :: "('w, 'e) request_editor \<Rightarrow> ('w, 'e) client_option" where
  "WithRequestEditorFn fn c = Inr (c\<lparr>acEditors := acEditors c @ [fn]\<rparr>)"

text \<open>\<open>WithBaseURL\<close>: the text of the URL that \<open>net/url\<close> parses.\<close>

definition api_WithBaseURL :: "(string \<Rightarrow> string option) \<Rightarrow> string \<Rightarrow> ('w, 'e) client_option" where
  "api_WithBaseURL url baseURL c =
     (case url baseURL of None \<Rightarrow> Inl (BadURL baseURL) | Some s \<Rightarrow> Inr (c\<lparr>acServer := s\<rparr>))"

section \<open>Calls\<close>

fun run_editors :: "('w, 'e) request_editor list \<Rightarrow> http_request \<Rightarrow> 'w \<Rightarrow> ('e + http_request) \<times> 'w" where
  "run_editors [] req w = (Inr req, w)"
| "run_editors (r # rs) req w =
     (case r req w of (Inl e, w) \<Rightarrow> (Inl e, w) | (Inr req, w) \<Rightarrow> run_editors rs req w)"

definition applyEditors :: "('w, 'e) api_client \<Rightarrow> http_request \<Rightarrow> ('w, 'e) request_editor list \<Rightarrow> 'w \<Rightarrow>
    ('e + http_request) \<times> 'w" where
  "applyEditors c req additional w =
     (case run_editors (acEditors c) req w of
        (Inl e, w) \<Rightarrow> (Inl e, w)
      | (Inr req, w) \<Rightarrow> run_editors additional req w)"

text \<open>The body of every method, after its request builder; without a Doer the call panics.\<close>

definition client_do :: "('w, 'e) api_client \<Rightarrow> http_request option \<Rightarrow> ('w, 'e) request_editor list \<Rightarrow> 'w \<Rightarrow>
    ('w, 'e, 'e raw_response) call_outcome" where
  "client_do c req reqEditors w =
     (case req of
        None \<Rightarrow> Some (Inl (BadURL (acServer c)), w)
      | Some req \<Rightarrow>
          (case applyEditors c req reqEditors w of
             (Inl e, w) \<Rightarrow> Some (Inl (EditorFailed e), w)
           | (Inr req, w) \<Rightarrow>
               (case acDoer c of
                  None \<Rightarrow> None
                | Some do \<Rightarrow> Some (apfst (map_sum DoFailed (\<lambda>rsp. rsp)) (do w req)))))"

definition new_request_with_body :: "(string \<Rightarrow> string \<Rightarrow> string option) \<Rightarrow> string \<Rightarrow> string \<Rightarrow> string \<Rightarrow> string \<Rightarrow>
    http_request option" where
  "new_request_with_body resolve server operationPath contentType body =
     map_option (rqHeader_update (\<lambda>_. [(''Content-Type'', contentType)])) (new_json_request resolve server operationPath body)"

subsection \<open>The client of a backend\<close>

text \<open>\<open>ClientInterface\<close> of \<open>api/backendapi\<close>, and the methods by which \<open>Client\<close> implements it.\<close>

record ('w, 'e) backend_client =
  bcNotifyWithBody :: "string \<Rightarrow> string \<Rightarrow> ('w, 'e) request_editor list \<Rightarrow> 'w \<Rightarrow> ('w, 'e, 'e raw_response) call_outcome"
  bcNotify :: "notify_request \<Rightarrow> ('w, 'e) request_editor list \<Rightarrow> 'w \<Rightarrow> ('w, 'e, 'e raw_response) call_outcome"
  bcThreadReplyWithBody :: "string \<Rightarrow> string \<Rightarrow> ('w, 'e) request_editor list \<Rightarrow> 'w \<Rightarrow> ('w, 'e, 'e raw_response) call_outcome"
  bcThreadReply :: "thread_reply_request \<Rightarrow> ('w, 'e) request_editor list \<Rightarrow> 'w \<Rightarrow> ('w, 'e, 'e raw_response) call_outcome"

definition Client_NotifyWithBody where
  "Client_NotifyWithBody resolve c contentType body reqEditors w =
     client_do c (new_request_with_body resolve (acServer c) ''/notify'' contentType body) reqEditors w"

definition Client_Notify where
  "Client_Notify resolve c body reqEditors w =
     client_do c (NewNotifyRequest resolve (acServer c) body) reqEditors w"

definition Client_ThreadReplyWithBody where
  "Client_ThreadReplyWithBody resolve c contentType body reqEditors w =
     client_do c (new_request_with_body resolve (acServer c) ''/thread-reply'' contentType body) reqEditors w"

definition Client_ThreadReply where
  "Client_ThreadReply resolve c body reqEditors w =
     client_do c (NewThreadReplyRequest resolve (acServer c) body) reqEditors w"

definition backend_client_of :: "(string \<Rightarrow> string \<Rightarrow> string option) \<Rightarrow> ('w, 'e) api_client \<Rightarrow> ('w, 'e) backend_client" where
  "backend_client_of resolve c =
     \<lparr>bcNotifyWithBody = Client_NotifyWithBody resolve c, bcNotify = Client_Notify resolve c,
      bcThreadReplyWithBody = Client_ThreadReplyWithBody resolve c, bcThreadReply = Client_ThreadReply resolve c\<rparr>"

subsection \<open>The client of the core\<close>

record ('w, 'e) core_client =
  ccSubmitEventWithBody :: "string \<Rightarrow> string \<Rightarrow> ('w, 'e) request_editor list \<Rightarrow> 'w \<Rightarrow> ('w, 'e, 'e raw_response) call_outcome"
  ccSubmitEvent :: "core_event \<Rightarrow> ('w, 'e) request_editor list \<Rightarrow> 'w \<Rightarrow> ('w, 'e, 'e raw_response) call_outcome"
  ccHealthz :: "('w, 'e) request_editor list \<Rightarrow> 'w \<Rightarrow> ('w, 'e, 'e raw_response) call_outcome"
  ccReadyz :: "('w, 'e) request_editor list \<Rightarrow> 'w \<Rightarrow> ('w, 'e, 'e raw_response) call_outcome"
  ccRegisterBackendWithBody :: "string \<Rightarrow> string \<Rightarrow> ('w, 'e) request_editor list \<Rightarrow> 'w \<Rightarrow> ('w, 'e, 'e raw_response) call_outcome"
  ccRegisterBackend :: "register_request \<Rightarrow> ('w, 'e) request_editor list \<Rightarrow> 'w \<Rightarrow> ('w, 'e, 'e raw_response) call_outcome"

definition Client_SubmitEventWithBody where
  "Client_SubmitEventWithBody resolve c contentType body reqEditors w =
     client_do c (new_request_with_body resolve (acServer c) ''/events'' contentType body) reqEditors w"

definition Client_SubmitEvent where
  "Client_SubmitEvent resolve c body reqEditors w =
     client_do c (NewSubmitEventRequest resolve (acServer c) body) reqEditors w"

definition Client_Healthz where
  "Client_Healthz resolve c reqEditors w = client_do c (NewHealthzRequest resolve (acServer c)) reqEditors w"

definition Client_Readyz where
  "Client_Readyz resolve c reqEditors w = client_do c (NewReadyzRequest resolve (acServer c)) reqEditors w"

definition Client_RegisterBackendWithBody where
  "Client_RegisterBackendWithBody resolve c contentType body reqEditors w =
     client_do c (new_request_with_body resolve (acServer c) ''/v1/backends/register'' contentType body) reqEditors w"

definition Client_RegisterBackend where
  "Client_RegisterBackend resolve c body reqEditors w =
     client_do c (NewRegisterBackendRequest resolve (acServer c) body) reqEditors w"

definition core_client_of :: "(string \<Rightarrow> string \<Rightarrow> string option) \<Rightarrow> ('w, 'e) api_client \<Rightarrow> ('w, 'e) core_client" where
  "core_client_of resolve c =
     \<lparr>ccSubmitEventWithBody = Client_SubmitEventWithBody resolve c, ccSubmitEvent = Client_SubmitEvent resolve c,
      ccHealthz = Client_Healthz resolve c, ccReadyz = Client_Readyz resolve c,
      ccRegisterBackendWithBody = Client_RegisterBackendWithBody resolve c,
      ccRegisterBackend = Client_RegisterBackend resolve c\<rparr>"


section \<open>Clients with responses\<close>

text \<open>\<open>ClientWithResponses\<close> wraps any implementation of \<open>ClientInterface\<close>.\<close>

record 'e parsed_response =
  prBody :: string
  prHTTPResponse :: "'e raw_response option"

record 'e notify_response = "'e parsed_response" +
  nsJSON200 :: "notify_result option"

definition response_Status :: "('e, 'x) parsed_response_scheme \<Rightarrow> string" where
  "response_Status r = (case prHTTPResponse r of Some rsp \<Rightarrow> rwStatus rsp | None \<Rightarrow> [])"

definition response_StatusCode :: "('e, 'x) parsed_response_scheme \<Rightarrow> int" where
  "response_StatusCode r = (case prHTTPResponse r of Some rsp \<Rightarrow> rwStatusCode rsp | None \<Rightarrow> 0)"

definition response_ContentType :: "('e, 'x) parsed_response_scheme \<Rightarrow> string" where
  "response_ContentType r = (case prHTTPResponse r of Some rsp \<Rightarrow> rwContentType rsp | None \<Rightarrow> [])"

definition api_ParseNotifyResponse :: "'e raw_response \<Rightarrow> 'e client_error + 'e notify_response" where
  "api_ParseNotifyResponse rsp =
     (case rwBody rsp of
        Inl e \<Rightarrow> Inl (ReadFailed e)
      | Inr body \<Rightarrow>
          let response = \<lparr>prBody = body, prHTTPResponse = Some rsp, nsJSON200 = None\<rparr>
          in if contains (rwContentType rsp) ''json'' \<and> rwStatusCode rsp = 200
             then (case json_unmarshal body of
                     None \<Rightarrow> Inl (BadJSON body)
                   | Some j \<Rightarrow> (case decode_notify_result j \<lparr>nrRef = []\<rparr> of
                       None \<Rightarrow> Inl (BadJSON body)
                     | Some dest \<Rightarrow> Inr (response\<lparr>nsJSON200 := Some dest\<rparr>)))
             else Inr response)"

text \<open>The parsers of the operations without a declared body.\<close>

definition ParsePlainResponse :: "'e raw_response \<Rightarrow> 'e client_error + 'e parsed_response" where
  "ParsePlainResponse rsp =
     (case rwBody rsp of
        Inl e \<Rightarrow> Inl (ReadFailed e)
      | Inr body \<Rightarrow> Inr \<lparr>prBody = body, prHTTPResponse = Some rsp\<rparr>)"

definition api_ParseThreadReplyResponse :: "'e raw_response \<Rightarrow> 'e client_error + 'e parsed_response" where
  [simp]: "api_ParseThreadReplyResponse = ParsePlainResponse"

definition ParseSubmitEventResponse :: "'e raw_response \<Rightarrow> 'e client_error + 'e parsed_response" where
  [simp]: "ParseSubmitEventResponse = ParsePlainResponse"

definition ParseHealthzResponse :: "'e raw_response \<Rightarrow> 'e client_error + 'e parsed_response" where
  [simp]: "ParseHealthzResponse = ParsePlainResponse"

definition ParseReadyzResponse :: "'e raw_response \<Rightarrow> 'e client_error + 'e parsed_response" where
  [simp]: "ParseReadyzResponse = ParsePlainResponse"

definition ParseRegisterBackendResponse :: "'e raw_response \<Rightarrow> 'e client_error + 'e parsed_response" where
  [simp]: "ParseRegisterBackendResponse = ParsePlainResponse"

definition parsed :: "('e raw_response \<Rightarrow> 'e client_error + 'r) \<Rightarrow> ('w, 'e, 'e raw_response) call_outcome \<Rightarrow>
    ('w, 'e, 'r) call_outcome" where
  "parsed parse = map_option (\<lambda>(res, w). (case res of Inl e \<Rightarrow> Inl e | Inr rsp \<Rightarrow> parse rsp, w))"

definition NotifyWithBodyWithResponse where
  "NotifyWithBodyWithResponse c contentType body reqEditors w =
     parsed api_ParseNotifyResponse (bcNotifyWithBody c contentType body reqEditors w)"

definition NotifyWithResponse where
  "NotifyWithResponse c body reqEditors w = parsed api_ParseNotifyResponse (bcNotify c body reqEditors w)"

definition ThreadReplyWithBodyWithResponse where
  "ThreadReplyWithBodyWithResponse c contentType body reqEditors w =
     parsed api_ParseThreadReplyResponse (bcThreadReplyWithBody c contentType body reqEditors w)"

definition ThreadReplyWithResponse where
  "ThreadReplyWithResponse c body reqEditors w = parsed api_ParseThreadReplyResponse (bcThreadReply c body reqEditors w)"

definition SubmitEventWithBodyWithResponse where
  "SubmitEventWithBodyWithResponse c contentType body reqEditors w =
     parsed ParseSubmitEventResponse (ccSubmitEventWithBody c contentType body reqEditors w)"

definition SubmitEventWithResponse where
  "SubmitEventWithResponse c body reqEditors w = parsed ParseSubmitEventResponse (ccSubmitEvent c body reqEditors w)"

definition HealthzWithResponse where
  "HealthzWithResponse c reqEditors w = parsed ParseHealthzResponse (ccHealthz c reqEditors w)"

definition ReadyzWithResponse where
  "ReadyzWithResponse c reqEditors w = parsed ParseReadyzResponse (ccReadyz c reqEditors w)"

definition RegisterBackendWithBodyWithResponse where
  "RegisterBackendWithBodyWithResponse c contentType body reqEditors w =
     parsed ParseRegisterBackendResponse (ccRegisterBackendWithBody c contentType body reqEditors w)"

definition RegisterBackendWithResponse where
  "RegisterBackendWithResponse c body reqEditors w = parsed ParseRegisterBackendResponse (ccRegisterBackend c body reqEditors w)"

definition backend_NewClientWithResponses :: "(string \<Rightarrow> string \<Rightarrow> string option) \<Rightarrow> ('w, 'e) doer \<Rightarrow> string \<Rightarrow>
    ('w, 'e) client_option list \<Rightarrow> 'e client_error + ('w, 'e) backend_client" where
  "backend_NewClientWithResponses resolve standard server opts =
     map_sum (\<lambda>e. e) (backend_client_of resolve) (api_NewClient standard server opts)"

definition core_NewClientWithResponses :: "(string \<Rightarrow> string \<Rightarrow> string option) \<Rightarrow> ('w, 'e) doer \<Rightarrow> string \<Rightarrow>
    ('w, 'e) client_option list \<Rightarrow> 'e client_error + ('w, 'e) core_client" where
  "core_NewClientWithResponses resolve standard server opts =
     map_sum (\<lambda>e. e) (core_client_of resolve) (api_NewClient standard server opts)"

section \<open>The callers\<close>

text \<open>
  \<open>Backend.Notify\<close>, \<open>Backend.PostThreadReply\<close>, \<open>NewRegistrar\<close> and \<open>Registrar.register\<close> as they are
  written, on the clients above. The errors of a client come back as those of the backend.
\<close>

fun wrap_error :: "'e client_error \<Rightarrow> 'e remote_error" where
  "wrap_error (BadURL s) = InvalidURL s"
| "wrap_error (EditorFailed e) = TransportFailed e"
| "wrap_error (DoFailed e) = TransportFailed e"
| "wrap_error (ReadFailed e) = TransportFailed e"
| "wrap_error (BadJSON s) = InvalidResponse s"

definition Backend_Notify :: "('w, 'e) remote_env \<Rightarrow> ('w, 'e) doer \<Rightarrow> ('w, 'e) doer \<Rightarrow> string \<Rightarrow> 'w \<Rightarrow> string \<Rightarrow> string \<Rightarrow>
    notification \<Rightarrow> (('e remote_error + string) \<times> 'w) option" where
  "Backend_Notify env standard http name w recipient ref n =
     (case Lookup (reNow env w) name (reRegistry env w) of
        None \<Rightarrow> Some (Inl ErrBackendNotRegistered, w)
      | Some be \<Rightarrow>
          (case backend_NewClientWithResponses (reResolveURL env) standard (rbBaseURL be) [WithHTTPClient http] of
             Inl e \<Rightarrow> Some (Inl (wrap_error e), w)
           | Inr client \<Rightarrow>
               map_option (\<lambda>(res, w).
                 (case res of
                    Inl e \<Rightarrow> Inl (wrap_error e)
                  | Inr resp \<Rightarrow>
                      (case (response_StatusCode resp \<noteq> 200, nsJSON200 resp) of
                         (False, Some r) \<Rightarrow> Inr (nrRef r)
                       | _ \<Rightarrow> Inl (UnexpectedStatus (response_StatusCode resp) (prBody resp))), w))
                 (NotifyWithResponse client
                    \<lparr>nqNotification = toWireNotification n, nqRecipient = recipient, nqRef = ref\<rparr> [] w)))"

definition Backend_PostThreadReply :: "('w, 'e) remote_env \<Rightarrow> ('w, 'e) doer \<Rightarrow> ('w, 'e) doer \<Rightarrow> string \<Rightarrow> 'w \<Rightarrow> string \<Rightarrow>
    string \<Rightarrow> string \<Rightarrow> ('e remote_error option \<times> 'w) option" where
  "Backend_PostThreadReply env standard http name w recipient ref msg =
     (case Lookup (reNow env w) name (reRegistry env w) of
        None \<Rightarrow> Some (Some ErrBackendNotRegistered, w)
      | Some be \<Rightarrow>
          if \<not> rbSupportsThreadReply be then Some (Some ErrThreadReplyNotSupported, w)
          else (case backend_NewClientWithResponses (reResolveURL env) standard (rbBaseURL be) [WithHTTPClient http] of
             Inl e \<Rightarrow> Some (Some (wrap_error e), w)
           | Inr client \<Rightarrow>
               map_option (\<lambda>(res, w).
                 (case res of
                    Inl e \<Rightarrow> Some (wrap_error e)
                  | Inr resp \<Rightarrow>
                      if response_StatusCode resp \<noteq> 204
                      then Some (UnexpectedStatus (response_StatusCode resp) (prBody resp)) else None, w))
                 (ThreadReplyWithResponse client \<lparr>tqRecipient = recipient, tqRef = ref, tqText = msg\<rparr> [] w)))"

definition Registrar_register :: "('w, 'e) core_client \<Rightarrow> registrar \<times> 'w \<Rightarrow> (registrar \<times> 'w) option" where
  "Registrar_register client = (\<lambda>(r, w).
     map_option (\<lambda>(res, w).
       (case res of
          Inl e \<Rightarrow> r
        | Inr resp \<Rightarrow> if response_StatusCode resp \<noteq> 204 then r else r\<lparr>raRegistered := True\<rparr>, w))
       (RegisterBackendWithResponse client
          \<lparr>gqBaseURL = raBaseURL r, gqName = raName r, gqSupportsThreadReply = raSupportsThreadReply r\<rparr> [] w))"


section \<open>Options\<close>

lemma api_NewClient_http:
  "api_NewClient standard server [WithHTTPClient http] =
     Inr \<lparr>acServer = client_server server, acDoer = Some http, acEditors = []\<rparr>"
  by (simp add: api_NewClient_def WithHTTPClient_def client_server_def Let_def)

text \<open>The options of the package, as data, and what a list of them asks for.\<close>

datatype ('w, 'e) std_option =
    HTTPClient "('w, 'e) doer" | RequestEditorFn "('w, 'e) request_editor" | BaseURL string

fun option_of :: "(string \<Rightarrow> string option) \<Rightarrow> ('w, 'e) std_option \<Rightarrow> ('w, 'e) client_option" where
  "option_of url (HTTPClient do) = WithHTTPClient do"
| "option_of url (RequestEditorFn fn) = WithRequestEditorFn fn"
| "option_of url (BaseURL b) = api_WithBaseURL url b"

definition doers :: "('w, 'e) std_option list \<Rightarrow> ('w, 'e) doer list" where
  "doers os = List.map_filter (\<lambda>opt. case opt of HTTPClient do \<Rightarrow> Some do | _ \<Rightarrow> None) os"

definition editors :: "('w, 'e) std_option list \<Rightarrow> ('w, 'e) request_editor list" where
  "editors os = List.map_filter (\<lambda>opt. case opt of RequestEditorFn fn \<Rightarrow> Some fn | _ \<Rightarrow> None) os"

definition base_urls :: "('w, 'e) std_option list \<Rightarrow> string list" where
  "base_urls os = List.map_filter (\<lambda>opt. case opt of BaseURL b \<Rightarrow> Some b | _ \<Rightarrow> None) os"

lemma std_option_lists [simp]:
  "doers [] = []" "doers (opt # os) = (case opt of HTTPClient do \<Rightarrow> do # doers os | _ \<Rightarrow> doers os)"
  "editors [] = []" "editors (opt # os) = (case opt of RequestEditorFn fn \<Rightarrow> fn # editors os | _ \<Rightarrow> editors os)"
  "base_urls [] = []" "base_urls (opt # os) = (case opt of BaseURL b \<Rightarrow> b # base_urls os | _ \<Rightarrow> base_urls os)"
  by (simp_all add: doers_def editors_def base_urls_def List.map_filter_def split: std_option.split)

lemma apply_std_options:
  "apply_options (map (option_of url) os) c =
     (case find (\<lambda>b. url b = None) (base_urls os) of
        Some b \<Rightarrow> Inl (BadURL b)
      | None \<Rightarrow> Inr (c\<lparr>acServer := last (acServer c # map (\<lambda>b. the (url b)) (base_urls os)),
          acDoer := last (acDoer c # map Some (doers os)), acEditors := acEditors c @ editors os\<rparr>))"
proof (induction os arbitrary: c)
  case (Cons opt os)
  then show ?case
    by (cases opt) (auto simp: WithHTTPClient_def WithRequestEditorFn_def api_WithBaseURL_def split: option.split)
qed simp

lemma last_map_Some: "last (None # map Some xs) = (if xs = [] then None else Some (last xs))"
  by (simp add: last_map)

text \<open>
  The first base URL that does not parse is the error; otherwise the last base URL and the last
  Doer count, and the editors are kept in their order.
\<close>

lemma client_options_compose:
  "api_NewClient standard server (map (option_of url) os) =
     (case find (\<lambda>b. url b = None) (base_urls os) of
        Some b \<Rightarrow> Inl (BadURL b)
      | None \<Rightarrow> Inr \<lparr>acServer = client_server (last (server # map (\<lambda>b. the (url b)) (base_urls os))),
          acDoer = Some (last (standard # doers os)), acEditors = editors os\<rparr>)"
  unfolding api_NewClient_def apply_std_options
  by (cases "find (\<lambda>b. url b = None) (base_urls os)")
    (simp_all add: last_map_Some client_server_def Let_def del: last.simps, auto)

section \<open>Editors\<close>

lemma run_editors_append:
  "run_editors (rs @ rs') req w =
     (case run_editors rs req w of (Inl e, w) \<Rightarrow> (Inl e, w) | (Inr req, w) \<Rightarrow> run_editors rs' req w)"
  by (induction rs arbitrary: req w) (auto split: prod.split sum.split)

lemma applyEditors_append: "applyEditors c req additional w = run_editors (acEditors c @ additional) req w"
  by (simp add: applyEditors_def run_editors_append)

text \<open>The editor that fails is the last one to run, and its request is not sent.\<close>

lemma failing_editor_stops:
  assumes "acEditors c @ reqEditors = before @ r # after"
    and "run_editors before req w = (Inr req', w')" and "r req' w' = (Inl e, w'')"
  shows "client_do c (Some req) reqEditors w = Some (Inl (EditorFailed e), w'')"
  using assms by (simp add: client_do_def applyEditors_append run_editors_append)

text \<open>A client that \<open>NewClient\<close> made does not panic.\<close>

lemma built_client_answers:
  assumes "api_NewClient standard server opts = Inr c"
  shows "has_suffix (acServer c) ''/'' \<and> client_do c req reqEditors w \<noteq> None"
proof -
  from assms have "acDoer c \<noteq> None" "has_suffix (acServer c) ''/''"
    by (auto simp: api_NewClient_def Let_def has_suffix_def split: sum.splits option.splits if_splits)
  then show ?thesis by (auto simp: client_do_def split: option.split prod.split sum.split)
qed

lemma client_do_plain:
  "client_do \<lparr>acServer = s, acDoer = Some http, acEditors = []\<rparr> (Some req) [] w =
     Some (apfst (map_sum DoFailed (\<lambda>rsp. rsp)) (http w req))"
  "client_do \<lparr>acServer = s, acDoer = do, acEditors = []\<rparr> None [] w = Some (Inl (BadURL s), w)"
  by (simp_all add: client_do_def applyEditors_def)


section \<open>The shorter models\<close>

text \<open>An exchange together with the reading of the body, as the shorter models have it.\<close>

definition read_all :: "('w, 'e) doer \<Rightarrow> 'w \<Rightarrow> http_request \<Rightarrow> ('e + http_response) \<times> 'w" where
  "read_all do w req =
     (case do w req of
        (Inl e, w) \<Rightarrow> (Inl e, w)
      | (Inr rsp, w) \<Rightarrow>
          (map_sum (\<lambda>e. e) (\<lambda>body. \<lparr>rsStatus = rwStatusCode rsp, rsContentType = rwContentType rsp, rsBody = body\<rparr>)
             (rwBody rsp), w))"

lemma exchange_cases:
  fixes http :: "('w, 'e) doer"
  obtains (failed) e w' where "http w req = (Inl e, w')"
    | (unread) rsp e w' where "http w req = (Inr rsp, w')" "rwBody rsp = Inl e"
    | (answered) rsp body w' where "http w req = (Inr rsp, w')" "rwBody rsp = Inr body"
  by (metis obj_sumE surj_pair)

lemmas call_defs = client_do_plain parsed_def exchange_def read_all_def response_StatusCode_def Let_def
  api_NewClient_http backend_NewClientWithResponses_def core_NewClientWithResponses_def
  backend_client_of_def core_client_of_def

lemma Backend_Notify_eq:
  "Backend_Notify env standard http name w recipient ref n =
     Some (remote_notify (env\<lparr>reDo := read_all http\<rparr>) name w recipient ref n)"
proof (cases "Lookup (reNow env w) name (reRegistry env w)")
  case None
  then show ?thesis by (simp add: Backend_Notify_def remote_notify_def)
next
  case (Some be)
  note defs = Backend_Notify_def remote_notify_def NotifyWithResponse_def Client_Notify_def call_defs Some
  show ?thesis
  proof (cases "NewNotifyRequest (reResolveURL env) (client_server (rbBaseURL be))
      \<lparr>nqNotification = toWireNotification n, nqRecipient = recipient, nqRef = ref\<rparr>")
    case None
    then show ?thesis by (simp add: defs)
  next
    case (Some req)
    then show ?thesis
    proof (cases http w req rule: exchange_cases)
      case (answered rsp body w')
      with Some show ?thesis
        by (cases "rwStatusCode rsp = 200")
          (auto simp: defs api_ParseNotifyResponse_def ParseNotifyResponse_def split: option.split)
    qed (simp_all add: defs api_ParseNotifyResponse_def)
  qed
qed

lemma Backend_PostThreadReply_eq:
  "Backend_PostThreadReply env standard http name w recipient ref msg =
     Some (remote_thread_reply (env\<lparr>reDo := read_all http\<rparr>) name w recipient ref msg)"
proof (cases "Lookup (reNow env w) name (reRegistry env w)")
  case None
  then show ?thesis by (simp add: Backend_PostThreadReply_def remote_thread_reply_def)
next
  case (Some be)
  note defs = Backend_PostThreadReply_def remote_thread_reply_def ThreadReplyWithResponse_def
    Client_ThreadReply_def ParsePlainResponse_def call_defs Some
  show ?thesis
  proof (cases "NewThreadReplyRequest (reResolveURL env) (client_server (rbBaseURL be))
      \<lparr>tqRecipient = recipient, tqRef = ref, tqText = msg\<rparr>")
    case None
    then show ?thesis by (simp add: defs)
  next
    case (Some req)
    then show ?thesis by (cases http w req rule: exchange_cases) (simp_all add: defs)
  qed
qed

lemma Registrar_register_eq:
  assumes "core_NewClientWithResponses resolve standard coreURL [WithHTTPClient http] = Inr client"
    and "raServer r = client_server coreURL"
  shows "Registrar_register client (r, w) = Some (register resolve (read_all http) (r, w))"
proof -
  have client: "client = core_client_of resolve \<lparr>acServer = raServer r, acDoer = Some http, acEditors = []\<rparr>"
    using assms by (simp add: core_NewClientWithResponses_def api_NewClient_http)
  note defs = Registrar_register_def register_def RegisterBackendWithResponse_def Client_RegisterBackend_def
    ParsePlainResponse_def call_defs client
  show ?thesis
  proof (cases "NewRegisterBackendRequest resolve (raServer r)
      \<lparr>gqBaseURL = raBaseURL r, gqName = raName r, gqSupportsThreadReply = raSupportsThreadReply r\<rparr>")
    case None
    then show ?thesis by (simp add: defs)
  next
    case (Some req)
    then show ?thesis by (cases http w req rule: exchange_cases) (simp_all add: defs)
  qed
qed

text \<open>
  The remote backend and the registrar as they are written, on the generated clients with
  options, editors and response parsers, never panic and behave exactly like the short models
  that the end-to-end theorems are about.
\<close>

lemma generated_clients_refine:
  "Backend_Notify env standard http name w recipient ref n =
     Some (remote_notify (env\<lparr>reDo := read_all http\<rparr>) name w recipient ref n) \<and>
   Backend_PostThreadReply env standard http name w recipient ref msg =
     Some (remote_thread_reply (env\<lparr>reDo := read_all http\<rparr>) name w recipient ref msg) \<and>
   (\<exists>client. core_NewClientWithResponses resolve standard coreURL [WithHTTPClient http'] = Inr client \<and>
     Registrar_register client (NewRegistrar coreURL name baseURL s, v) =
       Some (register resolve (read_all http') (NewRegistrar coreURL name baseURL s, v)))"
proof -
  have "\<exists>client. core_NewClientWithResponses resolve standard coreURL [WithHTTPClient http'] = Inr client"
    by (simp add: core_NewClientWithResponses_def api_NewClient_http)
  then show ?thesis
    by (auto simp: Backend_Notify_eq Backend_PostThreadReply_eq Registrar_register_eq NewRegistrar_def)
qed


section \<open>An event on its way to the core\<close>

text \<open>A Doer over an exchange that delivers whole answers; \<open>line\<close> is the text of a status.\<close>

definition whole :: "(int \<Rightarrow> string) \<Rightarrow> ('w \<Rightarrow> http_request \<Rightarrow> ('e + http_response) \<times> 'w) \<Rightarrow> ('w, 'e) doer" where
  "whole line do w req = apfst (map_sum (\<lambda>e. e)
     (\<lambda>rsp. \<lparr>rwStatus = line (rsStatus rsp), rwStatusCode = rsStatus rsp, rwContentType = rsContentType rsp,
        rwBody = Inr (rsBody rsp)\<rparr>)) (do w req)"

definition core_client_at :: "(string \<Rightarrow> string \<Rightarrow> string option) \<Rightarrow> (int \<Rightarrow> string) \<Rightarrow> 'e \<Rightarrow> 'w handler_func \<Rightarrow> string \<Rightarrow>
    ('w, 'e) core_client" where
  "core_client_at resolve line lost srv url =
     core_client_of resolve \<lparr>acServer = client_server url, acDoer = Some (whole line (network lost srv url)), acEditors = []\<rparr>"

lemma core_client_at_built:
  "core_NewClientWithResponses resolve standard url [WithHTTPClient (whole line (network lost srv url))] =
     Inr (core_client_at resolve line lost srv url)"
  by (simp add: core_NewClientWithResponses_def api_NewClient_http core_client_at_def)

lemma plain_call_over_network:
  assumes "srv (req\<lparr>rqURL := path\<rparr>) w = (Some rsp, w')" and "rqURL req = url @ path"
  shows "\<exists>resp. parsed ParsePlainResponse (client_do \<lparr>acServer = s, acDoer = Some (whole line (network lost srv url)), acEditors = []\<rparr>
      (Some req) [] w) = Some (Inr resp, w') \<and> response_StatusCode resp = rsStatus rsp \<and> prBody resp = rsBody rsp"
  using assms
  by (simp add: client_do_plain parsed_def whole_def network_def ParsePlainResponse_def response_StatusCode_def)

text \<open>What the endpoint of a process answers and does, for the event of a client.\<close>

lemma receiver_submitted:
  assumes "core_event_ok e" and "length (json_text (core_event_json e)) \<le> maxBodyBytes"
  shows "receiver_ServeHTTP decode_error (json_text (core_event_json e)) p =
    (if event_validate (event_of e) \<noteq> []
     then (http_error (''invalid event: '' @ join [CHR 0x0A] (map event_error_text (event_validate (event_of e)))) 400, p)
     else case try_send (event_of e) p of
            Some p' \<Rightarrow> (accepted_response, p') | None \<Rightarrow> (http_error ''queue full'' 503, p))"
  by (simp add: receiver_ServeHTTP_def event_contract [OF assms])

text \<open>
  C21: From a client of the contract into the channel: for an event whose texts are valid
  UTF-8, with each label named once, and whose JSON is within the 1 MiB of the body reader, and
  for an address from which net/url resolves the path of the operation, submitting it through
  the generated client to a core that handles requests itself puts exactly that event into the
  channel and yields status 202, or 503 where there is no room, or 400 for an event with a
  missing field, and changes nothing else.
\<close>

theorem submit_event_over_http:
  assumes "core_event_ok e" and "length (json_text (core_event_json e)) \<le> maxBodyBytes"
    and "resolve (client_server url) ''./events'' = Some (url @ ''/events'')"
    and "cfLeaderElectionEnabled cfg \<longrightarrow> IsLeader (caElector a)"
  shows "\<exists>resp p. SubmitEventWithResponse (core_client_at resolve line lost (core_server decode_error cfg get parse forward) url)
      e [] a = Some (Inr resp, a\<lparr>caPool := p\<rparr>) \<and>
    (response_StatusCode resp, p) =
      (if event_validate (event_of e) \<noteq> [] then (400, caPool a)
       else case try_send (event_of e) (caPool a) of Some p \<Rightarrow> (202, p) | None \<Rightarrow> (503, caPool a))"
proof -
  let ?req = "\<lparr>rqMethod = ''POST'', rqURL = ''/events'', rqHeader = [(''Content-Type'', ''application/json'')],
    rqBody = json_text (core_event_json e)\<rparr>"
  obtain rsp p where handled: "receiver_ServeHTTP decode_error (json_text (core_event_json e)) (caPool a) = (rsp, p)"
    by force
  have served: "core_server decode_error cfg get parse forward ?req a = (Some rsp, a\<lparr>caPool := p\<rparr>)"
    using assms(4) handled by (simp add: core_server_post with_leader_local local_events_def)
  have "NewSubmitEventRequest resolve (client_server url) e = Some (?req\<lparr>rqURL := url @ ''/events''\<rparr>)"
    using assms(3) by (simp add: NewSubmitEventRequest_def new_json_request_def)
  with plain_call_over_network [of "core_server decode_error cfg get parse forward" "''/events''" "?req\<lparr>rqURL := url @ ''/events''\<rparr>" a
      rsp "a\<lparr>caPool := p\<rparr>" url "client_server url" line lost] served
  obtain resp where "SubmitEventWithResponse (core_client_at resolve line lost (core_server decode_error cfg get parse forward) url)
      e [] a = Some (Inr resp, a\<lparr>caPool := p\<rparr>)" "response_StatusCode resp = rsStatus rsp"
    by (auto simp: SubmitEventWithResponse_def core_client_at_def core_client_of_def Client_SubmitEvent_def)
  with handled show ?thesis
    by (auto simp: receiver_submitted [OF assms(1,2)] http_error_def accepted_response_def split: if_splits option.splits)
qed

text \<open>The probes are answered on every replica.\<close>

lemma probes_over_http:
  assumes "resolve (client_server url) ''./healthz'' = Some (url @ ''/healthz'')"
    and "resolve (client_server url) ''./readyz'' = Some (url @ ''/readyz'')"
    and client: "client = core_client_at resolve line lost (core_server decode_error cfg get parse forward) url"
  shows "\<exists>resp. HealthzWithResponse client [] a = Some (Inr resp, a) \<and> response_StatusCode resp = 200"
    and "\<exists>resp. ReadyzWithResponse client [] a = Some (Inr resp, a) \<and> response_StatusCode resp = 200"
proof -
  let ?req = "\<lambda>path. \<lparr>rqMethod = ''GET'', rqURL = path, rqHeader = [], rqBody = []\<rparr>"
  let ?srv = "core_server decode_error cfg get parse forward"
  have "NewHealthzRequest resolve (client_server url) = Some (?req (url @ ''/healthz''))"
    "NewReadyzRequest resolve (client_server url) = Some (?req (url @ ''/readyz''))"
    using assms by (simp_all add: NewHealthzRequest_def NewReadyzRequest_def new_get_request_def)
  moreover have "?srv (?req path) a = (Some (write_status 200), a)" if "path \<in> {''/healthz'', ''/readyz''}" for path
    using that core_server_probes [of decode_error cfg get parse forward "?req path" a] by (simp add: Let_def)
  moreover note plain_call_over_network [of ?srv path "?req (url @ path)" a "write_status 200" a url "client_server url" line lost for path]
  ultimately show "\<exists>resp. HealthzWithResponse client [] a = Some (Inr resp, a) \<and> response_StatusCode resp = 200"
    and "\<exists>resp. ReadyzWithResponse client [] a = Some (Inr resp, a) \<and> response_StatusCode resp = 200"
    by (force simp: client HealthzWithResponse_def ReadyzWithResponse_def core_client_at_def core_client_of_def
        Client_Healthz_def Client_Readyz_def write_status_def)+
qed

definition sample_resolve :: "string \<Rightarrow> string \<Rightarrow> string option" where
  "sample_resolve base path = Some (butlast base @ drop 1 path)"

lemma submit_event_over_http_witness:
  "\<exists>resp. SubmitEventWithResponse (core_client_at sample_resolve (\<lambda>n. []) ()
      (core_server (\<lambda>s. s) (sample_config\<lparr>cfLeaderElectionEnabled := False\<rparr>) sample_get sample_owner (\<lambda>u req w. (no_content, w)))
      ''http://core'') created_on_wire [] sample_app =
    Some (Inr resp, sample_app\<lparr>caPool := (start_pool 1 1)\<lparr>plBuf := [created]\<rparr>\<rparr>) \<and>
    response_StatusCode resp = 202"
proof -
  have valid: "event_validate (event_of created_on_wire) = []" unfolding created_on_wire_ok(3) by code_simp
  have sent: "try_send (event_of created_on_wire) (caPool sample_app) = Some ((start_pool 1 1)\<lparr>plBuf := [created]\<rparr>)"
    unfolding created_on_wire_ok(3) by code_simp
  have url: "sample_resolve (client_server ''http://core'') ''./events'' =
      Some (''http://core'' @ ''/events'')" by code_simp
  have leads: "cfLeaderElectionEnabled (sample_config\<lparr>cfLeaderElectionEnabled := False\<rparr>) \<longrightarrow> IsLeader (caElector sample_app)"
    by simp
  note submit_event_over_http [where e = created_on_wire and resolve = sample_resolve and url = "''http://core''"
      and cfg = "sample_config\<lparr>cfLeaderElectionEnabled := False\<rparr>" and a = sample_app,
      OF created_on_wire_ok(1,2) url leads, where line = "\<lambda>n. []" and lost = "()" and decode_error = "\<lambda>s. s"
      and get = sample_get and parse = sample_owner and forward = "\<lambda>u req w. (no_content, w)"]
  then show ?thesis unfolding valid sent by simp
qed

end
