(* ===== verification/ApiServer.thy ===== *)
theory ApiServer
  imports ApiClient
begin

text \<open>
  The generated routers of \<open>api/core\<close> and \<open>api/backendapi\<close>: the wrapper that puts the middlewares
  around each operation, and the registration of the operations at a multiplexer. A router is
  the list of its routes; registering a pattern twice panics (\<open>None\<close>). The routes that the servers
  of App and SlackBackend are stated with are the ones registered here.
\<close>

type_synonym 'w middleware = "'w handler_func \<Rightarrow> 'w handler_func"

text \<open>\<open>ServerInterface\<close> of both packages.\<close>

record 'w core_operations =
  coSubmitEvent :: "'w handler_func"
  coHealthz :: "'w handler_func"
  coReadyz :: "'w handler_func"
  coRegisterBackend :: "'w handler_func"

record 'w backend_operations =
  boNotifyOp :: "'w handler_func"
  boThreadReplyOp :: "'w handler_func"

text \<open>No operation has parameters, so the error handler of the wrapper is never called.\<close>

record ('w, 'o) server_wrapper =
  swHandler :: 'o
  swMiddlewares :: "'w middleware list"
  swErrorHandler :: "http_request \<Rightarrow> string \<Rightarrow> http_response"

definition with_middlewares :: "'w middleware list \<Rightarrow> 'w middleware" where
  "with_middlewares mws handler = fold (\<lambda>middleware handler. middleware handler) mws handler"

section \<open>Wrappers\<close>

definition wrapper_SubmitEvent :: "('w, 'w core_operations) server_wrapper \<Rightarrow> 'w handler_func" where
  "wrapper_SubmitEvent siw = with_middlewares (swMiddlewares siw) (\<lambda>r w. coSubmitEvent (swHandler siw) r w)"

definition wrapper_Healthz :: "('w, 'w core_operations) server_wrapper \<Rightarrow> 'w handler_func" where
  "wrapper_Healthz siw = with_middlewares (swMiddlewares siw) (\<lambda>r w. coHealthz (swHandler siw) r w)"

definition wrapper_Readyz :: "('w, 'w core_operations) server_wrapper \<Rightarrow> 'w handler_func" where
  "wrapper_Readyz siw = with_middlewares (swMiddlewares siw) (\<lambda>r w. coReadyz (swHandler siw) r w)"

definition wrapper_RegisterBackend :: "('w, 'w core_operations) server_wrapper \<Rightarrow> 'w handler_func" where
  "wrapper_RegisterBackend siw = with_middlewares (swMiddlewares siw) (\<lambda>r w. coRegisterBackend (swHandler siw) r w)"

definition wrapper_Notify :: "('w, 'w backend_operations) server_wrapper \<Rightarrow> 'w handler_func" where
  "wrapper_Notify siw = with_middlewares (swMiddlewares siw) (\<lambda>r w. boNotifyOp (swHandler siw) r w)"

definition wrapper_ThreadReply :: "('w, 'w backend_operations) server_wrapper \<Rightarrow> 'w handler_func" where
  "wrapper_ThreadReply siw = with_middlewares (swMiddlewares siw) (\<lambda>r w. boThreadReplyOp (swHandler siw) r w)"

section \<open>Registration\<close>

definition HandleFunc :: "string option \<Rightarrow> string \<Rightarrow> 'w handler_func \<Rightarrow> 'w route list \<Rightarrow> 'w route list option" where
  "HandleFunc m path h routes =
     (if (m, path) \<in> set (map (\<lambda>(m, path, h). (m, path)) routes) then None else Some (routes @ [(m, path, h)]))"

record 'w server_options =
  soBaseURL :: string
  soBaseRouter :: "'w route list option"
  soMiddlewares :: "'w middleware list"
  soErrorHandler :: "(http_request \<Rightarrow> string \<Rightarrow> http_response) option"

definition zero_options :: "'w server_options" where
  "zero_options = \<lparr>soBaseURL = [], soBaseRouter = None, soMiddlewares = [], soErrorHandler = None\<rparr>"

definition options_router :: "'w server_options \<Rightarrow> 'w route list" where
  "options_router options = (case soBaseRouter options of None \<Rightarrow> [] | Some m \<Rightarrow> m)"

definition options_wrapper :: "'o \<Rightarrow> 'w server_options \<Rightarrow> ('w, 'o) server_wrapper" where
  "options_wrapper si options =
     \<lparr>swHandler = si, swMiddlewares = soMiddlewares options,
      swErrorHandler = (case soErrorHandler options of None \<Rightarrow> (\<lambda>r err. http_error err 400) | Some f \<Rightarrow> f)\<rparr>"

definition core_HandlerWithOptions :: "'w core_operations \<Rightarrow> 'w server_options \<Rightarrow> 'w route list option" where
  "core_HandlerWithOptions si options =
     (let m = options_router options; wrapper = options_wrapper si options; base = soBaseURL options
      in Option.bind (HandleFunc (Some ''POST'') (base @ ''/events'') (wrapper_SubmitEvent wrapper) m) (\<lambda>m.
         Option.bind (HandleFunc (Some ''GET'') (base @ ''/healthz'') (wrapper_Healthz wrapper) m) (\<lambda>m.
         Option.bind (HandleFunc (Some ''GET'') (base @ ''/readyz'') (wrapper_Readyz wrapper) m) (\<lambda>m.
         HandleFunc (Some ''POST'') (base @ ''/v1/backends/register'') (wrapper_RegisterBackend wrapper) m))))"

definition backend_HandlerWithOptions :: "'w backend_operations \<Rightarrow> 'w server_options \<Rightarrow> 'w route list option" where
  "backend_HandlerWithOptions si options =
     (let m = options_router options; wrapper = options_wrapper si options; base = soBaseURL options
      in Option.bind (HandleFunc (Some ''POST'') (base @ ''/notify'') (wrapper_Notify wrapper) m) (\<lambda>m.
         HandleFunc (Some ''POST'') (base @ ''/thread-reply'') (wrapper_ThreadReply wrapper) m))"

definition core_Handler :: "'w core_operations \<Rightarrow> 'w route list option" where
  "core_Handler si = core_HandlerWithOptions si zero_options"

definition core_HandlerFromMux :: "'w core_operations \<Rightarrow> 'w route list \<Rightarrow> 'w route list option" where
  "core_HandlerFromMux si m = core_HandlerWithOptions si (zero_options\<lparr>soBaseRouter := Some m\<rparr>)"

definition core_HandlerFromMuxWithBaseURL :: "'w core_operations \<Rightarrow> 'w route list \<Rightarrow> string \<Rightarrow> 'w route list option" where
  "core_HandlerFromMuxWithBaseURL si m baseURL =
     core_HandlerWithOptions si (zero_options\<lparr>soBaseURL := baseURL, soBaseRouter := Some m\<rparr>)"

definition backend_Handler :: "'w backend_operations \<Rightarrow> 'w route list option" where
  "backend_Handler si = backend_HandlerWithOptions si zero_options"

definition backend_HandlerFromMux :: "'w backend_operations \<Rightarrow> 'w route list \<Rightarrow> 'w route list option" where
  "backend_HandlerFromMux si m = backend_HandlerWithOptions si (zero_options\<lparr>soBaseRouter := Some m\<rparr>)"

definition backend_HandlerFromMuxWithBaseURL :: "'w backend_operations \<Rightarrow> 'w route list \<Rightarrow> string \<Rightarrow> 'w route list option" where
  "backend_HandlerFromMuxWithBaseURL si m baseURL =
     backend_HandlerWithOptions si (zero_options\<lparr>soBaseURL := baseURL, soBaseRouter := Some m\<rparr>)"

section \<open>The operations of the two programs\<close>

text \<open>\<open>server\<close> of the core, and \<open>slackbackend.Handler\<close> as a server of its contract.\<close>

definition main_operations :: "(http_request \<Rightarrow> 'w \<Rightarrow> http_response \<times> 'w) \<Rightarrow> (http_request \<Rightarrow> 'w \<Rightarrow> http_response \<times> 'w) \<Rightarrow>
    'w core_operations" where
  "main_operations events registerBackend =
     \<lparr>coSubmitEvent = (\<lambda>r w. apfst Some (events r w)), coHealthz = HealthzHandler, coReadyz = ReadyzHandler None,
      coRegisterBackend = (\<lambda>r w. apfst Some (registerBackend r w))\<rparr>"

definition slack_operations :: "(string \<Rightarrow> string) \<Rightarrow> ('w, 'e) backend_handler \<Rightarrow> 'w backend_operations" where
  "slack_operations decode_error h =
     \<lparr>boNotifyOp = (\<lambda>r w. apfst Some (Handler_Notify decode_error h (rqBody r) w)),
      boThreadReplyOp = (\<lambda>r w. apfst Some (Handler_ThreadReply decode_error h (rqBody r) w))\<rparr>"

section \<open>The routes\<close>

lemma with_middlewares_last: "with_middlewares (mws @ [m]) h = m (with_middlewares mws h)"
  by (simp add: with_middlewares_def)

definition patterns :: "'w route list \<Rightarrow> (string option \<times> string) set" where
  "patterns routes = set (map (\<lambda>(m, path, h). (m, path)) routes)"

lemma HandleFunc_eq:
  "HandleFunc m path h routes = (if (m, path) \<in> patterns routes then None else Some (routes @ [(m, path, h)]))"
  by (simp add: HandleFunc_def patterns_def)

lemma patterns_simps [simp]:
  "patterns [] = {}" "patterns ((m, path, h) # routes) = insert (m, path) (patterns routes)"
  "patterns (routes @ routes') = patterns routes \<union> patterns routes'"
  by (auto simp: patterns_def)

text \<open>A registration succeeds when none of its patterns is taken.\<close>

lemma core_HandlerWithOptions_eq:
  fixes si :: "'w core_operations" and options :: "'w server_options"
  defines "routes \<equiv> core_routes (soBaseURL options) (with_middlewares (soMiddlewares options) (coSubmitEvent si))
      (with_middlewares (soMiddlewares options) (coHealthz si)) (with_middlewares (soMiddlewares options) (coReadyz si))
      (with_middlewares (soMiddlewares options) (coRegisterBackend si))"
  shows "core_HandlerWithOptions si options =
    (if patterns (options_router options) \<inter> patterns routes = {} then Some (options_router options @ routes) else None)"
  unfolding routes_def
  by (auto simp: core_HandlerWithOptions_def core_routes_def HandleFunc_eq Let_def options_wrapper_def
      wrapper_SubmitEvent_def wrapper_Healthz_def wrapper_Readyz_def wrapper_RegisterBackend_def)

lemma backend_HandlerWithOptions_eq:
  fixes si :: "'w backend_operations" and options :: "'w server_options"
  defines "routes \<equiv> [(Some ''POST'', soBaseURL options @ ''/notify'', with_middlewares (soMiddlewares options) (boNotifyOp si)),
      (Some ''POST'', soBaseURL options @ ''/thread-reply'', with_middlewares (soMiddlewares options) (boThreadReplyOp si))]"
  shows "backend_HandlerWithOptions si options =
    (if patterns (options_router options) \<inter> patterns routes = {} then Some (options_router options @ routes) else None)"
  unfolding routes_def
  by (auto simp: backend_HandlerWithOptions_def HandleFunc_eq Let_def options_wrapper_def
      wrapper_Notify_def wrapper_ThreadReply_def)

text \<open>
  Registering the operations of the core and of the Slack backend with the generated
  routers, the latter on top of the probes, succeeds without a clash of patterns, and serves
  exactly like the servers of the other theorems.
\<close>

lemma servers_are_generated:
  "map_option (\<lambda>routes. Middleware (serve_mux routes))
     (core_Handler (main_operations (with_leader cfg get parse forward (local_events decode_error))
        (with_leader cfg get parse forward (local_register decode_error)))) =
     Some (core_server decode_error cfg get parse forward) \<and>
   map_option (\<lambda>routes. Middleware (serve_mux routes))
     (backend_HandlerFromMux (slack_operations decode_error h)
        [(None, ''/healthz'', HealthzHandler), (None, ''/readyz'', ReadyzHandler (Some ready))]) =
     Some (backend_server decode_error h ready)"
  by (simp add: core_Handler_def backend_HandlerFromMux_def core_HandlerWithOptions_eq backend_HandlerWithOptions_eq
      options_router_def zero_options_def main_operations_def slack_operations_def core_server_def backend_server_def
      backendapi_routes_def with_middlewares_def Let_def)

end
