(* ===== verification/Startup.thy ===== *)
theory Startup
  imports Lifecycle SlackBackend ApiServer
begin

text \<open>
  The functions \<open>main\<close> of both programs: what they build from the configuration, where they exit
  or panic instead, and which servers they leave running. The clients of Kubernetes, the listening
  sockets and the handlers of \<open>net/http/pprof\<close> are parameters.
\<close>

datatype 's outcome = Exits int | Panics | Runs 's

section \<open>Leader election\<close>

record leader_config =
  lcNamespace :: string
  lcLeaseName :: string
  lcIdentity :: string
  lcLeaseDuration :: int
  lcRenewDeadline :: int
  lcRetryPeriod :: int

record lease_lock =
  llName :: string
  llNamespace :: string
  llIdentity :: string

record election_config =
  ecfLock :: lease_lock
  ecfReleaseOnCancel :: bool
  ecfLeaseDuration :: int
  ecfRenewDeadline :: int
  ecfRetryPeriod :: int
  ecfOnCallback :: "callback \<Rightarrow> elector \<Rightarrow> elector"

text \<open>client-go: the configuration of the cluster, a client for it, and an election.\<close>

record ('r, 'c, 'e, 'le) kube =
  kuInClusterConfig :: "'e + 'r"
  kuNewForConfig :: "'r \<Rightarrow> 'e + 'c"
  kuNewLeaderElector :: "'c \<Rightarrow> election_config \<Rightarrow> 'e + 'le"

definition leader_New :: "('r, 'c, 'e, 'le) kube \<Rightarrow> 'c \<Rightarrow> leader_config \<Rightarrow> 'e + 'le \<times> elector" where
  "leader_New kube client cfg =
     (let lock = \<lparr>llName = lcLeaseName cfg, llNamespace = lcNamespace cfg, llIdentity = lcIdentity cfg\<rparr>
      in case kuNewLeaderElector kube client \<lparr>ecfLock = lock, ecfReleaseOnCancel = True, ecfLeaseDuration = lcLeaseDuration cfg,
           ecfRenewDeadline = lcRenewDeadline cfg, ecfRetryPeriod = lcRetryPeriod cfg, ecfOnCallback = on_callback\<rparr> of
           Inl err \<Rightarrow> Inl err
         | Inr le \<Rightarrow> Inr (le, new_elector))"

text \<open>\<open>startLeaderElection\<close>; \<open>None\<close> stands for \<open>os.Exit(1)\<close>.\<close>

definition startLeaderElection :: "('r, 'c, 'e, 'le) kube \<Rightarrow> config \<Rightarrow> ('le \<times> elector \<times> pod_resolver) option" where
  "startLeaderElection kube cfg =
     (case kuInClusterConfig kube of
        Inl err \<Rightarrow> None
      | Inr restCfg \<Rightarrow>
          (case kuNewForConfig kube restCfg of
             Inl err \<Rightarrow> None
           | Inr client \<Rightarrow>
               (case leader_New kube client \<lparr>lcNamespace = cfLeaderElectionNamespace cfg, lcLeaseName = cfLeaseName cfg,
                       lcIdentity = cfPodName cfg, lcLeaseDuration = cfLeaseDuration cfg,
                       lcRenewDeadline = cfRenewDeadline cfg, lcRetryPeriod = cfRetryPeriod cfg\<rparr> of
                  Inl err \<Rightarrow> None
                | Inr (le, elector) \<Rightarrow> Some (le, elector, NewPodAddressResolver))))"

section \<open>The profiling server\<close>

datatype pprof_handler = PprofIndex | PprofCmdline | PprofProfile | PprofSymbol | PprofTrace

text \<open>
  A multiplexer as \<open>startPprof\<close> uses it: a pattern that ends in a slash matches every path below it,
  another one matches itself, and the longest pattern wins.
\<close>

definition pattern_matches :: "string \<Rightarrow> string \<Rightarrow> bool" where
  "pattern_matches pattern path \<longleftrightarrow> pattern = path \<or> (has_suffix pattern ''/'' \<and> take (length pattern) path = pattern)"

fun mux_lookup :: "(string \<times> 'h) list \<Rightarrow> string \<Rightarrow> (string \<times> 'h) option" where
  "mux_lookup [] path = None"
| "mux_lookup ((pattern, h) # ps) path =
     (case mux_lookup ps path of
        None \<Rightarrow> if pattern_matches pattern path then Some (pattern, h) else None
      | Some (best, h') \<Rightarrow>
          if pattern_matches pattern path \<and> length best < length pattern then Some (pattern, h) else Some (best, h'))"

record 'h http_server =
  hsAddr :: string
  hsHandler :: 'h
  hsReadHeaderTimeout :: int

definition startPprof :: "string \<Rightarrow> (string \<times> pprof_handler) list http_server" where
  "startPprof addr = \<lparr>hsAddr = addr,
     hsHandler = [(''/debug/pprof/'', PprofIndex), (''/debug/pprof/cmdline'', PprofCmdline), (''/debug/pprof/profile'', PprofProfile),
       (''/debug/pprof/symbol'', PprofSymbol), (''/debug/pprof/trace'', PprofTrace)],
     hsReadHeaderTimeout = 5 * second\<rparr>"

section \<open>The core\<close>

record ('w, 'e, 'le) core_running =
  crConfig :: config
  crLogger :: log_handler
  crElection :: "'le option"
  crServer :: "'w core_app handler_func http_server"
  crPprof :: "(string \<times> pprof_handler) list http_server option"
  crProcess :: "('w, 'e) process"

text \<open>
  The workers are started before the election is set up; a server that cannot listen is logged, and
  the process goes on without it.
\<close>

definition core_main :: "('l + config) \<Rightarrow> ('r, 'c, 'k, 'le) kube \<Rightarrow> ('w, 'e) externals \<Rightarrow> (string \<Rightarrow> bool) \<Rightarrow> int \<Rightarrow> 'w \<Rightarrow>
    ('w, 'e, 'le) core_running outcome" where
  "core_main loaded kube x listens now w =
     (case loaded of
        Inl err \<Rightarrow> Exits 1
      | Inr cfg \<Rightarrow>
          let logger = newHandler (cfLogLevel cfg) (cfLogFormat cfg);
              backendRegistry = NewRegistry (cfBackendRegistryTTL cfg);
              publisher = newSessionPublisher;
              engine = init_sys now
          in case main_pool cfg of
               None \<Rightarrow> Panics
             | Some pool \<Rightarrow>
                 case (if cfLeaderElectionEnabled cfg
                       then map_option (\<lambda>(le, elector, podAddrs). (Some le, elector, podAddrs)) (startLeaderElection kube cfg)
                       else Some (None, new_elector, NewPodAddressResolver)) of
                   None \<Rightarrow> Exits 1
                 | Some (election, elector, podAddrs) \<Rightarrow>
                     let app = \<lparr>caPool = pool, caRegistry = backendRegistry, caElector = elector, caResolver = podAddrs,
                               caNow = now, caWorld = w\<rparr>;
                         srv = \<lparr>hsAddr = cfListenAddr cfg, hsHandler = main_server cfg x, hsReadHeaderTimeout = 5 * second\<rparr>;
                         pprofSrv = (if cfPprofEnabled cfg then Some (startPprof (cfPprofAddr cfg)) else None)
                     in Runs \<lparr>crConfig = cfg, crLogger = logger, crElection = election, crServer = srv, crPprof = pprofSrv,
                          crProcess = \<lparr>psApp = app, psEngine = engine, psStore = publisher, psJobs = [],
                            psServing = listens (hsAddr srv), psExited = False, psAccepted = [], psUpserted = [], psCalls = []\<rparr>\<rparr>)"

section \<open>The Slack backend\<close>

definition supportsThreadReply :: bool where
  "supportsThreadReply = True"

record ('w, 'e, 'r, 'h) slack_running =
  srLogger :: log_handler
  srClient :: "('w, 'e, 'r) slack_client"
  srWatcher :: "(string \<times> bool \<times> int) option"
  srCoreClient :: "('h, 'e) core_client"
  srRegistrar :: registrar
  srRegisterInterval :: int
  srServer :: "('w \<times> registrar) handler_func http_server"
  srServing :: bool

text \<open>A handler of the backend, next to the registrar that its readiness asks.\<close>

definition beside_registrar :: "('w, 'e) backend_handler \<Rightarrow> ('w \<times> registrar, 'e) backend_handler" where
  "beside_registrar h = \<lparr>
     hdPost = (\<lambda>(w, r) recipient n. (case hdPost h w recipient n of (res, w) \<Rightarrow> (res, (w, r)))),
     hdUpdate = map_option (\<lambda>update (w, r) recipient ref n. (case update w recipient ref n of (res, w) \<Rightarrow> (res, (w, r)))) (hdUpdate h),
     hdThreadReply = map_option (\<lambda>reply (w, r) recipient ref msg. (case reply w recipient ref msg of (res, w) \<Rightarrow> (res, (w, r)))) (hdThreadReply h)\<rparr>"

text \<open>
  The watcher is given by its path, its fallback and its interval; \<open>watching\<close> is its state in a
  world. \<open>http\<close> is \<open>http.DefaultClient\<close>, \<open>standard\<close> the client a missing one is replaced by.
\<close>

definition slack_main :: "('l + backend_config) \<Rightarrow> (string \<Rightarrow> string) \<Rightarrow> (string \<Rightarrow> string \<Rightarrow> string option) \<Rightarrow>
    ('h, 'x) doer \<Rightarrow> ('h, 'x) doer \<Rightarrow> ('w \<Rightarrow> 'e watcher) \<Rightarrow> (string \<Rightarrow> bool) \<Rightarrow>
    ('w \<Rightarrow> http_request \<Rightarrow> ('x + http_response) \<times> 'w) \<Rightarrow> (64 word \<Rightarrow> 'w \<Rightarrow> bool \<times> 'w) \<Rightarrow>
    (string \<Rightarrow> bool) \<Rightarrow> ('w, 'x, 'e template_error, 'h) slack_running outcome" where
  "slack_main loaded decode_error resolve standard http watching buildable do wait listens =
     (case loaded of
        Inl err \<Rightarrow> Exits 1
      | Inr cfg \<Rightarrow>
          let logger = newHandler (bcLogLevel cfg) (bcLogFormat cfg);
              watcher = (if bcMessageTemplatePath cfg \<noteq> []
                         then Some (bcMessageTemplatePath cfg, bcMessageTemplateFallbackToDefault cfg, bcMessageTemplateReloadInterval cfg)
                         else None);
              slackClient = main_slack_client cfg watching buildable do wait;
              handler = slack_handler slackClient
          in case core_NewClientWithResponses resolve standard (bcCoreURL cfg) [WithHTTPClient http] of
               Inl err \<Rightarrow> Exits 1
             | Inr client \<Rightarrow>
                 let registrar = NewRegistrar (bcCoreURL cfg) (bcBackendName cfg) (bcPublicBaseURL cfg) supportsThreadReply;
                     srv = \<lparr>hsAddr = bcListenAddr cfg,
                            hsHandler = backend_server decode_error (beside_registrar handler) (\<lambda>(w, r). HasRegistered r),
                            hsReadHeaderTimeout = 5 * second\<rparr>
                 in Runs \<lparr>srLogger = logger, srClient = slackClient, srWatcher = watcher, srCoreClient = client,
                      srRegistrar = registrar, srRegisterInterval = bcRegisterInterval cfg, srServer = srv,
                      srServing = listens (hsAddr srv)\<rparr>)"

section \<open>What runs after the start\<close>

lemma main_pool_start: "0 \<le> cfIngestQueueSize cfg \<Longrightarrow> main_pool cfg = Some (start_pool (cfIngestQueueSize cfg) (cfWorkerCount cfg))"
  by (simp add: main_pool_def start_pool_handler)

lemma main_pool_panics: "main_pool cfg = None \<longleftrightarrow> cfIngestQueueSize cfg < 0"
  by (simp add: main_pool_def receiver_NewHandler_def)

lemma started_elector: "startLeaderElection kube cfg = Some (le, elector, podAddrs) \<Longrightarrow> elector = new_elector \<and> podAddrs = NewPodAddressResolver"
  by (auto simp: startLeaderElection_def leader_New_def Let_def split: sum.splits)

lemma start_serves [simp]: "psServing (start_process cfg now w)"
  by (simp add: start_process_def)

lemma start_serving [simp]: "(start_process cfg now w)\<lparr>psServing := True\<rparr> = start_process cfg now w"
  by (simp add: start_process_def)

text \<open>The outcome of \<open>main\<close>, as a decision of the configuration and the cluster.\<close>

lemma core_main_cases:
  "core_main loaded kube x listens now w =
    (case loaded of
       Inl err \<Rightarrow> Exits 1
     | Inr cfg \<Rightarrow>
         if cfIngestQueueSize cfg < 0 then Panics
         else if cfLeaderElectionEnabled cfg \<and> startLeaderElection kube cfg = None then Exits 1
         else Runs \<lparr>crConfig = cfg, crLogger = newHandler (cfLogLevel cfg) (cfLogFormat cfg),
           crElection = (if cfLeaderElectionEnabled cfg then map_option fst (startLeaderElection kube cfg) else None),
           crServer = \<lparr>hsAddr = cfListenAddr cfg, hsHandler = main_server cfg x, hsReadHeaderTimeout = 5 * second\<rparr>,
           crPprof = (if cfPprofEnabled cfg then Some (startPprof (cfPprofAddr cfg)) else None),
           crProcess = (start_process cfg now w)\<lparr>psServing := listens (cfListenAddr cfg)\<rparr>\<rparr>)"
proof (cases loaded)
  case (Inl err)
  then show ?thesis by (simp add: core_main_def)
next
  case (Inr cfg)
  show ?thesis
  proof (cases "cfIngestQueueSize cfg < 0")
    case True
    then show ?thesis using main_pool_panics [of cfg] Inr by (simp add: core_main_def)
  next
    case False
    then have pool: "main_pool cfg = Some (start_pool (cfIngestQueueSize cfg) (cfWorkerCount cfg))" by (simp add: main_pool_start)
    show ?thesis
    proof (cases "startLeaderElection kube cfg")
      case None
      with False Inr pool show ?thesis
        by (simp add: core_main_def start_process_def start_app_def Let_def)
    next
      case (Some el)
      obtain le elector podAddrs where "el = (le, elector, podAddrs)" by (cases el)
      with Some started_elector [of kube cfg le elector podAddrs] False Inr pool show ?thesis
        by (simp add: core_main_def start_process_def start_app_def Let_def)
    qed
  qed
qed

text \<open>
  C39: The main of the core panics exactly when its configuration loads with a negative queue
  size, which Validate accepts; it exits, always with status 1, exactly when the configuration
  does not load or, with a queue size that is not negative, leader election is enabled and
  cannot be set up; and it goes on running exactly in all other cases. What runs then is the
  process of the other theorems in its initial state, behind the server they are about, serving
  if the address can be listened on. A configuration that loads has been validated.
\<close>

theorem core_main_outcome:
  "let loaded = config_load envconf hostname; main = core_main loaded kube x listens now w in
    (main = Panics \<longleftrightarrow> (\<exists>cfg. loaded = Inr cfg \<and> cfIngestQueueSize cfg < 0)) \<and>
    (\<forall>code. main = Exits code \<longleftrightarrow> code = 1 \<and> ((\<exists>err. loaded = Inl err) \<or>
       (\<exists>cfg. loaded = Inr cfg \<and> 0 \<le> cfIngestQueueSize cfg \<and> cfLeaderElectionEnabled cfg \<and> startLeaderElection kube cfg = None))) \<and>
    ((\<exists>st. main = Runs st) \<longleftrightarrow> (\<exists>cfg. loaded = Inr cfg \<and> 0 \<le> cfIngestQueueSize cfg \<and>
       (cfLeaderElectionEnabled cfg \<longrightarrow> startLeaderElection kube cfg \<noteq> None))) \<and>
    (\<forall>st. main = Runs st \<longrightarrow> loaded = Inr (crConfig st) \<and> hsHandler (crServer st) = main_server (crConfig st) x \<and>
       crProcess st = (start_process (crConfig st) now w)\<lparr>psServing := listens (cfListenAddr (crConfig st))\<rparr> \<and>
       (psServing (crProcess st) \<longrightarrow> process_reachable (crConfig st) x (crProcess st))) \<and>
    (\<forall>cfg. loaded = Inr cfg \<longrightarrow> config_validate cfg = [])"
proof (cases "config_load envconf hostname")
  case (Inl err)
  then show ?thesis by (auto simp: core_main_cases)
next
  case (Inr cfg)
  then have valid: "config_validate cfg = []" by (auto simp: config_load_def Let_def split: sum.splits if_splits)
  have "process_reachable cfg x (start_process cfg now w)"
    unfolding process_reachable_def by (blast intro: process_run.run_start)
  with Inr valid show ?thesis by (auto simp: Let_def core_main_cases split: if_splits)
qed

section \<open>The profiling server is apart\<close>

lemma pprof_paths:
  assumes "mux_lookup (hsHandler (startPprof addr)) path = Some (pattern, h)"
  shows "take 13 path = ''/debug/pprof/''"
proof -
  have "\<exists>pattern. pattern \<in> fst ` set (hsHandler (startPprof addr)) \<and> pattern_matches pattern path"
    using assms
  proof -
    have "\<exists>p \<in> fst ` set ps. pattern_matches p path" if "mux_lookup ps path = Some ph" for ps :: "(string \<times> pprof_handler) list" and ph
      using that by (induction ps path arbitrary: ph rule: mux_lookup.induct) (auto split: option.splits if_splits)
    with assms show ?thesis by blast
  qed
  then obtain p where p: "p \<in> fst ` set (hsHandler (startPprof addr))" "take (length p) path = p"
    unfolding pattern_matches_def by (metis order_refl take_all)
  have "list_all (\<lambda>p. 13 \<le> length p \<and> take 13 p = ''/debug/pprof/'') (map fst (hsHandler (startPprof [])))"
    by code_simp
  with p(1) have "13 \<le> length p" "take 13 p = ''/debug/pprof/''" by (auto simp: list_all_iff startPprof_def)
  with p(2) show ?thesis by (metis min.absorb1 take_take)
qed

text \<open>
  The profiling handlers are reachable at their own address only: a validated
  configuration gives them another address than the main server, and every request for a path
  they serve is answered with 404 by the main server, whatever its method, without any effect.
\<close>

lemma pprof_is_apart:
  assumes "core_main (config_load envconf hostname) kube x listens now w = Runs st" and "crPprof st = Some pprof"
    and "mux_lookup (hsHandler pprof) (rqURL req) \<noteq> None"
  shows "hsAddr pprof \<noteq> hsAddr (crServer st) \<and>
    hsHandler (crServer st) req a = (Some (http_error ''404 page not found'' 404), a)"
proof -
  obtain cfg where cfg: "config_load envconf hostname = Inr cfg"
    using assms(1) by (cases "config_load envconf hostname") (auto simp: core_main_cases)
  have valid: "config_validate cfg = []" using cfg by (auto simp: config_load_def Let_def split: sum.splits if_splits)
  from assms(1,2) cfg have st: "hsAddr (crServer st) = cfListenAddr cfg" "hsHandler (crServer st) = main_server cfg x"
    "pprof = startPprof (cfPprofAddr cfg)" "cfPprofEnabled cfg"
    by (auto simp: core_main_cases split: if_splits)
  have "cfPprofAddr cfg \<noteq> cfListenAddr cfg" using valid st(4) by (simp add: config_validate_Nil config_rules_def)
  moreover obtain pattern h where "mux_lookup (hsHandler (startPprof (cfPprofAddr cfg))) (rqURL req) = Some (pattern, h)"
    using assms(3) st(3) by auto
  from pprof_paths [OF this] have "take 13 (rqURL req) = ''/debug/pprof/''" .
  then have "rqURL req \<notin> {''/events'', ''/v1/backends/register'', ''/healthz'', ''/readyz''}" by auto
  ultimately show ?thesis
    using core_server_probes [of "exDecodeError x" cfg "exGetPod x" "exParse x" "exForward x" req a] st
    by (simp add: main_server_def startPprof_def Let_def)
qed

section \<open>The Slack backend is ready when it has registered\<close>

text \<open>
  The endpoint the registrar was followed to is the server of the core, for a registration that is
  not forwarded.
\<close>

lemma core_endpoint_is_served:
  assumes "cfLeaderElectionEnabled cfg \<longrightarrow> IsLeader (caElector a)"
    and "rqMethod req = ''POST''" and "rqURL req = ''/v1/backends/register''"
  shows "core_server decode_error cfg get parse forward req a =
    (case core_endpoint decode_error req \<lparr>cwNow = caNow a, cwRegistry = caRegistry a\<rparr> of
       (rsp, w) \<Rightarrow> (rsp, a\<lparr>caRegistry := cwRegistry w\<rparr>))"
proof -
  have "\<not> (cfLeaderElectionEnabled cfg \<and> \<not> IsLeader (caElector a))" using assms(1) by simp
  from core_server_post [OF assms(2), of decode_error cfg get parse forward a, unfolded with_leader_local [OF this]] assms(2,3)
  show ?thesis
    by (simp add: core_endpoint_def serve_mux_def method_matches_def Middleware_def local_register_def split: prod.split)
qed


text \<open>The server of the backend is the one of the theories before.\<close>

lemma started_slack:
  assumes "slack_main loaded decode_error resolve standard http watching buildable do wait listens = Runs st"
  shows "hsHandler (srServer st) =
    backend_server decode_error (beside_registrar (slack_handler (srClient st))) (\<lambda>(w, r). HasRegistered r)"
  using assms by (auto simp: slack_main_def Let_def split: sum.splits)

text \<open>
  The Slack backend exits only where its configuration does not load: building the client of the
  core cannot fail. It registers under the configured name and address with support for thread
  replies, and its readiness probe answers 200 exactly when a registration has succeeded.
\<close>

lemma slack_main_outcome:
  "case slack_main loaded decode_error resolve standard http watching buildable do wait listens of
     Exits code \<Rightarrow> code = 1 \<and> (\<exists>err. loaded = Inl err)
   | Panics \<Rightarrow> False
   | Runs st \<Rightarrow> (\<exists>cfg. loaded = Inr cfg \<and> srRegistrar st = NewRegistrar (bcCoreURL cfg) (bcBackendName cfg) (bcPublicBaseURL cfg) True \<and>
       raServer (srRegistrar st) = client_server (bcCoreURL cfg) \<and>
       (srWatcher st = None \<longrightarrow> slRender (srClient st) = (\<lambda>w. DefaultRenderer_Render)) \<and>
       (\<forall>w r req. rqURL req = ''/readyz'' \<longrightarrow>
          hsHandler (srServer st) req (w, r) = (Some (write_status (if HasRegistered r then 200 else 503)), (w, r))))"
proof (cases loaded)
  case (Inl err)
  then show ?thesis by (simp add: slack_main_def)
next
  case (Inr cfg)
  have client: "core_NewClientWithResponses resolve standard (bcCoreURL cfg) [WithHTTPClient http] =
      Inr (core_client_of resolve \<lparr>acServer = client_server (bcCoreURL cfg), acDoer = Some http, acEditors = []\<rparr>)"
    by (simp add: core_NewClientWithResponses_def api_NewClient_http)
  show ?thesis
    by (simp add: slack_main_def Inr client Let_def supportsThreadReply_def NewRegistrar_def backend_server_def Middleware_def
        serve_mux_def method_matches_def ReadyzHandler_def main_slack_client_def NewClient_def)
qed

end
