(* ===== verification/Deployment.thy ===== *)
theory Deployment
  imports Startup
begin

text \<open>
  Both programs together: the core process with a Slack backend that \<open>cmd/slack-backend\<close> has
  started behind the address it registered. What a flush goroutine of the core asks for arrives
  at the Slack client, and what Slack answers comes back as the reference of the message.
\<close>

section \<open>The messages of a process can be sent\<close>

lemma message_builds:
  assumes "message_from A ec key rk m"
  shows "\<exists>n. Build m = Inr n"
proof -
  have "gwf m" "m \<noteq> []" using assms by (auto simp: message_from_def apps_from_def perapp_ok_def)
  moreover have "evGroupKey ev = skGroupKey key" if "(a, ev) \<in> set m" for a ev
    using assms map_of_is_SomeI [OF \<open>gwf m\<close> that]
    by (auto simp: message_from_def apps_from_def perapp_ok_def in_session_def session_key_of_def)
  ultimately show ?thesis using Build_eq [of m "skGroupKey key"] by blast
qed

text \<open>What the next message of a delivery loop holds, in a reachable process.\<close>

lemma next_message:
  assumes "process_reachable cfg x s" and "j \<in> set (psJobs s)" and "fjStage j = Delivering key ul ((rk, m) # gs) d"
  shows "\<exists>n. Build m = Inr n \<and> ((\<forall>ev \<in> set (psAccepted s). cuts_clean ev) \<longrightarrow> notification_utf8 n) \<and>
    utf8_valid (rkRecipient rk) \<and> utf8_valid (gget [] (ulRefs ul) rk)"
proof -
  let ?A = "set (batch_events (psUpserted s))" and ?ec = "main_engine_config cfg"
  have "stage_ok ?A ?ec (set (psCalls s)) (fjStage j)"
    using process_publish [OF assms(1)] assms(2) by (auto simp: publish_ok_def Let_def)
  then have m: "message_from ?A ?ec key rk m" and refs: "refs_from (set (psCalls s)) key (ulRefs ul)"
    by (simp_all add: assms(3))
  have m': "message_from (set (psAccepted s)) ?ec key rk m" by (rule message_from_mono [OF m upserted_accepted [OF assms(1)]])
  obtain n where n: "Build m = Inr n" using message_builds [OF m] by blast
  have typed: "\<forall>ev \<in> set (psAccepted s). event_ok ev" using process_types_ok [OF assms(1)] by (simp add: types_ok_def)
  have routed: "\<forall>ev \<in> snd ` set m. routed rk ev" "snd ` set m \<subseteq> set (psAccepted s)" "m \<noteq> []"
    using m' by (auto simp: message_from_def apps_from_def)
  then obtain ev where "ev \<in> snd ` set m" by (cases m) auto
  with routed typed have "routed rk ev" "event_ok ev" by auto
  from routed_utf8 [OF this] have rk: "utf8_valid (rkRecipient rk)" by simp
  have "utf8_valid []" by code_simp
  moreover have "utf8_valid r" if "map_of (ulRefs ul) rk = Some r" for r
    using that refs known_ref_utf8 [OF assms(1)] unfolding refs_from_def by blast
  ultimately have ref: "utf8_valid (gget [] (ulRefs ul) rk)" by (simp add: gget_def split: option.split)
  have "(\<forall>ev \<in> set (psAccepted s). cuts_clean ev) \<longrightarrow> notification_utf8 n" using message_utf8 [OF m' n typed] by blast
  with n rk ref show ?thesis by blast
qed

section \<open>A backend of the core's client\<close>

text \<open>The world of the core is the process with the outside; a backend sees the outside only.\<close>

definition outside_env :: "('w, 'e) externals \<Rightarrow> 'w core_app \<Rightarrow> ('w, 'e) remote_env" where
  "outside_env x a = \<lparr>reRegistry = (\<lambda>w. caRegistry a), reNow = (\<lambda>w. caNow a), reDo = exDo x, reResolveURL = exResolveURL x\<rparr>"

lemma main_notify:
  "remote_notify (main_env x) name a recipient ref n =
     (case remote_notify (outside_env x a) name (caWorld a) recipient ref n of (res, w) \<Rightarrow> (res, a\<lparr>caWorld := w\<rparr>))"
  by (simp add: remote_notify_def main_env_def outside_env_def exchange_def Let_def
      split: option.split prod.split sum.split bool.split)

text \<open>One round of the delivery loop where the backend is registered.\<close>

lemma deliver_registered:
  assumes "Build m = Inr n" and "Lookup (caNow a) (rkBackend rk) (caRegistry a) = Some be"
    and "remote_notify (outside_env x a) (rkBackend rk) (caWorld a) (rkRecipient rk) (gget [] refs rk) n = (res, w)"
    and "deliver_group (main_deps cfg x) refs (rk, m) (d\<lparr>dWorld := a\<rparr>) = d'"
  shows "new_calls d d' = [Notified rk (gget [] refs rk) n res] \<and> dWorld d' = a\<lparr>caWorld := w\<rparr>"
  using assms
  by (auto simp: deliver_group_def new_calls_def Resolve_def main_env_def main_notify [unfolded main_env_def] Let_def split: sum.splits)

section \<open>The Slack backend as its main starts it\<close>

text \<open>What the core sees of Slack's client: the new reference, or the answer 500 of the backend.\<close>

definition posted :: "('e + string) \<times> 'w \<Rightarrow> ('x remote_error + string) \<times> 'w" where
  "posted = (\<lambda>(out, w). (case out of
     Inr ref \<Rightarrow> Inr (clean_string ref)
   | Inl e \<Rightarrow> Inl (UnexpectedStatus 500 (''post failed'' @ [CHR 0x0A])), w))"

definition edited :: "string \<Rightarrow> 'e option \<times> 'w \<Rightarrow> ('x remote_error + string) \<times> 'w" where
  "edited ref = (\<lambda>(out, w). (case out of
     None \<Rightarrow> Inr ref
   | Some e \<Rightarrow> Inl (UnexpectedStatus 500 (''update failed'' @ [CHR 0x0A])), w))"

lemma notify_started_slack:
  assumes "slack_main loaded decode_error resolve standard http watching buildable do wait listens = Runs st"
    and "Lookup (caNow a) name (caRegistry a) = Some be"
    and "\<not> has_suffix (rbBaseURL be) ''/''" and "resolves_dot (exResolveURL x) (rbBaseURL be)"
    and "exDo x = network lost (hsHandler (srServer st)) (rbBaseURL be)"
    and "utf8_valid recipient" and "utf8_valid ref" and "within_limit recipient ref n" and "caWorld a = (w, r)"
  shows "remote_notify (outside_env x a) name (caWorld a) recipient ref n =
    (case (if ref = [] then posted (Post (srClient st) w recipient (clean_notification n))
           else edited ref (Update (srClient st) w recipient ref (clean_notification n))) of
       (res, w') \<Rightarrow> (res, (w', r)))"
proof -
  have "reDo (outside_env x a) = network lost (backend_server decode_error (beside_registrar (slack_handler (srClient st)))
      (\<lambda>(w, r). HasRegistered r)) (rbBaseURL be)"
    using assms(5) by (simp add: outside_env_def started_slack [OF assms(1)])
  from notify_over_network [OF _ assms(3) _ this assms(8)] assms(2,4) show ?thesis
    by (simp add: outside_env_def beside_registrar_def slack_handler_def assms(9) posted_def edited_def
        clean_string_valid [OF assms(6)] clean_string_valid [OF assms(7)] split: prod.split sum.split option.split)
qed

text \<open>
  C4: Both programs together: a Slack backend started by its main is the server behind the
  address the core has in its registry for the backend of a destination, which has no trailing
  slash and resolves in net/url. Then every round of the delivery loop of a reachable core
  process for that destination makes exactly one call, with the message Build makes of the
  apps, provided the request is within the 1 MiB of the body reader: a Post of the Slack client
  where the session has no reference yet, and an Update of that reference otherwise, with the
  texts of the message as JSON carries them (bytes that are no UTF-8 are replaced by U+FFFD,
  and nothing is replaced where Build cuts no text of an accepted event inside a character).
  The core gets the reference back, or an error for the answer 500.
\<close>

theorem deliveries_reach_slack:
  fixes x :: "('w \<times> registrar, 'e) externals"
  assumes "process_reachable cfg x s" and "j \<in> set (psJobs s)" and "fjStage j = Delivering key ul ((rk, m) # gs) d"
    and "job_step cfg x (psApp s, psStore s, j) ups cs (a', sp', j')"
    and "slack_main loaded decode_error resolve standard http watching buildable do wait listens = Runs st"
    and "Lookup (caNow (psApp s)) (rkBackend rk) (caRegistry (psApp s)) = Some be"
    and "\<not> has_suffix (rbBaseURL be) ''/''" and "resolves_dot (exResolveURL x) (rbBaseURL be)"
    and "exDo x = network lost (hsHandler (srServer st)) (rbBaseURL be)" and "caWorld (psApp s) = (w, r)"
  shows "\<exists>n. Build m = Inr n \<and> ((\<forall>ev \<in> set (psAccepted s). cuts_clean ev) \<longrightarrow> clean_notification n = n) \<and>
    (let ref = gget [] (ulRefs ul) rk in within_limit (rkRecipient rk) ref n \<longrightarrow>
      (\<exists>res w'. cs = [(key, Notified rk ref n res)] \<and> a' = (psApp s)\<lparr>caWorld := (w', r)\<rparr> \<and>
         (res, w') = (if ref = [] then posted (Post (srClient st) w (rkRecipient rk) (clean_notification n))
            else edited ref (Update (srClient st) w (rkRecipient rk) ref (clean_notification n)))))"
proof -
  let ?ref = "gget [] (ulRefs ul) rk"
  obtain n where n: "Build m = Inr n" "(\<forall>ev \<in> set (psAccepted s). cuts_clean ev) \<longrightarrow> notification_utf8 n"
    "utf8_valid (rkRecipient rk)" "utf8_valid ?ref"
    using next_message [OF assms(1-3)] by blast
  obtain d' where d': "deliver_group (main_deps cfg x) (ulRefs ul) (rk, m) (d\<lparr>dWorld := psApp s\<rparr>) = d'"
    "cs = map (Pair key) (new_calls d d')" "a' = dWorld d'"
    using assms(4) by cases (use assms(3) in auto)
  obtain res :: "'e remote_error + string" and w' where out:
    "(if ?ref = [] then posted (Post (srClient st) w (rkRecipient rk) (clean_notification n))
      else edited ?ref (Update (srClient st) w (rkRecipient rk) ?ref (clean_notification n))) = (res, w')" by (metis prod.collapse)
  have "cs = [(key, Notified rk ?ref n res)] \<and> a' = (psApp s)\<lparr>caWorld := (w', r)\<rparr>"
    if "within_limit (rkRecipient rk) ?ref n"
  proof -
    from notify_started_slack [OF assms(5-9) n(3,4) that assms(10)] out
    have "remote_notify (outside_env x (psApp s)) (rkBackend rk) (caWorld (psApp s)) (rkRecipient rk) ?ref n = (res, (w', r))"
      by simp
    from deliver_registered [OF n(1) assms(6) this d'(1)] d'(2,3) show ?thesis by simp
  qed
  with n(1,2) out show ?thesis by (intro exI [of _ n]) (auto simp: Let_def clean_notification_valid)
qed

end
