(* ===== verification/Notifier.thy ===== *)
theory Notifier
  imports Lifecycle
begin

text \<open>
  What the core promises, without its parts: a notifier that keeps accepted events until it has
  stored them, each of them once, and sends messages and thread replies about what it has stored.
  It has a clock of its own, by which the view of a session expires.
  The core process implements it by a forward simulation: whatever its interleavings, each of its
  steps is a run of the notifier, so what holds of the notifier holds of the process.
\<close>

section \<open>The abstract notifier\<close>

text \<open>
  How sessions are formed, how long one lasts after its last batch, when two events say the same,
  whether duplicates are answered with replies, and what those say.
\<close>

record notifier_spec =
  nsSessions :: engine_config
  nsTTL :: int
  nsSha256Hex :: "string \<Rightarrow> string"
  nsThreads :: bool
  nsNote :: "int \<Rightarrow> event \<Rightarrow> string"

text \<open>
  The batches stored so far, each with the view of its session afterwards, the event that stands
  for an app, and the time. The view of a session is the one of its last batch; once more than
  the TTL has passed since then, the session is over and its view is empty again.
\<close>

type_synonym stored = "(session_key \<times> event list \<times> (string \<rightharpoonup> event) \<times> int) list"

record 'e notifier =
  nfNow :: int
  nfPending :: "event multiset"
  nfStored :: stored
  nfCalls :: "(session_key \<times> 'e backend_call) list"

definition start_notifier :: "int \<Rightarrow> 'e notifier" where
  "start_notifier now = \<lparr>nfNow = now, nfPending = {#}, nfStored = [], nfCalls = []\<rparr>"

definition last_view :: "session_key \<Rightarrow> stored \<Rightarrow> ((string \<rightharpoonup> event) \<times> int) option" where
  "last_view key st = fold (\<lambda>(k, evs, v) cur. if k = key then Some v else cur) st None"

definition live_view :: "int \<Rightarrow> int \<Rightarrow> session_key \<Rightarrow> stored \<Rightarrow> (string \<rightharpoonup> event)" where
  "live_view ttl now key st = (case last_view key st of
     None \<Rightarrow> Map.empty
   | Some (v, t) \<Rightarrow> if time_sub now t > ttl then Map.empty else v)"

text \<open>
  What a batch makes of a view: the apps of the batch get an event of the batch or the one they
  had, with the content of the last event for them; the others stay.
\<close>

definition view_after :: "(string \<Rightarrow> string) \<Rightarrow> event list \<Rightarrow> (string \<rightharpoonup> event) \<Rightarrow> (string \<rightharpoonup> event) \<Rightarrow> bool" where
  "view_after sha evs old v \<longleftrightarrow> ran v \<subseteq> ran old \<union> set evs \<and>
     (\<forall>a. if app_events a evs = [] then v a = old a
          else \<exists>e. v a = Some e \<and> same_content sha e (last (app_events a evs)))"

definition routed_view :: "ref_key \<Rightarrow> (string \<rightharpoonup> event) \<Rightarrow> (string \<rightharpoonup> event)" where
  "routed_view rk v a = (case v a of Some ev \<Rightarrow> if routed rk ev then Some ev else None | None \<Rightarrow> None)"

text \<open>
  Time passes; an event is accepted; some pending events of one session are stored, on top of its
  view, which is empty exactly when the session is new or has expired; a message is sent with all
  apps of a view that are routed to a destination, as a new one or as an edit of one a backend has
  already answered for; a reply goes under such a message. Which of the two a message is, is left
  open here.
\<close>

inductive notifier_step :: "notifier_spec \<Rightarrow> 'e notifier \<Rightarrow> 'e notifier \<Rightarrow> bool" for spec where
  pass: "0 \<le> d \<Longrightarrow> notifier_step spec n (n\<lparr>nfNow := nfNow n + d\<rparr>)"
| accept: "event_ok ev \<Longrightarrow> notifier_step spec n (n\<lparr>nfPending := add_mset ev (nfPending n)\<rparr>)"
| store: "evs \<noteq> [] \<Longrightarrow> mset evs \<subseteq># nfPending n \<Longrightarrow> \<forall>ev \<in> set evs. in_session (nsSessions spec) key ev \<Longrightarrow>
     view_after (nsSha256Hex spec) evs (live_view (nsTTL spec) (nfNow n) key (nfStored n)) v \<Longrightarrow>
     notifier_step spec n (n\<lparr>nfPending := nfPending n - mset evs, nfStored := nfStored n @ [(key, evs, v, nfNow n)]\<rparr>)"
| send: "(key, evs, v, t) \<in> set (nfStored n) \<Longrightarrow> gwf m \<Longrightarrow> m \<noteq> [] \<Longrightarrow> map_of m = routed_view rk v \<Longrightarrow> Build m = Inr msg \<Longrightarrow>
     ref = [] \<or> ref_known (set (nfCalls n)) key rk ref \<Longrightarrow>
     notifier_step spec n (n\<lparr>nfCalls := nfCalls n @ [(key, Notified rk ref msg res)]\<rparr>)"
| reply: "nsThreads spec \<Longrightarrow> (key, evs, v) \<in> set (nfStored n) \<Longrightarrow> ev \<in> set evs \<Longrightarrow>
     routed rk ev \<Longrightarrow> ref_known (set (nfCalls n)) key rk ref \<Longrightarrow>
     notifier_step spec n (n\<lparr>nfCalls := nfCalls n @ [(key, Replied rk ref (nsNote spec now ev) res)]\<rparr>)"

inductive notifier_run :: "notifier_spec \<Rightarrow> 'e notifier \<Rightarrow> 'e notifier \<Rightarrow> bool" for spec n where
  stay: "notifier_run spec n n"
| go_on: "notifier_run spec n m \<Longrightarrow> notifier_step spec m m' \<Longrightarrow> notifier_run spec n m'"

lemma notifier_one: "notifier_step spec n m \<Longrightarrow> notifier_run spec n m"
  by (blast intro: notifier_run.intros)

lemma notifier_run_trans: "notifier_run spec m k \<Longrightarrow> notifier_run spec n m \<Longrightarrow> notifier_run spec n k"
  by (induction rule: notifier_run.induct) (auto intro: notifier_run.go_on)

lemma last_view_snoc [simp]: "last_view key (st @ [(k, evs, v)]) = (if k = key then Some v else last_view key st)"
  by (simp add: last_view_def)

lemma last_view_Nil [simp]: "last_view key [] = None"
  by (simp add: last_view_def)

section \<open>What holds of the notifier\<close>

text \<open>Events that stand for an app in a view were stored for the session of the view.\<close>

definition views_ok :: "engine_config \<Rightarrow> stored \<Rightarrow> bool" where
  "views_ok ec st \<longleftrightarrow> (\<forall>(key, evs, v, t) \<in> set st. (\<forall>ev \<in> set evs. in_session ec key ev) \<and>
     (\<forall>ev \<in> ran v. \<exists>evs' v'. (key, evs', v') \<in> set st \<and> ev \<in> set evs'))"

lemma last_view_stored: "last_view key st = Some v \<Longrightarrow> \<exists>evs. (key, evs, v) \<in> set st"
  by (induction st rule: rev_induct) (auto split: if_splits)

lemma live_view_stored: "live_view ttl now key st = Map.empty \<or> (\<exists>evs t. (key, evs, live_view ttl now key st, t) \<in> set st)"
  by (auto simp: live_view_def split: option.split dest: last_view_stored)

lemma views_ok_store:
  assumes "views_ok ec st" and "\<forall>ev \<in> set evs. in_session ec key ev"
    and "view_after sha evs (live_view ttl now key st) v"
  shows "views_ok ec (st @ [(key, evs, v, t)])"
proof -
  have "\<exists>evs' v'. (key, evs', v') \<in> set st \<and> ev \<in> set evs'" if "ev \<in> ran (live_view ttl now key st)" for ev
    using that assms(1) live_view_stored [of ttl now key st] unfolding views_ok_def by fastforce
  with assms(3) have "\<forall>ev \<in> ran v. \<exists>evs' v'. (key, evs', v') \<in> set (st @ [(key, evs, v, t)]) \<and> ev \<in> set evs'"
    unfolding view_after_def by fastforce
  with assms(1,2) show ?thesis unfolding views_ok_def by fastforce
qed

lemma notifier_views: "notifier_run spec n m \<Longrightarrow> views_ok (nsSessions spec) (nfStored n) \<Longrightarrow> views_ok (nsSessions spec) (nfStored m)"
proof (induction rule: notifier_run.induct)
  case (go_on m m')
  then have ok: "views_ok (nsSessions spec) (nfStored m)" by simp
  from go_on.hyps(2) show ?case by cases (use ok in \<open>simp_all add: views_ok_store\<close>)
qed simp

text \<open>
  A call is backed by those made before it if a reference it names was the answer to one of them,
  for the same destination of the same session.
\<close>

fun backed :: "(session_key \<times> 'e backend_call) set \<Rightarrow> session_key \<times> 'e backend_call \<Rightarrow> bool" where
  "backed C (key, Notified rk ref n res) \<longleftrightarrow> ref = [] \<or> ref_known C key rk ref"
| "backed C (key, Replied rk ref msg res) \<longleftrightarrow> ref_known C key rk ref"
| "backed C (key, c) \<longleftrightarrow> False"

definition causal :: "(session_key \<times> 'e backend_call) list \<Rightarrow> bool" where
  "causal cs \<longleftrightarrow> (\<forall>pre c post. cs = pre @ c # post \<longrightarrow> backed (set pre) c)"

lemma causal_Nil [simp]: "causal []"
  by (simp add: causal_def)



section \<open>The process is a notifier\<close>

definition process_spec :: "config \<Rightarrow> ('w, 'e) externals \<Rightarrow> notifier_spec" where
  "process_spec cfg x = \<lparr>nsSessions = main_engine_config cfg, nsTTL = cfSessionTTL cfg, nsSha256Hex = spSha256Hex (main_deps cfg x),
     nsThreads = (cfDuplicateAction cfg = DuplicateActionThread), nsNote = thread_note (main_deps cfg x)\<rparr>"

lemma process_spec_simps [simp]:
  "nsSessions (process_spec cfg x) = main_engine_config cfg"
  "nsTTL (process_spec cfg x) = cfSessionTTL cfg"
  "nsSha256Hex (process_spec cfg x) = spSha256Hex (main_deps cfg x)"
  "nsThreads (process_spec cfg x) \<longleftrightarrow> cfDuplicateAction cfg = DuplicateActionThread"
  "nsNote (process_spec cfg x) = thread_note (main_deps cfg x)"
  by (simp_all add: process_spec_def)

text \<open>
  When a process stands for a notifier. The clocks agree; pending is whatever has been accepted
  and not yet been handed to \<open>Upsert\<close>, wherever it is; there is a session for each key with a
  stored batch and no other, with the view and the time of its last batch; and the messages a
  delivery loop has still to send are those of a view.
\<close>

fun stage_views :: "stored \<Rightarrow> ('w, 'e) stage \<Rightarrow> bool" where
  "stage_views st (Delivering key ul gs d) \<longleftrightarrow>
     (\<forall>(rk, m) \<in> set gs. gwf m \<and> m \<noteq> [] \<and> (\<exists>evs v t. (key, evs, v, t) \<in> set st \<and> map_of m = routed_view rk v))"
| "stage_views st stage \<longleftrightarrow> True"

definition sessions_view :: "stored \<Rightarrow> session_publisher \<Rightarrow> bool" where
  "sessions_view st sp \<longleftrightarrow> (\<forall>key. map_option (\<lambda>s. (map_of (stPerApp s), stLastFlush s)) (map_of (spSessions sp) key) = last_view key st)"

definition implements :: "('w, 'e) process \<Rightarrow> 'e remote_error notifier \<Rightarrow> bool" where
  "implements s n \<longleftrightarrow> nfNow n = caNow (psApp s) \<and> nfPending n = mset (psAccepted s) - mset (batch_events (psUpserted s)) \<and>
     map (\<lambda>(key, evs, v). (key, evs)) (nfStored n) = psUpserted s \<and> nfCalls n = psCalls s \<and>
     sessions_view (nfStored n) (psStore s) \<and> (\<forall>j \<in> set (psJobs s). stage_views (nfStored n) (fjStage j))"

text \<open>No event is stored twice, nor stored and still in a flush goroutine.\<close>

lemma stored_once:
  assumes "process_reachable cfg x s"
  shows "mset (batch_events (psUpserted s)) + mset (in_jobs (psJobs s)) \<subseteq># mset (psAccepted s)"
proof (rule mset_subset_eqI)
  fix ev
  let ?of = "\<lambda>evs. count (mset (arrived_of (evGroupKey ev) (evTrigger ev) evs)) ev"
  have of: "?of evs = count (mset evs) ev" for evs by (simp add: arrived_of_def mset_filter)
  have "?of (batch_events (psUpserted s)) + ?of (in_jobs (psJobs s)) \<le> ?of (psAccepted s)"
    unfolding events_accounted [OF assms] by simp
  then show "count (mset (batch_events (psUpserted s)) + mset (in_jobs (psJobs s))) ev \<le> count (mset (psAccepted s)) ev"
    by (simp add: of)
qed

text \<open>The loop of the replies is entered in thread mode only.\<close>

definition reply_mode :: "config \<Rightarrow> ('w, 'e) stage \<Rightarrow> bool" where
  "reply_mode cfg st \<longleftrightarrow> (case st of Replying key ul evs d \<Rightarrow> evs \<noteq> [] \<longrightarrow> cfDuplicateAction cfg = DuplicateActionThread | _ \<Rightarrow> True)"

lemma job_step_mode: "job_step cfg x (a, sp, j) ups cs (a', sp', j') \<Longrightarrow> reply_mode cfg (fjStage j) \<Longrightarrow> reply_mode cfg (fjStage j')"
  by (erule job_stepE) (auto simp: reply_mode_def)

lemma mode_step:
  assumes "process_step cfg x s s'" and "\<forall>j \<in> set (psJobs s). reply_mode cfg (fjStage j)"
  shows "\<forall>j \<in> set (psJobs s'). reply_mode cfg (fjStage j)"
  using assms(1)
proof cases
  case (callback cb js)
  from callback(4) have "\<forall>j \<in> set js. fjStage j = Idle" by cases simp_all
  with assms(2) callback(1) show ?thesis by (auto simp: reply_mode_def)
next
  case (job pre j post ups cs a sp j')
  with assms(2) job_step_mode [OF job(4)] show ?thesis by auto
qed (use assms(2) in auto)

lemma process_mode: "process_reachable cfg x s \<Longrightarrow> \<forall>j \<in> set (psJobs s). reply_mode cfg (fjStage j)"
  by (induction rule: process_reachable_induct) (simp add: start_process_def, rule mode_step)

text \<open>The calls of a step of a job, against the history before it.\<close>

definition call_allowed :: "notifier_spec \<Rightarrow> stored \<Rightarrow> (session_key \<times> 'e backend_call) set \<Rightarrow> session_key \<times> 'e backend_call \<Rightarrow> bool" where
  "call_allowed spec st C kc \<longleftrightarrow> (case kc of
     (key, Notified rk ref msg res) \<Rightarrow> (ref = [] \<or> ref_known C key rk ref) \<and>
       (\<exists>m evs v t. (key, evs, v, t) \<in> set st \<and> gwf m \<and> m \<noteq> [] \<and> map_of m = routed_view rk v \<and> Build m = Inr msg)
   | (key, Replied rk ref msg res) \<Rightarrow> nsThreads spec \<and> ref_known C key rk ref \<and>
       (\<exists>evs v ev now. (key, evs, v) \<in> set st \<and> ev \<in> set evs \<and> routed rk ev \<and> msg = nsNote spec now ev)
   | _ \<Rightarrow> False)"

lemma call_allowed_mono: "call_allowed spec st C kc \<Longrightarrow> C \<subseteq> C' \<Longrightarrow> call_allowed spec st C' kc"
  by (auto simp: call_allowed_def intro: ref_known_mono split: prod.splits backend_call.splits)

lemma notifier_call:
  assumes "call_allowed spec (nfStored n) (set (nfCalls n)) (key, c)"
  shows "notifier_step spec n (n\<lparr>nfCalls := nfCalls n @ [(key, c)]\<rparr>)"
proof (cases c)
  case (Notified rk ref msg res)
  with assms show ?thesis by (fastforce simp: call_allowed_def intro: notifier_step.send)
next
  case (Replied rk ref msg res)
  with assms show ?thesis by (fastforce simp: call_allowed_def intro: notifier_step.reply)
qed (use assms in \<open>simp_all add: call_allowed_def\<close>)

lemma notifier_calls:
  "\<forall>kc \<in> set cs. call_allowed spec (nfStored n) (set (nfCalls n)) kc \<Longrightarrow> notifier_run spec n (n\<lparr>nfCalls := nfCalls n @ cs\<rparr>)"
proof (induction cs rule: rev_induct)
  case Nil
  show ?case by (simp add: notifier_run.stay)
next
  case (snoc kc cs)
  obtain key c where kc: "kc = (key, c)" by force
  let ?n = "n\<lparr>nfCalls := nfCalls n @ cs\<rparr>"
  have "call_allowed spec (nfStored ?n) (set (nfCalls ?n)) (key, c)"
    using snoc.prems kc by (auto intro: call_allowed_mono)
  from notifier_call [OF this] snoc kc show ?case by (auto intro: notifier_run.go_on)
qed

lemma send_allowed:
  assumes "deliver_group (main_deps cfg x) refs (rk, m) d = d'" and "refs_from C key refs" and "c \<in> set (new_calls d d')"
    and "gwf m \<and> m \<noteq> [] \<and> (\<exists>evs v t. (key, evs, v, t) \<in> set st \<and> map_of m = routed_view rk v)"
  shows "call_allowed spec st C (key, c)"
  using assms(1)
proof (cases rule: main_group_cases)
  case silent
  with assms(3) show ?thesis by (simp add: new_calls_def)
next
  case (sent n res)
  then have c: "c = Notified rk (gget [] refs rk) n res" using assms(3) by (simp add: new_calls_def)
  have "gget [] refs rk = [] \<or> ref_known C key rk (gget [] refs rk)"
    using assms(2) by (auto simp: gget_def refs_from_def split: option.split)
  with sent(1) assms(4) show ?thesis by (auto simp: c call_allowed_def)
qed

lemma reply_allowed:
  assumes "thread_reply (main_deps cfg x) now refs ev d = d'" and "refs_from C key refs"
    and "(key, evs, v) \<in> set st" and "ev \<in> set evs" and "cfDuplicateAction cfg = DuplicateActionThread"
    and "c \<in> set (new_calls d d')"
  shows "call_allowed (process_spec cfg x) st C (key, c)"
proof -
  from thread_reply_adds [of ev "[ev]" "main_deps cfg x" now refs d] assms(1)
  obtain cs where cs: "dCalls d' = dCalls d @ cs" "\<forall>c \<in> set cs. reply_ok (main_deps cfg x) now refs [ev] c"
    by (auto simp: only_adds_def)
  with assms(6) have "reply_ok (main_deps cfg x) now refs [ev] c" by (simp add: new_calls_def)
  with assms(2-5) show ?thesis by (cases c) (auto simp: reply_ok_def refs_from_def call_allowed_def, cases v, blast)
qed

text \<open>An event that has been stored and belongs to a session was stored for this session.\<close>

lemma stored_for_session:
  assumes "views_ok ec st" and "ev \<in> set (batch_events (map (\<lambda>(key, evs, v). (key, evs)) st))" and "in_session ec key ev"
  obtains evs v where "(key, evs, v) \<in> set st" "ev \<in> set evs"
proof -
  from assms(2) obtain key' evs v where mem: "(key', evs, v) \<in> set st" "ev \<in> set evs" by auto
  with assms(1) have "in_session ec key' ev" by (fastforce simp: views_ok_def)
  with assms(3) have "key' = key" by (simp add: in_session_def)
  with mem that show thesis by blast
qed

lemma job_step_allowed:
  assumes "job_step cfg x (a, sp, j) ups cs (a', sp', j')"
    and "stage_ok (set (batch_events (map (\<lambda>(key, evs, v). (key, evs)) st))) (main_engine_config cfg) C (fjStage j)"
    and "reply_mode cfg (fjStage j)" and "stage_views st (fjStage j)" and "views_ok (main_engine_config cfg) st"
  shows "\<forall>kc \<in> set cs. call_allowed (process_spec cfg x) st C kc"
  using assms(1)
proof cases
  case (upsert_send ul g d d' todo key gs)
  obtain rk m where g: "g = (rk, m)" by force
  have "refs_from C key (ulRefs ul)" "gwf m \<and> m \<noteq> [] \<and> (\<exists>evs v t. (key, evs, v, t) \<in> set st \<and> map_of m = routed_view rk v)"
    using assms(2,4) upsert_send(1) g by auto
  from send_allowed [OF upsert_send(7) [unfolded g] this(1) _ this(2)] upsert_send(3) show ?thesis by (auto simp: new_calls_def)
next
  case (upsert_reply ul ev d d' todo key evs)
  have reply: "refs_from C key (ulRefs ul)" "in_session (main_engine_config cfg) key ev" "cfDuplicateAction cfg = DuplicateActionThread"
    "ev \<in> set (batch_events (map (\<lambda>(key, evs, v). (key, evs)) st))"
    using assms(2,3) upsert_reply(1) by (auto simp: reply_mode_def)
  obtain evs' v where "(key, evs', v) \<in> set st" "ev \<in> set evs'" by (rule stored_for_session [OF assms(5) reply(4,2)])
  from reply_allowed [OF upsert_reply(7) reply(1) this reply(3)] upsert_reply(3) show ?thesis by (auto simp: new_calls_def)
qed simp_all

text \<open>The first locked section of \<open>Upsert\<close> makes the view of the batch, on the live view of the session.\<close>

lemma current_session_view:
  assumes "current_session deps now key sp = (cur, nxt)" and "sessions_view st sp"
  shows "map_of (stPerApp cur) = live_view (spSessionTTL deps) now key st"
proof -
  from assms(2) have last: "last_view key st = map_option (\<lambda>s. (map_of (stPerApp s), stLastFlush s)) (map_of (spSessions sp) key)"
    by (simp add: sessions_view_def)
  from assms(1) show ?thesis
    by (cases "map_of (spSessions sp) key") (auto simp: last current_session_def live_view_def Let_def split: if_splits)
qed

lemma upsert_begin_view:
  assumes "upsert_begin deps now key evs sp = (ul, sp')" and "publisher_ok ec sp" and "sessions_view st sp"
  shows "view_after (spSha256Hex deps) evs (live_view (spSessionTTL deps) now key st) (map_of (ulPerApp ul)) \<and>
    gwf (ulPerApp ul) \<and> sessions_view (st @ [(key, evs, map_of (ulPerApp ul), now)]) sp'"
proof -
  obtain cur nxt where cur: "current_session deps now key sp = (cur, nxt)" by force
  obtain m ds ch where m: "absorb (spSha256Hex deps) evs (stPerApp cur, [], False) = (m, ds, ch)" by (metis prod_cases3)
  have wf: "gwf (stPerApp cur)" using current_session_ok [OF assms(2) cur] by (simp add: perapp_ok_def)
  then have "gwf m" by (rule absorb_gwf [OF m])
  then have ul: "map_of (ulPerApp ul) = map_of m" "gwf (ulPerApp ul)"
    "spSessions sp' = gput key (cur\<lparr>stPerApp := m, stLastFlush := now\<rparr>) (spSessions sp)"
    using assms(1) cur m by (auto simp: upsert_begin_def Let_def gomap_simps)
  have "ran (map_of m) \<subseteq> ran (map_of (stPerApp cur)) \<union> set evs"
    using absorb_values [OF m wf] \<open>gwf m\<close> wf by (simp add: ran_distinct)
  then have "view_after (spSha256Hex deps) evs (map_of (stPerApp cur)) (map_of m)"
    using absorb_other [OF m] absorb_latest [OF m] by (simp add: view_after_def)
  moreover have "sessions_view (st @ [(key, evs, map_of m, now)]) sp'" using assms(3) by (auto simp: sessions_view_def ul(3))
  ultimately show ?thesis using ul(1,2) current_session_view [OF cur assms(3)] by simp
qed

lemma map_of_routed:
  assumes "gwf m"
  shows "map_of (apps_of rk m) = routed_view rk (map_of m)"
  unfolding apps_of_def using assms
  by (induction m) (auto simp: routed_view_def fun_eq_iff map_of_eq_None_iff split: option.split, force dest: map_of_SomeD)

lemma commit_view: "sessions_view st sp \<Longrightarrow> sessions_view st (upsert_commit key addr refs sp)"
  by (auto simp: sessions_view_def upsert_commit_def split: option.split) (metis option.simps(9))

text \<open>A step of a job, as steps of the notifier.\<close>

lemma job_step_stored:
  assumes "job_step cfg x (a, sp, j) ups cs (a', sp', j')" and "sessions_view st sp" and "stage_views st (fjStage j)"
    and "publisher_ok ec sp"
  shows "ups = [] \<and> sessions_view st sp' \<and> stage_views st (fjStage j') \<or>
    cs = [] \<and> (\<exists>key evs todo v. ups = [(key, evs)] \<and> evs \<noteq> [] \<and> fjTodo j = (key, evs) # todo \<and>
      view_after (spSha256Hex (main_deps cfg x)) evs (live_view (cfSessionTTL cfg) (caNow a) key st) v \<and>
      sessions_view (st @ [(key, evs, v, caNow a)]) sp' \<and> stage_views (st @ [(key, evs, v, caNow a)]) (fjStage j'))"
  using assms(1)
proof cases
  case (upsert_first evs key ul m gs todo)
  let ?v = "map_of (ulPerApp ul)"
  have begun: "view_after (spSha256Hex (main_deps cfg x)) evs (live_view (cfSessionTTL cfg) (caNow a) key st) ?v"
    "gwf (ulPerApp ul)" "sessions_view (st @ [(key, evs, ?v, caNow a)]) sp'"
    using upsert_begin_view [OF upsert_first(7) assms(4,2)] by (simp_all add: main_publisher_deps_def)
  have wf: "gwf m" and eq: "map_of m = ?v" using gwf_perm [OF upsert_first(8)] map_of_perm [OF upsert_first(8)] begun(2) by auto
  have "gwf apps \<and> apps \<noteq> [] \<and> map_of apps = routed_view rk ?v" if "(rk, apps) \<in> set gs" for rk apps
  proof -
    have "(rk, apps) \<in> set (groupAppsByBackendRecipient m)"
      using that mset_eq_setD [OF upsert_first(9)] by (auto split: if_splits)
    with mem_group_apps [OF wf] have "apps = apps_of rk m" "apps \<noteq> []" by auto
    with map_of_routed [OF wf, of rk] wf eq show ?thesis by (simp add: apps_of_def distinct_map_filter)
  qed
  then have "stage_views (st @ [(key, evs, ?v, caNow a)]) (fjStage j')" using upsert_first(5) by fastforce
  with begun upsert_first(1-4,6) show ?thesis by auto
next
  case (upsert_second key ul d todo)
  with assms(2) show ?thesis by (simp add: commit_view)
qed (use assms(2,3) in auto)

lemma stage_views_mono: "stage_views st stage \<Longrightarrow> stage_views (st @ st') stage"
  by (cases stage) fastforce+

lemma pending_room: "B + A \<subseteq># C \<Longrightarrow> A \<subseteq># C - (B :: 'a multiset)"
  by (metis mset_subset_eq_add_left subset_mset.add_le_cancel_left subset_mset.add_diff_inverse subset_mset.order_trans)

lemma notifier_job:
  assumes "process_reachable cfg x s" and "implements s n" and "views_ok (main_engine_config cfg) (nfStored n)"
    and "psJobs s = pre @ j # post" and "job_step cfg x (psApp s, psStore s, j) ups cs (a, sp, j')"
    and "s' = s\<lparr>psApp := a, psStore := sp, psJobs := pre @ j' # post, psUpserted := psUpserted s @ ups, psCalls := psCalls s @ cs\<rparr>"
  shows "\<exists>n'. notifier_run (process_spec cfg x) n n' \<and> implements s' n'"
proof -
  let ?spec = "process_spec cfg x" and ?ec = "main_engine_config cfg"
  have n: "map (\<lambda>(key, evs, v). (key, evs)) (nfStored n) = psUpserted s" "nfCalls n = psCalls s"
    "nfPending n = mset (psAccepted s) - mset (batch_events (psUpserted s))"
    "sessions_view (nfStored n) (psStore s)" "stage_views (nfStored n) (fjStage j)"
    "\<forall>j \<in> set (pre @ post). stage_views (nfStored n) (fjStage j)"
    using assms(2,4) by (auto simp: implements_def)
  have ok: "todo_ok ?ec (fjTodo j)" "stage_ok (set (batch_events (psUpserted s))) ?ec (set (psCalls s)) (fjStage j)"
    "publisher_ok ?ec (psStore s)"
    using process_publish [OF assms(1)] assms(4) by (auto simp: publish_ok_def store_ok_def Let_def)
  have now: "nfNow n = caNow (psApp s)" and same: "caNow a = caNow (psApp s)"
    using assms(2) world_onlyD [OF job_step_world [OF assms(5)]] by (simp_all add: implements_def)
  have mode: "reply_mode cfg (fjStage j)" using process_mode [OF assms(1)] assms(4) by simp
  from job_step_stored [OF assms(5) n(4,5) ok(3)]
  consider (calls) "ups = []" "sessions_view (nfStored n) sp" "stage_views (nfStored n) (fjStage j')"
    | (batch) key evs todo v where "cs = []" "ups = [(key, evs)]" "evs \<noteq> []" "fjTodo j = (key, evs) # todo"
        "view_after (spSha256Hex (main_deps cfg x)) evs (live_view (cfSessionTTL cfg) (nfNow n) key (nfStored n)) v"
        "sessions_view (nfStored n @ [(key, evs, v, nfNow n)]) sp" "stage_views (nfStored n @ [(key, evs, v, nfNow n)]) (fjStage j')"
    unfolding now by blast
  then show ?thesis
  proof cases
    case calls
    then have "implements s' (n\<lparr>nfCalls := nfCalls n @ cs\<rparr>)" using n now same by (auto simp: implements_def assms(6))
    moreover have "notifier_run ?spec n (n\<lparr>nfCalls := nfCalls n @ cs\<rparr>)"
      by (rule notifier_calls)
        (use job_step_allowed [OF assms(5) _ mode n(5) assms(3), where C = "set (psCalls s)"] ok(2) in \<open>simp add: n(1,2)\<close>)
    ultimately show ?thesis by blast
  next
    case (batch key evs todo v)
    let ?n = "n\<lparr>nfPending := nfPending n - mset evs, nfStored := nfStored n @ [(key, evs, v, nfNow n)]\<rparr>"
    have "mset (batch_events (psUpserted s)) + mset evs \<subseteq># mset (batch_events (psUpserted s)) + mset (in_jobs (psJobs s))"
      using assms(4) batch(4) by simp
    also note stored_once [OF assms(1)]
    finally have "mset evs \<subseteq># nfPending n" using pending_room by (simp only: n(3))
    moreover have "\<forall>ev \<in> set evs. in_session (nsSessions ?spec) key ev" using ok(1) batch(4) by (simp add: todo_ok_def)
    ultimately have "notifier_step ?spec n ?n" using batch(3,5) by (intro notifier_step.store) simp_all
    moreover have "implements s' ?n"
      using n now same batch(6,7) stage_views_mono by (auto simp: implements_def assms(6) batch(1,2))
    ultimately show ?thesis by (blast intro: notifier_one)
  qed
qed

lemma taken_one: "taken cfg req a rsp = [] \<or> (\<exists>ev. taken cfg req a rsp = [ev])"
  by (simp add: taken_def accepted_def split: option.split)

lemma notifier_request:
  assumes "process_reachable cfg x s" and "implements s n" and "main_server cfg x req (psApp s) = (Some rsp, a)"
    and "s' = s\<lparr>psApp := a, psAccepted := psAccepted s @ taken cfg req (psApp s) rsp\<rparr>"
  shows "\<exists>n'. notifier_run (process_spec cfg x) n n' \<and> implements s' n'"
  using taken_one [of cfg req "psApp s" rsp]
proof (elim disjE exE)
  assume "taken cfg req (psApp s) rsp = []"
  with assms(2,4) request_effect [OF assms(3)] have "implements s' n" by (simp add: implements_def)
  then show ?thesis by (blast intro: notifier_run.stay)
next
  fix ev assume ev: "taken cfg req (psApp s) rsp = [ev]"
  let ?n = "n\<lparr>nfPending := add_mset ev (nfPending n)\<rparr>"
  have "mset (batch_events (psUpserted s)) \<subseteq># mset (psAccepted s)"
    using stored_once [OF assms(1)] by (metis mset_subset_eq_add_left subset_mset.order_trans)
  then have "implements s' ?n"
    using assms(2) request_effect [OF assms(3)] by (simp add: implements_def assms(4) ev multiset_diff_union_assoc [of _ _ "{#ev#}", simplified])
  moreover have "event_ok ev" using taken_ok [OF assms(3)] ev by simp
  ultimately show ?thesis by (blast intro: notifier_one notifier_step.accept)
qed

text \<open>Time is the only thing the notifier sees of the intake.\<close>

lemma notifier_intake:
  assumes "intake_step cfg (psApp s, psEngine s) (a, e)" and "implements s n"
  shows "\<exists>n'. notifier_run spec n n' \<and> implements (s\<lparr>psApp := a, psEngine := e\<rparr>) n'"
  using assms(1)
proof cases
  case (pass d)
  with assms(2) have "implements (s\<lparr>psApp := a, psEngine := e\<rparr>) (n\<lparr>nfNow := nfNow n + d\<rparr>)" by (simp add: implements_def)
  with pass(3) show ?thesis by (blast intro: notifier_one notifier_step.pass)
qed (rule exI [of _ n]; use assms(2) in \<open>simp add: implements_def notifier_run.stay\<close>)+

text \<open>One step of the process; a callback adds jobs that have not begun, and the others change nothing.\<close>

lemma notifier_simulates:
  assumes "process_step cfg x s s'" and "process_reachable cfg x s" and "implements s n"
    and "views_ok (main_engine_config cfg) (nfStored n)"
  shows "\<exists>n'. notifier_run (process_spec cfg x) n n' \<and> implements s' n'"
proof -
  have stutter: ?thesis if "implements s' n" using that by (blast intro: notifier_run.stay)
  from assms(1) show ?thesis
  proof cases
    case (intake a e)
    with notifier_intake [OF intake(3) assms(3)] show ?thesis by simp
  next
    case (request req rsp a)
    with notifier_request [OF assms(2,3) request(4,1)] show ?thesis by simp
  next
    case (callback cb js)
    from callback(4) have "\<forall>j \<in> set js. fjStage j = Idle" by cases simp_all
    with assms(3) callback(1) show ?thesis by (intro stutter) (auto simp: implements_def)
  next
    case (job pre j post ups cs a sp j')
    from notifier_job [OF assms(2-4) job(3,4,1)] show ?thesis .
  next
    case (leave pre post)
    with assms(3) show ?thesis by (intro stutter) (simp add: implements_def)
  qed (rule stutter; use assms(3) in \<open>simp add: implements_def\<close>)+
qed

lemma notifier_follows:
  assumes "process_run cfg x s s'" and "process_reachable cfg x s" and "implements s n"
    and "views_ok (main_engine_config cfg) (nfStored n)"
  shows "\<exists>n'. notifier_run (process_spec cfg x) n n' \<and> implements s' n'"
  using assms(1)
proof induction
  case run_start
  show ?case using assms(3) by (blast intro: notifier_run.stay)
next
  case (run_more t t')
  then obtain m where m: "notifier_run (process_spec cfg x) n m" "implements t m" by blast
  have "views_ok (main_engine_config cfg) (nfStored m)" using notifier_views [OF m(1)] assms(4) by simp
  from notifier_simulates [OF run_more.hyps(2) process_reachable_run [OF assms(2) run_more.hyps(1)] m(2) this]
  show ?case using m(1) by (blast intro: notifier_run_trans)
qed

lemma notifier_starts: "implements (start_process cfg now w) (start_notifier now)"
  by (simp add: implements_def start_process_def start_app_def start_notifier_def sessions_view_def newSessionPublisher_def)

lemma notifier_reaches:
  assumes "process_reachable cfg x s"
  shows "\<exists>now n. notifier_run (process_spec cfg x) (start_notifier now) n \<and> implements s n"
proof -
  obtain now w where run: "process_run cfg x (start_process cfg now w) s" using assms by (auto simp: process_reachable_def)
  have "process_reachable cfg x (start_process cfg now w)" by (auto simp: process_reachable_def intro: process_run.run_start)
  from notifier_follows [OF run this notifier_starts] have "\<exists>n. notifier_run (process_spec cfg x) (start_notifier now) n \<and> implements s n"
    by (simp add: views_ok_def start_notifier_def)
  then show ?thesis by blast
qed

text \<open>
  C3: Forward simulation: whatever its interleavings, each step of the core process is a run of
  the abstract notifier, and every state reached stands for a state of it: the clocks agree,
  what is pending has been accepted and not yet stored, and the process has a session for
  exactly the keys with a stored batch, with the view and the time of the last one. In the
  notifier time passes; valid events are accepted; each is stored at most once, in batches of
  one session, the last event per app winning, on top of the view of the session, or of an
  empty one exactly when the session is new or more than the TTL has passed since its last
  batch; and only messages are sent that Build makes of all apps of a view routed to a
  destination, as new ones or as edits of a reference a backend has answered with before for
  that destination and session. Which of the two a message is, the notifier leaves open. Thread
  replies come in thread mode only, under such a reference, with the note of an event stored
  for the session.
\<close>

theorem process_refines_notifier:
  assumes "process_reachable cfg x s"
  shows "\<exists>now n. notifier_run (process_spec cfg x) (start_notifier now) n \<and> implements s n \<and>
    (\<forall>s'. process_run cfg x s s' \<longrightarrow> (\<exists>n'. notifier_run (process_spec cfg x) n n' \<and> implements s' n'))"
proof -
  obtain now n where n: "notifier_run (process_spec cfg x) (start_notifier now) n" "implements s n"
    using notifier_reaches [OF assms] by blast
  have "views_ok (main_engine_config cfg) (nfStored n)"
    using notifier_views [OF n(1)] by (simp add: views_ok_def start_notifier_def)
  with n notifier_follows [OF _ assms] show ?thesis by blast
qed


end
