(* ===== verification/SlackProcess.thy ===== *)
theory SlackProcess
  imports Startup
begin

text \<open>
  The Slack backend as a process: what its \<open>main\<close> has started, with everything that can happen in
  any order until it exits. The registrar and the watcher are goroutines with a ticker each; the
  handlers read what they have left behind: the registration for the readiness probe, and the
  current template for every message.
\<close>

section \<open>The process\<close>

text \<open>
  Next to the state, its history: what each reload found in the file system, and the requests
  with their answers.
\<close>

record ('v, 'e) slack_process =
  kpWorld :: 'v
  kpWatcher :: "'e watcher"
  kpRegistrar :: registrar
  kpServing :: bool
  kpCancelled :: bool
  kpExited :: bool
  kpReloads :: "(int option \<times> string option) list"
  kpAnswered :: "(http_request \<times> http_response) list"

text \<open>The calls of Slack and the waits do not touch the watcher, which the client sees in its world.\<close>

definition do_beside :: "('v \<Rightarrow> http_request \<Rightarrow> ('x + http_response) \<times> 'v) \<Rightarrow>
    'v \<times> 'e watcher \<Rightarrow> http_request \<Rightarrow> ('x + http_response) \<times> 'v \<times> 'e watcher" where
  "do_beside do = (\<lambda>(v, t) req. case do v req of (res, v) \<Rightarrow> (res, (v, t)))"

definition wait_beside :: "(64 word \<Rightarrow> 'v \<Rightarrow> bool \<times> 'v) \<Rightarrow> 64 word \<Rightarrow> 'v \<times> 'e watcher \<Rightarrow> bool \<times> 'v \<times> 'e watcher" where
  "wait_beside wait = (\<lambda>d (v, t). case wait d v of (ok, v) \<Rightarrow> (ok, (v, t)))"

definition watcher_fallback :: "('w, 'x, 'r, 'h) slack_running \<Rightarrow> bool" where
  "watcher_fallback st = (case srWatcher st of None \<Rightarrow> False | Some (path, fallback, interval) \<Rightarrow> fallback)"

definition start_slack :: "('v \<times> 'e watcher, 'x, 'r, 'v) slack_running \<Rightarrow> 'v \<Rightarrow> ('v, 'e) slack_process" where
  "start_slack st v = \<lparr>kpWorld = v, kpWatcher = NewTemplateWatcher (watcher_fallback st), kpRegistrar = srRegistrar st,
     kpServing = srServing st, kpCancelled = False, kpExited = False, kpReloads = [], kpAnswered = []\<rparr>"

text \<open>
  The outside world changes; a tick of the registrar, or of the watcher where there is one; a
  request; a signal, the shutdown of the server, the end of \<open>main\<close>. A registration that was
  under way at the signal may still be answered.
\<close>

inductive slack_step :: "(string \<Rightarrow> 'e + 'e template) \<Rightarrow> ('v \<times> 'e watcher, 'x, 'r, 'v) slack_running \<Rightarrow>
    ('v, 'e) slack_process \<Rightarrow> ('v, 'e) slack_process \<Rightarrow> bool" for parse st where
  outside: "\<not> kpExited s \<Longrightarrow> slack_step parse st s (s\<lparr>kpWorld := v\<rparr>)"
| heartbeat: "\<not> kpExited s \<Longrightarrow> Registrar_register (srCoreClient st) (kpRegistrar s, kpWorld s) = Some (r, v) \<Longrightarrow>
     slack_step parse st s (s\<lparr>kpRegistrar := r, kpWorld := v\<rparr>)"
| reload: "\<not> kpExited s \<Longrightarrow> srWatcher st \<noteq> None \<Longrightarrow>
     slack_step parse st s (s\<lparr>kpWatcher := Reload parse stat contents (kpWatcher s), kpReloads := kpReloads s @ [(stat, contents)]\<rparr>)"
| request: "\<not> kpExited s \<Longrightarrow> kpServing s \<Longrightarrow>
     hsHandler (srServer st) req ((kpWorld s, kpWatcher s), kpRegistrar s) = (Some rsp, ((v, t), r)) \<Longrightarrow>
     slack_step parse st s (s\<lparr>kpWorld := v, kpWatcher := t, kpRegistrar := r, kpAnswered := kpAnswered s @ [(req, rsp)]\<rparr>)"
| signal: "\<not> kpExited s \<Longrightarrow> slack_step parse st s (s\<lparr>kpCancelled := True\<rparr>)"
| shutdown: "\<not> kpExited s \<Longrightarrow> kpCancelled s \<Longrightarrow> slack_step parse st s (s\<lparr>kpServing := False\<rparr>)"
| exit: "\<not> kpExited s \<Longrightarrow> kpCancelled s \<Longrightarrow> \<not> kpServing s \<Longrightarrow> slack_step parse st s (s\<lparr>kpExited := True\<rparr>)"

inductive slack_run :: "(string \<Rightarrow> 'e + 'e template) \<Rightarrow> ('v \<times> 'e watcher, 'x, 'r, 'v) slack_running \<Rightarrow>
    ('v, 'e) slack_process \<Rightarrow> ('v, 'e) slack_process \<Rightarrow> bool" for parse st s0 where
  slack_starts: "slack_run parse st s0 s0"
| slack_goes_on: "slack_run parse st s0 s \<Longrightarrow> slack_step parse st s s' \<Longrightarrow> slack_run parse st s0 s'"

section \<open>Requests leave watcher and registrar alone\<close>

text \<open>A client that keeps some part of its world keeps it along the loop of \<open>call\<close>.\<close>

definition client_keeps :: "('w \<Rightarrow> 'p) \<Rightarrow> ('w, 'e, 'r) slack_client \<Rightarrow> bool" where
  "client_keeps part c \<longleftrightarrow> (\<forall>w req. part (snd (slDo c w req)) = part w) \<and> (\<forall>d w. part (snd (slWait c d w)) = part w)"

lemma attempt_keeps: "client_keeps part c \<Longrightarrow> part (snd (attempt_call c meth body w)) = part w"
  unfolding client_keeps_def attempt_call_def
  by (auto simp: split_beta split: sum.split option.split prod.split)

lemma loop_keeps: "client_keeps part c \<Longrightarrow> part (snd (call_loop c meth body k n e w)) = part w"
proof (induction k arbitrary: n e w)
  case 0
  then show ?case by (simp split: option.split)
next
  case (Suc k)
  obtain ok w1 where wait: "(if n > 0 then slWait c (backoff (word_of_nat n)) w else (True, w)) = (ok, w1)" by force
  with Suc.prems have w1: "part w1 = part w" by (auto simp: client_keeps_def split: if_splits) (metis snd_conv)
  obtain res w2 where res: "attempt_call c meth body w1 = (res, w2)" by force
  with attempt_keeps [OF Suc.prems, of meth body w1] w1 have "part w2 = part w" by simp
  with wait res w1 Suc.IH [OF Suc.prems] show ?case
    by (cases ok) (auto simp del: call_loop.simps(1) split: sum.split prod.split)
qed

lemma call_keeps: "client_keeps part c \<Longrightarrow> part (snd (call c meth body w)) = part w"
  by (simp add: call_def loop_keeps split: option.split)

lemma as_error_world [simp]: "snd (as_error r) = snd r"
  by (simp add: as_error_def split: prod.split sum.split)

lemma client_methods_keep:
  assumes "client_keeps part c"
  shows "part (snd (Post c w recipient n)) = part w" "part (snd (Update c w recipient ref n)) = part w"
    "part (snd (PostThreadReply c w recipient ref msg)) = part w"
  using call_keeps [OF assms]
  by (simp_all add: Post_def Update_def PostThreadReply_def split_beta split: sum.split prod.split)

text \<open>A handler whose methods keep a part of the world keeps it, and so does its server.\<close>

lemma handler_keeps:
  assumes "client_keeps part c" and "h = beside_registrar (slack_handler c)"
  shows "snd (snd (Handler_Notify de h body (w, r))) = r \<and> part (fst (snd (Handler_Notify de h body (w, r)))) = part w"
    and "snd (snd (Handler_ThreadReply de h body (w, r))) = r \<and> part (fst (snd (Handler_ThreadReply de h body (w, r)))) = part w"
  using client_methods_keep [OF assms(1)]
  by (auto simp: Handler_Notify_def Handler_ThreadReply_def handler_post_def beside_registrar_def slack_handler_def assms(2) Let_def
      split: option.split prod.split sum.split) (metis snd_conv)+

lemma backend_server_world:
  "snd (backend_server de h ready req w) =
     (if rqMethod req = ''POST'' \<and> rqURL req = ''/notify'' then snd (Handler_Notify de h (rqBody req) w)
      else if rqMethod req = ''POST'' \<and> rqURL req = ''/thread-reply'' then snd (Handler_ThreadReply de h (rqBody req) w)
      else w)"
  by (auto simp: backend_server_def backendapi_routes_def serve_mux_def method_matches_def Middleware_def HealthzHandler_def
      ReadyzHandler_def split_beta split: option.split)

lemma started_client:
  assumes "slack_main loaded de resolve standard http snd buildable (do_beside do) (wait_beside wait) listens = Runs st"
  shows "client_keeps snd (srClient st)"
    and "slRender (srClient st) = (\<lambda>w. if srWatcher st = None then DefaultRenderer_Render else TemplateWatcher_Render (snd w))"
proof -
  obtain cfg where c: "srClient st = main_slack_client cfg snd buildable (do_beside do) (wait_beside wait)"
    "srWatcher st = None \<longleftrightarrow> bcMessageTemplatePath cfg = []"
    using assms by (auto simp: slack_main_def Let_def split: sum.splits)
  show "client_keeps snd (srClient st)"
    by (auto simp: c main_slack_client_def NewClient_def WithRenderer_def client_keeps_def do_beside_def wait_beside_def split: prod.split)
  show "slRender (srClient st) = (\<lambda>w. if srWatcher st = None then DefaultRenderer_Render else TemplateWatcher_Render (snd w))"
    by (auto simp: c(2)) (auto simp: c(1) main_slack_client_def NewClient_def WithRenderer_def)
qed

lemma request_keeps:
  assumes "slack_main loaded de resolve standard http snd buildable (do_beside do) (wait_beside wait) listens = Runs st"
    and "hsHandler (srServer st) req ((v, t), r) = (out, ((v', t'), r'))"
  shows "t' = t \<and> r' = r"
proof -
  have "snd (hsHandler (srServer st) req ((v, t), r)) = ((v', t'), r')" using assms(2) by simp
  then show ?thesis
    using handler_keeps [OF started_client(1) [OF assms(1)] refl, of de "rqBody req" "(v, t)" r]
    by (auto simp: started_slack [OF assms(1)] backend_server_world split: if_splits)
qed

lemma readyz_answer:
  assumes "slack_main loaded de resolve standard http watching buildable do wait listens = Runs st"
    and "rqURL req = ''/readyz''" and "hsHandler (srServer st) req (w, r) = (Some rsp, w')"
  shows "rsStatus rsp = (if raRegistered r then 200 else 503)"
  using assms(2,3)
  by (auto simp: started_slack [OF assms(1)] backend_server_def backendapi_routes_def serve_mux_def method_matches_def
      Middleware_def ReadyzHandler_def HasRegistered_def write_status_def)

lemma heartbeat_effect:
  "Registrar_register client (r, v) = Some (r', v') \<Longrightarrow> r' = r \<or> r' = r\<lparr>raRegistered := True\<rparr>"
  unfolding Registrar_register_def by (auto split: sum.split_asm if_split_asm) (metis sum.exhaust)

section \<open>What holds whenever it runs\<close>

definition readyz_codes :: "(http_request \<times> http_response) list \<Rightarrow> int list" where
  "readyz_codes answered = map (rsStatus \<circ> snd) (filter (\<lambda>(req, rsp). rqURL req = ''/readyz'') answered)"

text \<open>Refusals first, then only answers that it is ready.\<close>

definition ready_once :: "int list \<Rightarrow> bool" where
  "ready_once codes \<longleftrightarrow> (\<exists>m n. codes = replicate m 503 @ replicate n 200)"

lemma ready_once_snoc: "ready_once codes \<Longrightarrow> ready_once (codes @ [200])"
  unfolding ready_once_def by (metis append_assoc replicate_append_same replicate_Suc)

lemma unready_snoc: "200 \<notin> set codes \<Longrightarrow> ready_once codes \<Longrightarrow> ready_once (codes @ [503])"
  unfolding ready_once_def
proof (elim exE)
  fix m n assume "200 \<notin> set codes" "codes = replicate m (503 :: int) @ replicate n 200"
  then have "codes @ [503] = replicate (Suc m) 503 @ replicate 0 200" by (cases n) (simp_all add: replicate_append_same)
  then show "\<exists>m n. codes @ [503] = replicate m 503 @ replicate n 200" by blast
qed

definition slack_ok :: "(string \<Rightarrow> 'e + 'e template) \<Rightarrow> ('v \<times> 'e watcher, 'x, 'r, 'v) slack_running \<Rightarrow> ('v, 'e) slack_process \<Rightarrow> bool" where
  "slack_ok parse st s \<longleftrightarrow>
     (kpRegistrar s)\<lparr>raRegistered := True\<rparr> = (srRegistrar st)\<lparr>raRegistered := True\<rparr> \<and>
     kpWatcher s = watcher_run parse (kpReloads s) (NewTemplateWatcher (watcher_fallback st)) \<and>
     (srWatcher st = None \<longrightarrow> kpReloads s = []) \<and>
     ready_once (readyz_codes (kpAnswered s)) \<and> (200 \<in> set (readyz_codes (kpAnswered s)) \<longrightarrow> raRegistered (kpRegistrar s))"

lemma slack_ok_start: "slack_ok parse st (start_slack st v)"
  by (simp add: slack_ok_def start_slack_def watcher_run_def readyz_codes_def ready_once_def)

lemma slack_ok_step:
  assumes "slack_main loaded de resolve standard http snd buildable (do_beside do) (wait_beside wait) listens = Runs st"
    and "slack_step parse st s s'" and "slack_ok parse st s"
  shows "slack_ok parse st s'"
  using assms(2)
proof cases
  case (heartbeat r v)
  with assms(3) heartbeat_effect [OF heartbeat(3)] show ?thesis by (auto simp: slack_ok_def)
next
  case (reload stat contents)
  with assms(3) show ?thesis by (simp add: slack_ok_def watcher_run_def)
next
  case (request req rsp v t r)
  have keeps: "t = kpWatcher s \<and> r = kpRegistrar s" by (rule request_keeps [OF assms(1) request(4)])
  show ?thesis
  proof (cases "rqURL req = ''/readyz''")
    case True
    have "rsStatus rsp = (if raRegistered (kpRegistrar s) then 200 else 503)"
      by (rule readyz_answer [OF assms(1) True request(4)])
    then have "readyz_codes (kpAnswered s') = readyz_codes (kpAnswered s) @ [if raRegistered (kpRegistrar s) then 200 else 503]"
      using request(1) True by (simp add: readyz_codes_def)
    with assms(3) request(1) keeps show ?thesis
      by (auto simp: slack_ok_def intro: ready_once_snoc unready_snoc)
  next
    case False
    with assms(3) request(1) keeps show ?thesis by (simp add: slack_ok_def readyz_codes_def)
  qed
qed (use assms(3) in \<open>simp_all add: slack_ok_def\<close>)

lemma slack_runs_ok:
  assumes "slack_main loaded de resolve standard http snd buildable (do_beside do) (wait_beside wait) listens = Runs st"
    and "slack_run parse st (start_slack st v) s"
  shows "slack_ok parse st s"
  using assms(2) by induction (auto intro: slack_ok_start slack_ok_step [OF assms(1)])

text \<open>A registrar that has registered got the answer 204 from the core at some point of the run.\<close>

lemma registered_by_core:
  "Registrar_register client (r, v) = Some (r', v') \<Longrightarrow> raRegistered r' \<Longrightarrow> \<not> raRegistered r \<Longrightarrow>
     \<exists>resp. RegisterBackendWithResponse client
       \<lparr>gqBaseURL = raBaseURL r, gqName = raName r, gqSupportsThreadReply = raSupportsThreadReply r\<rparr> [] v = Some (Inr resp, v') \<and>
       response_StatusCode resp = 204"
  by (auto simp: Registrar_register_def split: sum.split_asm if_split_asm) (metis sum.exhaust)

definition registration_at :: "('v \<times> 'e watcher, 'x, 'r, 'v) slack_running \<Rightarrow> ('v, 'e) slack_process \<Rightarrow> bool" where
  "registration_at st s \<longleftrightarrow> (\<exists>resp v. RegisterBackendWithResponse (srCoreClient st)
     \<lparr>gqBaseURL = raBaseURL (srRegistrar st), gqName = raName (srRegistrar st),
      gqSupportsThreadReply = raSupportsThreadReply (srRegistrar st)\<rparr> [] (kpWorld s) = Some (Inr resp, v) \<and>
     response_StatusCode resp = 204)"

lemma registered_since:
  assumes "slack_main loaded de resolve standard http snd buildable (do_beside do) (wait_beside wait) listens = Runs st"
    and "slack_run parse st (start_slack st v) s" and "raRegistered (kpRegistrar s)"
  shows "\<exists>s1. slack_run parse st (start_slack st v) s1 \<and> slack_run parse st s1 s \<and> registration_at st s1"
  using assms(2,3)
proof induction
  case slack_starts
  from assms(1) have "\<not> raRegistered (srRegistrar st)"
    by (auto simp: slack_main_def NewRegistrar_def Let_def split: sum.splits)
  with slack_starts show ?case by (simp add: start_slack_def)
next
  case (slack_goes_on s s')
  show ?case
  proof (cases "raRegistered (kpRegistrar s)")
    case True
    with slack_goes_on show ?thesis by (blast intro: slack_run.slack_goes_on)
  next
    case False
    from slack_goes_on.hyps(2) slack_goes_on.prems False obtain r v'
      where "Registrar_register (srCoreClient st) (kpRegistrar s, kpWorld s) = Some (r, v')" "raRegistered r"
    proof cases
      case (request req rsp v t r)
      with request_keeps [OF assms(1) request(4)] slack_goes_on.prems False show ?thesis by simp
    qed (use slack_goes_on.prems False in auto)
    from registered_by_core [OF this False] slack_runs_ok [OF assms(1) slack_goes_on.hyps(1)]
    have "registration_at st s"
      by (cases "kpRegistrar s"; cases "srRegistrar st") (auto simp: slack_ok_def registration_at_def)
    with slack_goes_on.hyps show ?thesis by (blast intro: slack_run.intros)
  qed
qed

lemma Reload_fallback [simp]: "twFallback (Reload parse stat contents w) = twFallback w"
  by (simp add: Reload_def split: option.split sum.split)

lemma watcher_run_fallback: "twFallback (watcher_run parse ticks w) = twFallback w"
  unfolding watcher_run_def by (induction ticks arbitrary: w) (auto split: prod.split)

text \<open>
  C23: However ticks, requests and the shutdown of the Slack backend interleave, its readiness
  probe answers 503 for a while and 200 from then on, never 503 again; it answers 200 only
  after the core has answered a registration under the configured name and address with 204.
\<close>

theorem slack_ready_after_registration:
  assumes "slack_main loaded de resolve standard http snd buildable (do_beside do) (wait_beside wait) listens = Runs st"
    and "slack_run parse st (start_slack st v) s"
  shows "ready_once (readyz_codes (kpAnswered s)) \<and>
    (200 \<in> set (readyz_codes (kpAnswered s)) \<longrightarrow>
       (\<exists>s1. slack_run parse st (start_slack st v) s1 \<and> slack_run parse st s1 s \<and> registration_at st s1))"
  using slack_runs_ok [OF assms] registered_since [OF assms] unfolding slack_ok_def by blast

text \<open>
  C34: Where the modification time of the template file changes with its content, what the
  client of a running Slack backend renders a message with is, whatever happened before, the
  template of the latest version that could be read and parsed, or the built-in renderer before
  there is one; an error of the template falls back to the built-in renderer exactly where that
  is configured. Unchanged files that are skipped make no difference.
\<close>

theorem slack_renders_last_good:
  assumes "slack_main loaded de resolve standard http snd buildable (do_beside do) (wait_beside wait) listens = Runs st"
    and "slack_run parse st (start_slack st v) s" and "mtime_tells (kpReloads s)"
  shows "slRender (srClient st) (kpWorld s, kpWatcher s) n =
    (case last_good parse (kpReloads s) None of
       None \<Rightarrow> DefaultRenderer_Render n
     | Some r \<Rightarrow> (case TemplateRenderer_Render r n of
         Inr out \<Rightarrow> Inr out
       | Inl e \<Rightarrow> if watcher_fallback st then DefaultRenderer_Render n else Inl e))"
proof -
  note ok = slack_runs_ok [OF assms(1,2), unfolded slack_ok_def]
  then have watcher: "kpWatcher s = watcher_run parse (kpReloads s) (NewTemplateWatcher (watcher_fallback st))" by blast
  have "twCurrent (kpWatcher s) = last_good parse (kpReloads s) None"
    using watcher_run_last_good [of "[]" "kpReloads s" "NewTemplateWatcher (watcher_fallback st)" parse] assms(3)
    by (simp add: watcher NewTemplateWatcher_def)
  moreover have "twFallback (kpWatcher s) = watcher_fallback st"
    by (simp add: watcher watcher_run_fallback NewTemplateWatcher_def)
  moreover have "last_good parse (kpReloads s) None = None" if "srWatcher st = None" using ok that by simp
  ultimately show ?thesis
    by (auto simp: started_client(2) [OF assms(1)] TemplateWatcher_Render_def split: option.split sum.split)
qed

section \<open>A sample run\<close>

definition sample_backend_config :: backend_config where
  "sample_backend_config = \<lparr>bcSlackBotToken = ''token'', bcSlackRequestTimeout = 10 * second, bcSlackMaxRetries = 0,
     bcListenAddr = '':8081'', bcCoreURL = ''http://core'', bcPublicBaseURL = ''http://s'', bcBackendName = ''slack'',
     bcRegisterInterval = 30 * second, bcMessageTemplatePath = [], bcMessageTemplateReloadInterval = 30 * second,
     bcMessageTemplateFallbackToDefault = True, bcLogLevel = ''info'', bcLogFormat = ''json''\<rparr>"

definition no_exchange :: "(nat, unit) doer" where
  "no_exchange h req = (Inl (), h)"

text \<open>A backend with a template file, and a core that answers every registration with 204.\<close>

definition confirming :: "(nat, unit) doer" where
  "confirming = whole (\<lambda>code. []) (\<lambda>h req. (Inr no_content, Suc h))"

definition sample_slack_main :: "(nat \<times> string watcher, unit, string template_error, nat) slack_running outcome" where
  "sample_slack_main = slack_main (Inr (sample_backend_config\<lparr>bcMessageTemplatePath := ''t''\<rparr>) :: unit + backend_config) (\<lambda>s. s)
     sample_resolve confirming confirming snd (\<lambda>url. True) (do_beside sample_slack_api) (wait_beside (\<lambda>d w. (True, w))) (\<lambda>a. True)"

definition sample_slack :: "(nat \<times> string watcher, unit, string template_error, nat) slack_running" where
  "sample_slack = (case sample_slack_main of Runs st \<Rightarrow> st)"

lemma sample_slack_starts:
  "sample_slack_main = Runs sample_slack" "srServing sample_slack" "srWatcher sample_slack \<noteq> None" "watcher_fallback sample_slack"
  "\<not> raRegistered (srRegistrar sample_slack)"
  "\<exists>r h. Registrar_register (srCoreClient sample_slack) (srRegistrar sample_slack, 0) = Some (r, h) \<and> raRegistered r"
proof -
  have config: "bcMessageTemplateFallbackToDefault sample_backend_config" "bcCoreURL sample_backend_config = ''http://core''"
    by (simp_all add: sample_backend_config_def)
  obtain st where st: "sample_slack_main = Runs st" "srServing st" "srWatcher st \<noteq> None" "watcher_fallback st"
    "srRegistrar st = NewRegistrar ''http://core'' (bcBackendName sample_backend_config) (bcPublicBaseURL sample_backend_config) True"
    "srCoreClient st = core_client_of sample_resolve \<lparr>acServer = client_server ''http://core'', acDoer = Some confirming, acEditors = []\<rparr>"
    by (simp add: sample_slack_main_def slack_main_def core_NewClientWithResponses_def api_NewClient_http Let_def
        supportsThreadReply_def watcher_fallback_def config) blast
  have "sample_slack = st" unfolding sample_slack_def by (subst st(1)) simp
  with st show "sample_slack_main = Runs sample_slack" "srServing sample_slack" "srWatcher sample_slack \<noteq> None"
    "watcher_fallback sample_slack" "\<not> raRegistered (srRegistrar sample_slack)" by (simp_all add: NewRegistrar_def)
  from st(6) have client: "core_NewClientWithResponses sample_resolve confirming ''http://core'' [WithHTTPClient confirming] = Inr (srCoreClient st)"
    by (simp add: core_NewClientWithResponses_def api_NewClient_http)
  have "raServer (srRegistrar st) = client_server ''http://core''" by (simp add: st(5) NewRegistrar_def)
  from Registrar_register_eq [OF client this, of 0] \<open>sample_slack = st\<close>
  show "\<exists>r h. Registrar_register (srCoreClient sample_slack) (srRegistrar sample_slack, 0) = Some (r, h) \<and> raRegistered r"
    by (simp add: register_def NewRegisterBackendRequest_def new_json_request_def sample_resolve_def read_all_def confirming_def whole_def no_content_def)
qed

lemmas sample_slack_run = sample_slack_starts(1) [unfolded sample_slack_main_def]

lemma sample_ready:
  assumes "\<not> kpExited s" and "kpServing s" and "req = sample_request\<lparr>rqURL := ''/readyz''\<rparr>"
    and "rsp = write_status (if raRegistered (kpRegistrar s) then 200 else 503)"
  shows "slack_step parse sample_slack s (s\<lparr>kpAnswered := kpAnswered s @ [(req, rsp)]\<rparr>)"
proof -
  have "hsHandler (srServer sample_slack) req ((kpWorld s, kpWatcher s), kpRegistrar s) =
      (Some rsp, ((kpWorld s, kpWatcher s), kpRegistrar s))"
    by (simp add: started_slack [OF sample_slack_run] backend_server_def backendapi_routes_def serve_mux_def
        Middleware_def ReadyzHandler_def HasRegistered_def method_matches_def assms(3,4))
  from slack_step.request [OF assms(1,2) this] show ?thesis by simp
qed

lemma slack_ready_after_registration_witness:
  "\<exists>s s1. slack_run sample_parse sample_slack (start_slack sample_slack 0) s \<and> readyz_codes (kpAnswered s) = [503, 200] \<and>
     slack_run sample_parse sample_slack s1 s \<and> registration_at sample_slack s1"
proof -
  let ?req = "sample_request\<lparr>rqURL := ''/readyz''\<rparr>" and ?s = "start_slack sample_slack 0 :: (nat, string) slack_process"
  obtain r h where r: "Registrar_register (srCoreClient sample_slack) (srRegistrar sample_slack, 0) = Some (r, h)" "raRegistered r"
    using sample_slack_starts(6) by blast
  have start: "\<not> kpExited ?s" "kpServing ?s" "kpRegistrar ?s = srRegistrar sample_slack" "kpWorld ?s = 0" "kpAnswered ?s = []"
    using sample_slack_starts(2) by (simp_all add: start_slack_def)
  let ?t = "?s\<lparr>kpAnswered := [(?req, write_status 503)]\<rparr>"
  have a: "slack_step sample_parse sample_slack ?s ?t"
    using sample_ready [OF start(1,2) refl refl, of sample_parse] start(3,5) sample_slack_starts(5) by simp
  let ?u = "?t\<lparr>kpRegistrar := r, kpWorld := h\<rparr>"
  have b: "slack_step sample_parse sample_slack ?t ?u" by (rule slack_step.heartbeat) (use start r(1) in simp_all)
  let ?v = "?u\<lparr>kpAnswered := kpAnswered ?u @ [(?req, write_status 200)]\<rparr>"
  have c: "slack_step sample_parse sample_slack ?u ?v" by (rule sample_ready) (use start r(2) in simp_all)
  have run: "slack_run sample_parse sample_slack ?s ?v" using a b c by (meson slack_run.intros)
  have codes: "readyz_codes (kpAnswered ?v) = [503, 200]" by (simp add: readyz_codes_def write_status_def)
  from slack_ready_after_registration [OF sample_slack_run run] codes obtain s1
    where "slack_run sample_parse sample_slack s1 ?v" "registration_at sample_slack s1" by auto
  with run codes show ?thesis by blast
qed

lemma slack_renders_last_good_witness:
  "\<exists>s. slack_run sample_parse sample_slack (start_slack sample_slack 0) s \<and>
     kpReloads s = [(Some 1, Some ''one''), (Some 2, Some [])] \<and>
     slRender (srClient sample_slack) (kpWorld s, kpWatcher s) sample_msg = Inr (''one'', None)"
proof -
  let ?s = "start_slack sample_slack 0 :: (nat, string) slack_process"
  note tick = slack_step.reload [OF _ sample_slack_starts(3), where parse = sample_parse]
  let ?t = "?s\<lparr>kpWatcher := Reload sample_parse (Some 1) (Some ''one'') (kpWatcher ?s), kpReloads := kpReloads ?s @ [(Some 1, Some ''one'')]\<rparr>"
  let ?u = "?t\<lparr>kpWatcher := Reload sample_parse (Some 2) (Some []) (kpWatcher ?t), kpReloads := kpReloads ?t @ [(Some 2, Some [])]\<rparr>"
  have "slack_step sample_parse sample_slack ?s ?t" by (rule tick) (simp add: start_slack_def)
  moreover have "slack_step sample_parse sample_slack ?t ?u" by (rule tick) (simp add: start_slack_def)
  ultimately have run: "slack_run sample_parse sample_slack ?s ?u" by (meson slack_run.intros)
  have reloads: "kpReloads ?u = [(Some 1, Some ''one''), (Some 2, Some [])]" by (simp add: start_slack_def)
  then have "mtime_tells (kpReloads ?u)" by (simp add: mtime_tells_def)
  from slack_renders_last_good [OF sample_slack_run run this, of sample_msg] reloads
  have "slRender (srClient sample_slack) (kpWorld ?u, kpWatcher ?u) sample_msg = Inr (''one'', None)"
    by (simp add: ParseTemplateRenderer_def sample_parse_def TemplateRenderer_Render_def trim_space_def)
  with run reloads show ?thesis by blast
qed

end
