(* ===== verification/SampleRun.thy ===== *)
theory SampleRun
  imports Deployment Notifier SlackProcess
begin

text \<open>
  A run of both programs as their functions \<open>main\<close> start them, with a sample outside: the Slack
  backend registers at the core, an event is submitted, ingested, flushed by the idle timer, and
  posted to Slack, whose answer comes back. Its states are the witnesses of the properties of the
  core process and of its start.
\<close>

section \<open>A sample run\<close>

text \<open>
  One worker, a channel of one event, and a backend that answers every request. The backend
  registers, an event is submitted, ingested, flushed by the idle timer and sent.
\<close>

definition run_config :: config where
  "run_config = sample_config\<lparr>cfLeaderElectionEnabled := False, cfIngestQueueSize := 1, cfWorkerCount := 1\<rparr>"

text \<open>The Slack backend as its \<open>main\<close> starts it, with a Slack that answers every request.\<close>

definition run_slack_main :: "(nat, unit, string template_error, nat) slack_running outcome" where
  "run_slack_main = slack_main (Inr sample_backend_config :: unit + backend_config) (\<lambda>s. s) sample_resolve no_exchange no_exchange
     (\<lambda>w. NewTemplateWatcher True) (\<lambda>url. True) sample_slack_api (\<lambda>d w. (True, w)) (\<lambda>a. True)"

definition run_slack :: "(nat, unit, string template_error, nat) slack_running" where
  "run_slack = (case run_slack_main of Runs st \<Rightarrow> st)"

lemma run_slack_starts:
  "run_slack_main = Runs run_slack" "srClient run_slack = sample_slack_client 0"
  "srRegistrar run_slack = NewRegistrar ''http://core'' ''slack'' ''http://s'' True"
proof -
  have config: "bcMessageTemplatePath sample_backend_config = []" "bcSlackBotToken sample_backend_config = ''token''"
    "bcSlackMaxRetries sample_backend_config = 0" "bcCoreURL sample_backend_config = ''http://core''"
    "bcBackendName sample_backend_config = ''slack''" "bcPublicBaseURL sample_backend_config = ''http://s''"
    by (simp_all add: sample_backend_config_def)
  obtain st where st: "run_slack_main = Runs st" "srClient st = sample_slack_client 0"
      "srRegistrar st = NewRegistrar ''http://core'' ''slack'' ''http://s'' True"
    by (simp add: run_slack_main_def slack_main_def core_NewClientWithResponses_def api_NewClient_http Let_def
        main_slack_client_def sample_slack_client_def supportsThreadReply_def config)
  have "run_slack = st" unfolding run_slack_def by (subst st(1)) simp
  with st show "run_slack_main = Runs run_slack" "srClient run_slack = sample_slack_client 0"
    "srRegistrar run_slack = NewRegistrar ''http://core'' ''slack'' ''http://s'' True"
    by simp_all
qed

text \<open>The outside of the core: Slack's state, next to the registrar of the backend.\<close>

definition run_world :: "nat \<times> registrar" where
  "run_world = (0, srRegistrar run_slack)"

definition run_externals :: "(nat \<times> registrar, string) externals" where
  "run_externals = \<lparr>exDo = network ''lost'' (hsHandler (srServer run_slack)) ''http://s'',
     exResolveURL = (\<lambda>base path. Some (base @ drop 2 path)),
     exGetPod = (\<lambda>identity w. (Inr (sample_ips identity), w)), exParse = Some, exForward = (\<lambda>u req w. (no_content, w)),
     exSha256Hex = (\<lambda>s. s), exRFC3339 = (\<lambda>t. []), exDecodeError = (\<lambda>s. s)\<rparr>"

definition run_registration :: register_request where
  "run_registration = \<lparr>gqBaseURL = ''http://s'', gqName = ''slack'', gqSupportsThreadReply = True\<rparr>"

definition run_registry :: registry where
  "run_registry = \<lparr>rgTTL = 90 * second, rgBackends =
     [(''slack'', \<lparr>rbName = ''slack'', rbBaseURL = ''http://s'', rbSupportsThreadReply = True, rbLastSeen = 0\<rparr>)]\<rparr>"

definition run_app :: "pool \<Rightarrow> int \<Rightarrow> (nat \<times> registrar) core_app" where
  "run_app p now = \<lparr>caPool = p, caRegistry = run_registry, caElector = new_elector,
     caResolver = NewPodAddressResolver, caNow = now, caWorld = run_world\<rparr>"

definition run_state :: "pool \<Rightarrow> engine_sys \<Rightarrow> int \<Rightarrow> event list \<Rightarrow> (nat \<times> registrar, string) process" where
  "run_state p e now evs = (start_process run_config 0 run_world)\<lparr>psApp := run_app p now, psEngine := e, psAccepted := evs\<rparr>"

definition run_submit :: http_request where
  "run_submit = sample_request\<lparr>rqBody := sample_body\<rparr>"

abbreviation run_ec :: engine_config where
  "run_ec \<equiv> main_engine_config run_config"

definition run_timer :: timer where
  "run_timer = \<lparr>tmId = 1, tmDeadline = 30 * second, tmGroup = ''g'', tmGen = 0\<rparr>"

definition run_ticked :: engine_sys where
  "run_ticked = es_tick (30 * second) (es_arrive run_ec created (init_sys 0))"

definition run_fired :: engine_sys where
  "run_fired = es_expire run_timer run_ticked"

lemma run_config_simps [simp]:
  "cfLeaderElectionEnabled run_config = False" "cfWorkerCount run_config = 1" "cfIngestQueueSize run_config = 1"
  "cfBackendRegistryTTL run_config = 90 * second" "cfSessionTTL run_config = 2700 * second"
  by (simp_all add: run_config_def sample_config_def)

lemma run_state_simps [simp]:
  "psApp (run_state p e now evs) = run_app p now" "psEngine (run_state p e now evs) = e"
  "psAccepted (run_state p e now evs) = evs" "psServing (run_state p e now evs)" "\<not> psExited (run_state p e now evs)"
  "psJobs (run_state p e now evs) = []" "psStore (run_state p e now evs) = newSessionPublisher"
  "psUpserted (run_state p e now evs) = []" "psCalls (run_state p e now evs) = []"
  "caPool (run_app p now) = p" "caNow (run_app p now) = now" "caRegistry (run_app p now) = run_registry"
  by (simp_all add: run_state_def start_process_def run_app_def)

lemma run_registration_simps:
  "gqName run_registration = ''slack''" "gqBaseURL run_registration = ''http://s''" "gqSupportsThreadReply run_registration"
  by (simp_all add: run_registration_def)

lemma run_registers: "process_reachable run_config run_externals (run_state (start_pool 1 1) (init_sys 0) 0 [])"
proof -
  let ?req = "\<lparr>rqMethod = ''POST'', rqURL = ''/v1/backends/register'', rqHeader = [],
    rqBody = json_text (register_request_json run_registration)\<rparr>"
  let ?s = "start_process run_config 0 run_world :: (nat \<times> registrar, string) process"
  have "json_ok (register_request_json run_registration)" "json_depth (register_request_json run_registration) \<le> 1"
    "length (json_text (register_request_json run_registration)) \<le> 1000"
    "Register 0 ''slack'' ''http://s'' True (NewRegistry (90 * second)) = (Inr True, run_registry)" by code_simp+
  then have read: "decode_body decode_register_request zero_register_request (rqBody ?req) = Some run_registration"
    and reg: "Register 0 ''slack'' ''http://s'' True (NewRegistry (90 * second)) = (Inr True, run_registry)"
    by (simp_all add: decode_body_text decode_register_request_json maxBodyBytes_def max_depth_def)
  have "main_server run_config run_externals ?req (psApp ?s) = (Some no_content, run_app (start_pool 1 1) 0)"
    unfolding main_server_def
    by (subst core_server_post)
      (use read reg in \<open>simp_all add: with_leader_def local_register_def RegisterBackend_def run_registration_simps
        start_process_def start_app_def run_app_def\<close>)
  from process_step.request [OF _ _ this]
  have "process_step run_config run_externals ?s (?s\<lparr>psApp := run_app (start_pool 1 1) 0, psAccepted := []\<rparr>)"
    by (simp add: taken_def takes_events_def start_process_def)
  then show ?thesis
    unfolding process_reachable_def by (intro exI [of _ 0] exI [of _ run_world] one_step)
      (simp add: run_state_def start_process_def init_sys_def)
qed

lemma run_submit_facts:
  "decode_body decode_event zero_event (rqBody run_submit) = Some created" "event_validate created = []"
  "takes_events run_config run_submit a"
proof -
  show "decode_body decode_event zero_event (rqBody run_submit) = Some created"
    using event_contract [OF created_on_wire_ok(1,2), unfolded created_on_wire_ok(3)] by (simp add: run_submit_def)
  show "event_validate created = []" by code_simp
qed (simp add: takes_events_def run_submit_def sample_request_def)

lemma run_accepts:
  "process_reachable run_config run_externals (run_state ((start_pool 1 1)\<lparr>plBuf := [created]\<rparr>) (init_sys 0) 0 [created])"
proof (rule process_reachable_run [OF run_registers one_step])
  let ?s = "run_state (start_pool 1 1) (init_sys 0) 0 []"
  have "try_send created (caPool (psApp ?s)) = Some ((start_pool 1 1)\<lparr>plBuf := [created]\<rparr>)"
    by (simp add: try_send_def start_pool_def RunWorkers_def)
  from local_submit [OF run_submit_facts(3,1,2) this, of run_externals]
    process_step.request [of ?s run_config run_externals run_submit accepted_response]
  show "process_step run_config run_externals ?s (run_state ((start_pool 1 1)\<lparr>plBuf := [created]\<rparr>) (init_sys 0) 0 [created])"
    by (simp add: run_state_def start_process_def run_app_def)
qed

lemma run_ingests: "process_reachable run_config run_externals (run_state sample_ingested (es_arrive run_ec created (init_sys 0)) 0 [created])"
proof (rule process_reachable_run [OF run_accepts])
  let ?p = "(start_pool 1 1)\<lparr>plBuf := [created]\<rparr>" and ?q = "(start_pool 1 1)\<lparr>plWorkers := [Busy created]\<rparr>"
  let ?s = "run_state ?p (init_sys 0) 0 [created]" and ?t = "run_state ?q (init_sys 0) 0 [created]"
  have ready: "plWorkers ?p = [] @ Ready # []" "plBuf ?p = created # []" by (simp_all add: start_pool_def RunWorkers_def)
  have "pool_step (caPool (psApp ?s)) [] ?q"
    using pool_step.take_event [OF ready] by (simp add: start_pool_def RunWorkers_def)
  then have "intake_step run_config (psApp ?s, psEngine ?s) ((psApp ?s)\<lparr>caPool := ?q\<rparr>, psEngine ?s)"
    by (rule intake_step.work) simp_all
  from process_step.intake [OF _ this, of run_externals]
  have take: "process_step run_config run_externals ?s ?t" by (simp add: run_state_def run_app_def start_process_def)
  have "plWorkers (caPool (psApp ?t)) = [] @ Busy created # []" by simp
  from process_step.intake [OF _ intake_step.ingest [OF this, where cfg = run_config and e = "psEngine ?t"], of run_externals]
  have "process_step run_config run_externals ?t (run_state sample_ingested (es_arrive run_ec created (init_sys 0)) 0 [created])"
    by (simp add: run_state_def run_app_def start_process_def sample_ingested_def start_pool_def RunWorkers_def)
  with take show "process_run run_config run_externals ?s
      (run_state sample_ingested (es_arrive run_ec created (init_sys 0)) 0 [created])"
    by (blast intro: process_run.intros)
qed

definition run_flushed :: "(nat \<times> registrar, string) process" where
  "run_flushed = (run_state sample_ingested (es_callback (''g'', 0) run_fired) (30 * second) [created])
     \<lparr>psJobs := [\<lparr>fjTodo = [(sample_key, [created])], fjStage = Idle\<rparr>]\<rparr>"

lemma run_flushes: "process_reachable run_config run_externals run_flushed"
proof (rule process_reachable_run [OF run_ingests])
  let ?e = "es_arrive run_ec created (init_sys 0)"
  let ?s = "run_state sample_ingested ?e 0 [created]" and ?t = "run_state sample_ingested run_ticked (30 * second) [created]"
  let ?u = "run_state sample_ingested run_fired (30 * second) [created]"
  have "intake_step run_config (psApp ?s, psEngine ?s) ((psApp ?s)\<lparr>caNow := caNow (psApp ?s) + 30 * second\<rparr>, es_tick (30 * second) (psEngine ?s))"
    by (rule intake_step.pass) (simp add: second_def)
  from process_step.intake [OF _ this, of run_externals]
  have pass: "process_step run_config run_externals ?s ?t"
    by (simp add: run_state_def run_app_def start_process_def run_ticked_def)
  have "run_timer \<in> set (clkArmed (es_clock run_ticked))" "tmDeadline run_timer \<le> clkNow (es_clock run_ticked)" by code_simp+
  then have "intake_step run_config (psApp ?t, psEngine ?t) (psApp ?t, es_expire run_timer run_ticked)"
    by (simp add: intake_step.expire)
  from process_step.intake [OF _ this, of run_externals]
  have expire: "process_step run_config run_externals ?t ?u" by (simp add: run_state_def start_process_def run_fired_def)
  have fired: "(''g'', 0) \<in> set (esInflight run_fired)"
    "snd (onTimerFire ''g'' 0 (esEngine run_fired)) = Some (''g'', [(''on-created'', [created])])"
    "sessionize run_ec ''g'' [(''on-created'', [created])] = [(sample_key, [created])]" by code_simp+
  have "starts_job run_ec (Some (''g'', [(''on-created'', [created])])) [\<lparr>fjTodo = [(sample_key, [created])], fjStage = Idle\<rparr>]"
    by (rule starts_job.batch [OF refl]) (simp add: fired(3))
  with process_step.callback [of ?u "(''g'', 0)" run_config _ run_externals] fired(1,2)
  have "process_step run_config run_externals ?u run_flushed" by (simp add: run_flushed_def run_state_def start_process_def)
  with pass expire show "process_run run_config run_externals ?s run_flushed" by (blast intro: process_run.intros)
qed

text \<open>The message, and the state after the call.\<close>

definition run_note :: notification where
  "run_note = (case Build [(''a'', created)] of Inl _ \<Rightarrow> \<lparr>nSummary = [], nItems = []\<rparr> | Inr n \<Rightarrow> n)"

text \<open>The message the flush goroutine is about to send, and what it needs to reach Slack.\<close>

definition run_job :: "upsert_local \<Rightarrow> ((nat \<times> registrar) core_app, string remote_error) flush_job" where
  "run_job ul = \<lparr>fjTodo = [], fjStage = Delivering sample_key ul [(sample_rk, [(''a'', created)])]
     (no_delivery (run_app sample_ingested (30 * second)))\<rparr>"

lemma run_stores:
  "\<exists>s ul. process_reachable run_config run_externals s \<and> \<not> psExited s \<and> psJobs s = [] @ run_job ul # [] \<and> ulRefs ul = [] \<and>
     psApp s = run_app sample_ingested (30 * second) \<and> psAccepted s = [created] \<and> psUpserted s = [(sample_key, [created])] \<and>
     psCalls s = []"
proof -
  let ?deps = "main_deps run_config run_externals" and ?a = "run_app sample_ingested (30 * second)"
  have flushed: "psJobs run_flushed = [] @ \<lparr>fjTodo = [(sample_key, [created])], fjStage = Idle\<rparr> # []" "\<not> psExited run_flushed"
    "psApp run_flushed = ?a" "psStore run_flushed = newSessionPublisher" "psAccepted run_flushed = [created]"
    "psUpserted run_flushed = []" "psCalls run_flushed = []" by (simp_all add: run_flushed_def)
  obtain ul sp where begun: "upsert_begin ?deps (caNow ?a) sample_key [created] newSessionPublisher = (ul, sp)" by force
  then have ul: "ulPerApp ul = [(''a'', created)]" "ulChanged ul" "ulRefs ul = []"
    by (auto simp: upsert_begin_def current_session_def newSessionPublisher_def Let_def sample_event_def)
  have groups: "groupAppsByBackendRecipient [(''a'', created)] = [(sample_rk, [(''a'', created)])]" by code_simp
  have "[(sample_rk, [(''a'', created)])] = (if ulChanged ul then groupAppsByBackendRecipient [(''a'', created)] else [])"
    using ul groups by simp
  then have first: "job_step run_config run_externals (?a, newSessionPublisher, \<lparr>fjTodo = [(sample_key, [created])], fjStage = Idle\<rparr>)
      [(sample_key, [created])] [] (?a, sp, run_job ul)"
    using ul unfolding run_job_def by (intro job_step.upsert_first [OF _ begun, where m = "[(''a'', created)]"]) simp_all
  from process_reachable_run [OF run_flushes one_step [OF process_step.job [OF flushed(2,1), unfolded flushed(3,4), OF first]]]
  show ?thesis using flushed ul(3) by (intro exI [of _ "run_flushed\<lparr>psApp := ?a, psStore := sp, psJobs := [] @ run_job ul # [],
      psUpserted := psUpserted run_flushed @ [(sample_key, [created])], psCalls := psCalls run_flushed @ []\<rparr>"] exI [of _ ul]) simp
qed

lemma run_message_facts:
  "Build [(''a'', created)] = Inr run_note" "\<not> has_suffix ''http://s'' ''/''" "cuts_clean created" "utf8_valid ''C|17''"
  "clean_notification run_note = run_note" "within_limit ''ops'' [] run_note"
proof -
  show "Build [(''a'', created)] = Inr run_note" unfolding run_note_def by code_simp
  show "\<not> has_suffix ''http://s'' ''/''" "utf8_valid ''C|17''" by code_simp+
  show "cuts_clean created" by (rule cuts_clean_ascii) (code_simp, code_simp)
  have "notification_utf8 run_note" by code_simp
  then show "clean_notification run_note = run_note" by (rule clean_notification_valid)
  have "length (json_text (notify_request_json \<lparr>nqNotification = toWireNotification run_note, nqRecipient = ''ops'', nqRef = []\<rparr>)) \<le> 1000"
    by code_simp
  then show "within_limit ''ops'' [] run_note" by (simp add: within_limit_def maxBodyBytes_def)
qed

lemma run_backend:
  "Lookup (caNow (run_app p (30 * second))) (rkBackend sample_rk) (caRegistry (run_app p (30 * second))) =
     Some \<lparr>rbName = ''slack'', rbBaseURL = ''http://s'', rbSupportsThreadReply = True, rbLastSeen = 0\<rparr>"
  "resolves_dot (exResolveURL run_externals) ''http://s''"
  "exDo run_externals = network ''lost'' (hsHandler (srServer run_slack)) ''http://s''"
  "caWorld (run_app p now) = (0, srRegistrar run_slack)"
proof -
  have "Lookup (30 * second) ''slack'' run_registry =
      Some \<lparr>rbName = ''slack'', rbBaseURL = ''http://s'', rbSupportsThreadReply = True, rbLastSeen = 0\<rparr>" by code_simp
  then show "Lookup (caNow (run_app p (30 * second))) (rkBackend sample_rk) (caRegistry (run_app p (30 * second))) =
     Some \<lparr>rbName = ''slack'', rbBaseURL = ''http://s'', rbSupportsThreadReply = True, rbLastSeen = 0\<rparr>"
    by (simp add: run_app_def sample_rk_def)
qed (simp_all add: run_externals_def resolves_dot_def run_app_def run_world_def)

lemma run_posts: "posted (Post (srClient run_slack) 0 recipient n) = (Inr ''C|17'', 0)"
  by (simp add: run_slack_starts(2) sample_post(1) posted_def clean_string_valid [OF run_message_facts(4)])

lemma run_calls:
  assumes "ulRefs ul = []" and "job_step run_config run_externals (run_app sample_ingested (30 * second), sp, run_job ul) ups cs (a, sp', j)"
  shows "ups = [] \<and> cs = [(sample_key, Notified sample_rk [] run_note (Inr ''C|17''))]"
proof -
  let ?a = "run_app sample_ingested (30 * second)"
  obtain d' where d': "deliver_group (main_deps run_config run_externals) (ulRefs ul) (sample_rk, [(''a'', created)]) ((no_delivery ?a)\<lparr>dWorld := ?a\<rparr>) = d'"
    "cs = map (Pair sample_key) (new_calls (no_delivery ?a) d')" "ups = []"
    using assms(2) unfolding run_job_def by cases auto
  have "utf8_valid ''ops''" "utf8_valid []" by code_simp+
  then have "remote_notify (outside_env run_externals ?a) (rkBackend sample_rk) (caWorld ?a) ''ops'' [] run_note =
      (Inr ''C|17'', (0, srRegistrar run_slack))"
    using notify_started_slack [OF run_slack_starts(1) [unfolded run_slack_main_def] run_backend(1) _ _ _ _ _ run_message_facts(6) run_backend(4),
        of run_externals "''lost''"] run_message_facts(2) run_backend(2,3)
    by (simp add: run_posts)
  with deliver_registered [OF run_message_facts(1) run_backend(1) _ d'(1)] d'(2,3) assms(1)
  show ?thesis by (simp add: sample_rk_def gget_def)
qed

lemma run_sends:
  "\<exists>s. process_reachable run_config run_externals s \<and> psAccepted s = [created] \<and> psUpserted s = [(sample_key, [created])] \<and>
     psCalls s = [(sample_key, Notified sample_rk [] run_note (Inr ''C|17''))]"
proof -
  obtain s ul where s: "process_reachable run_config run_externals s" "\<not> psExited s" "psJobs s = [] @ run_job ul # []" "ulRefs ul = []"
    "psApp s = run_app sample_ingested (30 * second)" "psAccepted s = [created]" "psUpserted s = [(sample_key, [created])]" "psCalls s = []"
    using run_stores by blast
  have "fjStage (run_job ul) \<noteq> Idle" by (simp add: run_job_def)
  from stage_moves [OF this, of run_config run_externals "psApp s" "psStore s"] obtain cs a sp j
    where step: "job_step run_config run_externals (psApp s, psStore s, run_job ul) [] cs (a, sp, j)" by blast
  with run_calls [OF s(4)] s(5) have "cs = [(sample_key, Notified sample_rk [] run_note (Inr ''C|17''))]" by simp
  with process_reachable_run [OF s(1) one_step [OF process_step.job [OF s(2,3) step]]] s(6-8) show ?thesis by force
qed

section \<open>The properties on the sample run\<close>

lemma process_accounts_for_events_witness:
  "mset (arrived_of ''g'' ''on-created'' [created]) =
     mset (waiting_of ''g'' ''on-created'' (esEngine (es_arrive run_ec created (init_sys 0))))"
  using process_accounts_for_events [OF run_ingests, of "''g''" "''on-created''"]
  by (simp add: arrived_of_def sample_ingested_def start_pool_def RunWorkers_def)

lemma messages_from_accepted_events_witness:
  "\<exists>m. m \<noteq> [] \<and> Build m = Inr run_note \<and> (\<forall>(a, ev) \<in> set m. ev = created \<and> routed sample_rk ev)"
proof -
  obtain s where s: "process_reachable run_config run_externals s" "psAccepted s = [created]"
    "psCalls s = [(sample_key, Notified sample_rk [] run_note (Inr ''C|17''))]" using run_sends by blast
  from messages_from_accepted_events [OF s(1)] s(2,3) show ?thesis by auto
qed

lemma process_types_witness:
  "event_ok created \<and> utf8_valid (rkRecipient sample_rk) \<and> notification_utf8 run_note"
proof -
  have clean: "cuts_clean created" by (rule cuts_clean_ascii) (code_simp, code_simp)
  obtain s where s: "process_reachable run_config run_externals s" "psAccepted s = [created]"
    "psCalls s = [(sample_key, Notified sample_rk [] run_note (Inr ''C|17''))]" using run_sends by blast
  from process_types [OF s(1)] s(2,3) clean show ?thesis by auto
qed

lemma process_refines_notifier_witness:
  "\<exists>now (n :: string remote_error notifier) v. notifier_run (process_spec run_config run_externals) (start_notifier now) n \<and>
     nfPending n = {#} \<and> nfStored n = [(sample_key, [created], v)] \<and>
     nfCalls n = [(sample_key, Notified sample_rk [] run_note (Inr ''C|17''))]"
proof -
  obtain s where s: "process_reachable run_config run_externals s" "psAccepted s = [created]"
    "psUpserted s = [(sample_key, [created])]"
    "psCalls s = [(sample_key, Notified sample_rk [] run_note (Inr ''C|17''))]" using run_sends by blast
  from process_refines_notifier [OF s(1)] obtain now n where
    "notifier_run (process_spec run_config run_externals) (start_notifier now) n" "implements s n" by blast
  with s(2-4) show ?thesis by (intro exI [of _ now] exI [of _ n]) (auto simp: implements_def map_eq_Cons_conv)
qed


lemma deliveries_reach_slack_witness:
  "\<exists>s ul a sp j. process_reachable run_config run_externals s \<and> psJobs s = [run_job ul] \<and>
     job_step run_config run_externals (psApp s, psStore s, run_job ul) []
       [(sample_key, Notified sample_rk [] run_note (Inr ''C|17''))] (a, sp, j) \<and> caWorld a = (0, srRegistrar run_slack)"
proof -
  obtain s ul where s: "process_reachable run_config run_externals s" "psJobs s = [] @ run_job ul # []" "ulRefs ul = []"
    "psApp s = run_app sample_ingested (30 * second)" "psAccepted s = [created]" using run_stores by blast
  have stage: "fjStage (run_job ul) = Delivering sample_key ul ((sample_rk, [(''a'', created)]) # []) (no_delivery (psApp s))"
    by (simp add: run_job_def s(4))
  then have "fjStage (run_job ul) \<noteq> Idle" by simp
  from stage_moves [OF this, of run_config run_externals "psApp s" "psStore s"] obtain cs a sp j
    where step: "job_step run_config run_externals (psApp s, psStore s, run_job ul) [] cs (a, sp, j)" by blast
  have "run_job ul \<in> set (psJobs s)" by (simp add: s(2))
  from deliveries_reach_slack [OF s(1) this stage step run_slack_starts(1) [unfolded run_slack_main_def] run_backend(1) [of sample_ingested, folded s(4)],
      of "''lost''" 0 "srRegistrar run_slack"]
  have "cs = [(sample_key, Notified sample_rk [] run_note (Inr ''C|17''))] \<and> caWorld a = (0, srRegistrar run_slack)"
    using run_message_facts(1,2,5,6) run_backend(2-4) s(3,4) by (auto simp: gget_def Let_def run_posts sample_rk_def)
  with s(1,2) step show ?thesis by (intro exI [of _ s] exI [of _ ul] exI [of _ a] exI [of _ sp] exI [of _ j]) simp
qed

lemma process_can_deliver_all_witness:
  "\<exists>s. process_reachable run_config run_externals s \<and> psJobs s = [] \<and> mset (batch_events (psUpserted s)) = {#created#}"
proof -
  let ?s = "run_state ((start_pool 1 1)\<lparr>plBuf := [created]\<rparr>) (init_sys 0) 0 [created]"
  from process_can_deliver_all [OF run_accepts] process_reachable_run [OF run_accepts]
  show ?thesis by (force simp: start_pool_def RunWorkers_def)
qed

lemma shutdown_drops_accepted_witness:
  "\<exists>s. process_reachable run_config run_externals s \<and> psExited s \<and> psAccepted s = [created] \<and> psUpserted s = [] \<and> psCalls s = []"
proof -
  let ?s = "run_state (start_pool 1 1) (init_sys 0) 0 []"
  from shutdown_drops_accepted [of ?s, OF _ _ run_submit_facts(3,1,2)] obtain t s'
    where "process_run run_config run_externals ?s t" "process_run run_config run_externals t s'" "psExited s'"
      "psAccepted s' = [created]" "psUpserted s' = []" "psCalls s' = []"
    by (force simp: start_pool_def RunWorkers_def)
  with process_reachable_run [OF run_registers] show ?thesis by (blast intro: process_run_trans)
qed

section \<open>The properties of the start\<close>

definition sample_kube :: "(unit, unit, string, nat) kube" where
  "sample_kube = \<lparr>kuInClusterConfig = Inr (), kuNewForConfig = (\<lambda>r. Inr ()), kuNewLeaderElector = (\<lambda>c cfg. Inr 0)\<rparr>"

lemma core_main_panics_on_valid_config:
  "core_main (config_load (Inr (sample_config\<lparr>cfIngestQueueSize := -1\<rparr>) :: string + config) None) sample_kube run_externals listens now w = Panics \<and>
   config_validate (sample_config\<lparr>cfIngestQueueSize := -1\<rparr>) = []"
proof -
  have valid: "config_validate (sample_config\<lparr>cfIngestQueueSize := -1\<rparr>) = []"
    and pod: "cfPodName (sample_config\<lparr>cfIngestQueueSize := -1\<rparr>) \<noteq> []" by code_simp+
  have "config_load (Inr (sample_config\<lparr>cfIngestQueueSize := -1\<rparr>) :: string + config) None = Inr (sample_config\<lparr>cfIngestQueueSize := -1\<rparr>)"
    using valid pod by (simp add: config_load_def Let_def)
  with valid show ?thesis by (simp add: core_main_cases)
qed

definition profiled_config :: config where
  "profiled_config = sample_config\<lparr>cfPprofEnabled := True\<rparr>"

lemma pprof_is_apart_witness:
  "main_server profiled_config run_externals (sample_request\<lparr>rqURL := ''/debug/pprof/heap''\<rparr>) (run_app sample_ingested 0) =
     (Some (http_error ''404 page not found'' 404), run_app sample_ingested 0)"
proof -
  have facts: "config_validate profiled_config = []" "cfPodName profiled_config \<noteq> []" "\<not> cfIngestQueueSize profiled_config < 0"
    "cfPprofEnabled profiled_config" "startLeaderElection sample_kube profiled_config \<noteq> None" by code_simp+
  have "mux_lookup (hsHandler (startPprof (cfPprofAddr profiled_config))) ''/debug/pprof/heap'' \<noteq> None" by code_simp
  then have served: "mux_lookup (hsHandler (startPprof (cfPprofAddr profiled_config))) (rqURL (sample_request\<lparr>rqURL := ''/debug/pprof/heap''\<rparr>)) \<noteq> None"
    by simp
  have loaded: "config_load (Inr profiled_config :: string + config) None = Inr profiled_config"
    using facts(1,2) by (simp add: config_load_def Let_def)
  obtain st where st: "core_main (config_load (Inr profiled_config :: string + config) None) sample_kube run_externals (\<lambda>a. True) 0 run_world = Runs st"
    "crPprof st = Some (startPprof (cfPprofAddr profiled_config))" "hsHandler (crServer st) = main_server profiled_config run_externals"
    using facts(3-5) by (simp add: loaded core_main_cases)
  from pprof_is_apart [OF st(1,2) served, of "run_app sample_ingested 0"] st(3) show ?thesis by simp
qed

lemma core_main_outcome_witness:
  "\<exists>st. core_main (config_load (Inr profiled_config :: string + config) None) sample_kube run_externals (\<lambda>a. True) 0 run_world = Runs st \<and>
     crProcess st = start_process profiled_config 0 run_world \<and> process_reachable profiled_config run_externals (crProcess st)"
proof -
  have facts: "config_validate profiled_config = []" "cfPodName profiled_config \<noteq> []" "0 \<le> cfIngestQueueSize profiled_config"
    "startLeaderElection sample_kube profiled_config \<noteq> None" by code_simp+
  have loaded: "config_load (Inr profiled_config :: string + config) None = Inr profiled_config"
    using facts(1,2) by (simp add: config_load_def Let_def)
  let ?main = "core_main (config_load (Inr profiled_config :: string + config) None) sample_kube run_externals (\<lambda>a. True) 0 run_world"
  note outcome = core_main_outcome [of "Inr profiled_config :: string + config" None sample_kube run_externals "\<lambda>a. True" 0 run_world,
      unfolded Let_def]
  from outcome facts(3,4) loaded obtain st where st: "?main = Runs st" by auto
  with outcome loaded have "crConfig st = profiled_config" by auto
  with outcome st show ?thesis by (intro exI [of _ st]) auto
qed

lemma slack_main_outcome_witness:
  "\<exists>st. slack_main (Inr sample_backend_config :: unit + backend_config) (\<lambda>s. s) sample_resolve no_exchange no_exchange
        (\<lambda>w :: nat. NewTemplateWatcher True :: string watcher) (\<lambda>u. True) (\<lambda>w req. (Inl (), w)) (\<lambda>d w. (True, w)) (\<lambda>a. True) = Runs st \<and>
      fst (hsHandler (srServer st) (sample_request\<lparr>rqURL := ''/readyz''\<rparr>) (0, srRegistrar st)) = Some (write_status 503)"
proof -
  have template: "bcMessageTemplatePath sample_backend_config = []" by code_simp
  define res where "res = slack_main (Inr sample_backend_config :: unit + backend_config) (\<lambda>s. s) sample_resolve no_exchange no_exchange
        (\<lambda>w :: nat. NewTemplateWatcher True :: string watcher) (\<lambda>u. True) (\<lambda>w req. (Inl (), w)) (\<lambda>d w. (True, w)) (\<lambda>a. True)"
  have "case res of Exits code \<Rightarrow> code = 1 \<and> (\<exists>err. (Inr sample_backend_config :: unit + backend_config) = Inl err)
    | Panics \<Rightarrow> False
    | Runs st \<Rightarrow> HasRegistered (srRegistrar st) = False \<and>
        fst (hsHandler (srServer st) (sample_request\<lparr>rqURL := ''/readyz''\<rparr>) (0, srRegistrar st)) =
          Some (write_status (if HasRegistered (srRegistrar st) then 200 else 503))"
    using slack_main_outcome [of "Inr sample_backend_config :: unit + backend_config" "\<lambda>s. s" sample_resolve no_exchange no_exchange
        "\<lambda>w :: nat. NewTemplateWatcher True :: string watcher" "\<lambda>u. True" "\<lambda>w req. (Inl (), w)" "\<lambda>d w. (True, w)" "\<lambda>a. True"]
    unfolding res_def [symmetric]
    by (cases res) (auto simp: NewRegistrar_def HasRegistered_def)
  then show ?thesis unfolding res_def [symmetric] by (cases res) auto
qed

end
