(* ===== verification/Contract.thy ===== *)
theory Contract
  imports ApiServer
begin

text \<open>
  What remains of the generated packages \<open>api/core\<close> and \<open>api/backendapi\<close>: the methods of the response
  types, the interfaces of the clients with responses, the errors of parameters, the embedded
  specification. The last section states the published contract as data, the operations and the
  statuses each may answer with, and shows what of it the two servers keep.
\<close>

section \<open>The methods of the response types\<close>

text \<open>What the methods of a response return; \<open>HTTPResponse\<close> is nil in a zero value.\<close>

record response_view =
  rvBody :: string
  rvStatus :: string
  rvStatusCode :: int
  rvContentType :: string

definition SubmitEventResponse_methods :: "'e parsed_response \<Rightarrow> response_view" where
  "SubmitEventResponse_methods r = \<lparr>rvBody = prBody r, rvStatus = response_Status r,
     rvStatusCode = response_StatusCode r, rvContentType = response_ContentType r\<rparr>"

definition HealthzResponse_methods :: "'e parsed_response \<Rightarrow> response_view" where
  "HealthzResponse_methods r = \<lparr>rvBody = prBody r, rvStatus = response_Status r,
     rvStatusCode = response_StatusCode r, rvContentType = response_ContentType r\<rparr>"

definition ReadyzResponse_methods :: "'e parsed_response \<Rightarrow> response_view" where
  "ReadyzResponse_methods r = \<lparr>rvBody = prBody r, rvStatus = response_Status r,
     rvStatusCode = response_StatusCode r, rvContentType = response_ContentType r\<rparr>"

definition RegisterBackendResponse_methods :: "'e parsed_response \<Rightarrow> response_view" where
  "RegisterBackendResponse_methods r = \<lparr>rvBody = prBody r, rvStatus = response_Status r,
     rvStatusCode = response_StatusCode r, rvContentType = response_ContentType r\<rparr>"

definition ThreadReplyResponse_methods :: "'e parsed_response \<Rightarrow> response_view" where
  "ThreadReplyResponse_methods r = \<lparr>rvBody = prBody r, rvStatus = response_Status r,
     rvStatusCode = response_StatusCode r, rvContentType = response_ContentType r\<rparr>"

definition NotifyResponse_methods :: "'e notify_response \<Rightarrow> notify_result option \<times> response_view" where
  "NotifyResponse_methods r = (nsJSON200 r, \<lparr>rvBody = prBody r, rvStatus = response_Status r,
     rvStatusCode = response_StatusCode r, rvContentType = response_ContentType r\<rparr>)"

section \<open>The clients with responses\<close>

record ('w, 'e) core_responses =
  crSubmitEventWithBody :: "string \<Rightarrow> string \<Rightarrow> ('w, 'e) request_editor list \<Rightarrow> 'w \<Rightarrow> ('w, 'e, 'e parsed_response) call_outcome"
  crSubmitEvent :: "core_event \<Rightarrow> ('w, 'e) request_editor list \<Rightarrow> 'w \<Rightarrow> ('w, 'e, 'e parsed_response) call_outcome"
  crHealthz :: "('w, 'e) request_editor list \<Rightarrow> 'w \<Rightarrow> ('w, 'e, 'e parsed_response) call_outcome"
  crReadyz :: "('w, 'e) request_editor list \<Rightarrow> 'w \<Rightarrow> ('w, 'e, 'e parsed_response) call_outcome"
  crRegisterBackendWithBody :: "string \<Rightarrow> string \<Rightarrow> ('w, 'e) request_editor list \<Rightarrow> 'w \<Rightarrow> ('w, 'e, 'e parsed_response) call_outcome"
  crRegisterBackend :: "register_request \<Rightarrow> ('w, 'e) request_editor list \<Rightarrow> 'w \<Rightarrow> ('w, 'e, 'e parsed_response) call_outcome"

definition core_responses_of :: "('w, 'e) core_client \<Rightarrow> ('w, 'e) core_responses" where
  "core_responses_of c =
     \<lparr>crSubmitEventWithBody = SubmitEventWithBodyWithResponse c, crSubmitEvent = SubmitEventWithResponse c,
      crHealthz = HealthzWithResponse c, crReadyz = ReadyzWithResponse c,
      crRegisterBackendWithBody = RegisterBackendWithBodyWithResponse c, crRegisterBackend = RegisterBackendWithResponse c\<rparr>"

record ('w, 'e) backend_responses =
  brNotifyWithBody :: "string \<Rightarrow> string \<Rightarrow> ('w, 'e) request_editor list \<Rightarrow> 'w \<Rightarrow> ('w, 'e, 'e notify_response) call_outcome"
  brNotify :: "notify_request \<Rightarrow> ('w, 'e) request_editor list \<Rightarrow> 'w \<Rightarrow> ('w, 'e, 'e notify_response) call_outcome"
  brThreadReplyWithBody :: "string \<Rightarrow> string \<Rightarrow> ('w, 'e) request_editor list \<Rightarrow> 'w \<Rightarrow> ('w, 'e, 'e parsed_response) call_outcome"
  brThreadReply :: "thread_reply_request \<Rightarrow> ('w, 'e) request_editor list \<Rightarrow> 'w \<Rightarrow> ('w, 'e, 'e parsed_response) call_outcome"

definition backend_responses_of :: "('w, 'e) backend_client \<Rightarrow> ('w, 'e) backend_responses" where
  "backend_responses_of c =
     \<lparr>brNotifyWithBody = NotifyWithBodyWithResponse c, brNotify = NotifyWithResponse c,
      brThreadReplyWithBody = ThreadReplyWithBodyWithResponse c, brThreadReply = ThreadReplyWithResponse c\<rparr>"

section \<open>Errors of parameters\<close>

datatype 'e param_error =
    UnescapedCookieParamError string 'e
  | UnmarshalingParamError string 'e
  | RequiredParamError string
  | RequiredHeaderError string 'e
  | InvalidParamFormatError string 'e
  | TooManyValuesForParamError string nat

fun param_Error :: "('e \<Rightarrow> string) \<Rightarrow> 'e param_error \<Rightarrow> string" where
  "param_Error err (UnescapedCookieParamError p e) = ''error unescaping cookie parameter '' @ [CHR 0x27] @ p @ [CHR 0x27]"
| "param_Error err (UnmarshalingParamError p e) = ''Error unmarshaling parameter '' @ p @ '' as JSON: '' @ err e"
| "param_Error err (RequiredParamError p) = ''Query argument '' @ p @ '' is required, but not found''"
| "param_Error err (RequiredHeaderError p e) = ''Header parameter '' @ p @ '' is required, but not found''"
| "param_Error err (InvalidParamFormatError p e) = ''Invalid format for parameter '' @ p @ '': '' @ err e"
| "param_Error err (TooManyValuesForParamError p n) = ''Expected one value for '' @ p @ '', got '' @ itoa n"

fun param_Unwrap :: "'e param_error \<Rightarrow> 'e option" where
  "param_Unwrap (UnescapedCookieParamError p e) = Some e"
| "param_Unwrap (UnmarshalingParamError p e) = Some e"
| "param_Unwrap (RequiredHeaderError p e) = Some e"
| "param_Unwrap (InvalidParamFormatError p e) = Some e"
| "param_Unwrap _ = None"

section \<open>The embedded specification\<close>

text \<open>
  The specification is embedded as JSON, compressed with deflate and written in base64. The two
  decoders and the loader of kin-openapi are parameters: reading a stream yields its bytes, and
  closing it may fail on its own.
\<close>

datatype 'e spec_error = Base64Failed 'e | FlateReadFailed 'e | FlateCloseFailed 'e | PathNotFound string | LoadFailed 'e

record ('e, 't) spec_libs =
  slBase64 :: "string \<Rightarrow> 'e + string"
  slFlateRead :: "string \<Rightarrow> 'e + string"
  slFlateClose :: "string \<Rightarrow> 'e option"
  slLoadFromData :: "bool \<Rightarrow> (string \<Rightarrow> 'e spec_error + string) \<Rightarrow> string \<Rightarrow> 'e spec_error + 't"

definition core_swaggerSpec :: "string list" where
  "core_swaggerSpec = [
    ''tFfNjtzGEX6VAh3AWmCGM5Kcyxo57MZGrESWFrtScoiDuIddJFtqdlFVxVkxwgJ5iDxhniTobs7fDtfQ'',
    ''Jach2D3181XVVx+/FBV1PQUMKsXll0KqFjuTHn/cYtD4YFEqdr06CsVl8bNjJhZwQZGD8SuM98p0G/Cz'',
    ''qdSP8N9//we0dQJOQFuEe8cIFQVlUyncO23hihv64w/fCgRSV7vKRPuyxNC4gHCPm5boI2zIjot4BQzo'',
    ''2CN00a+Fmjg7kB6rBQhB7dBbCKZDWUlr4tVBFETNCC6AjKHKjrU9mFfsem8UgUJ6n4MCcRbhmSCCpUpW'',
    ''gjr0ZWcvymJR9Ew9sjpMIJm+f2M6jI8xvOKyEGUXmuJhURhuqLLv2c+ebkz1EYM9B/hvrataYGycKDJa'',
    ''mG7mfBPawDQoCiiV8IbAYm0Grwl1xk+DY7Qx1DOfDdPQ/wXHc6d/NX5AoDqhUFGoXTNE33+6ffv+5p+v'',
    ''r65/fJ3Nk/c0qIC0JlrNQRlGME3D2JhYHKUGtUWejaFF47W9U6ODzALjOtNkcJ1iN39nemGYzZj+E5y6'',
    ''6Pt6nL3vzQZ9Lpi1LuZs/M1JIZ9yQZsPWGl8EW+nJv0ZRUwzX3PGyvVudnBuzT2U+3PYJsRrpi5hLsMm'',
    ''Xt4gmBBIk6OEuGDnKvIUlh/IBbRQtSYE9LJSww2qzKLM2NP729dPxLh1kmKaOYxzctMawSdPf6N0OaLf'',
    ''OLo9cn2Kzrs4fX3vJyL4Vo67UGjgCmEXODzDsinBQOMU1DSrDZtQteDdR4Rfiu26fPG8XP9SXCQArRN1'',
    ''odKM9c7GAu7TnE0ExSjktxFd6jqncPfTFZhj29XAjCFyW08uqIDRWeCVXdMgP5FgppdjxoPpD4m5FpAS'',
    ''o7C02HsaZ8c4VTAPeXH598NML/ZkdIjiqNjHvXlgn3/MNPrtRD3X+c4tfhpQUlVPuW9jBKceO0312giC'',
    ''sZZRZCIURqiM95LIDCiU8G733vQ9Bpsv1u5zLPdQxweBVUJqBBMsrLRlNHbJ2PsRnAr6OteX0n5wofKD'',
    ''xWimgxYZF+lvj04NKBvnI3OJN9LO1jBMjH5ewB0VxxuZiiVzMSjBs85o1WLO5Nfp6q/TYsrLYJlLjwz4'',
    ''Oe1CyV3pQkVdDGrqkGz6YjY6GfqeWOVdwuM2wjG3RBIDZ3reRS3IWxS4eXv3Dr5M1Xs4wbWEVzXUxgsu'',
    ''DoW7d97nFaxxXyrYIc8pXlXR3R+yBTCNcUH0xOdRBhsijyacNXDILbvrpvkEz/v0IdF+Tee538U0LWzG'',
    ''x6AnUmGEnqlCkdQ9uEUeAYNNYw0uapieBGUBDQbkuFSWCTheWnZbDJB2MaWfg0Zg7EhxOaUtO7WgTn3e'',
    ''VKflT3Fc3bwqFsUWOVNi8bxcl+tp1QTTu+KyeFmuy5dRdRht09BluZUee8pTuV9Mr2zMfth0TrN4y0Cj'',
    ''6DXZ1CRRgk3LyRzIdvVBKBzUX3z6HWNdXBbfrA7ycJVPZZVtP5zWUXnA9EJ6CpIJ4sX6xXl1rqoKe0Wb'',
    ''phPDpwGHSHMPi+K79XpGbhpfE3do4c93b98sgBjMXuRMs+UEOifiQpPs/H798tzOq9CgKCR38Q/14P33'',
    ''wKg8ZlkYK0d1Xab+lKHrDI97OIHCnr2PttSevLMGhh+wIot2EZe7s7F1FidpJtlqcUNDqNDuJdNu1YfY'',
    ''jLDxVH0UoACW7oMoo+n2I2zRu9ixSfLuJXRcyy1ToEH20jbSbcxv4CBQG9Gc2Srrr39FhBqc6Z+fpvOz'',
    ''Ws4U5yoG8xix13FIUCSO2QZLuPL3ZhR4sV6Dy/pyN39OYOinsOKoj09HdZuPvyaodDUOKGOFbouR8eva'',
    ''VU/3xhtSSP4nYRG5LrFf3vng0Vjki8eJRkduJtNsikKF59kuIFacrY9vqJ5MS+v61AGpE/M7QI+JXgGD'',
    ''2fjUShAoLKfjmvjesBWYRlxiytHfdO6CaGRlqoGxHiSL9Wk3lnC3Iy6L4ppQdvab1jXt0myN82bjvNNx'',
    ''Ks32+WpHa6vdZ8nT/PNIPfyfOOgJjfJVpPTdXM/sv7aeEUOLhnWDRiN0jNKivfgaipoyPW+UbD0xV1wT'',
    ''pwpwAjdx2+QPnMpRFLE14jwfPrjiqj18zkqUI0mT7OIVcPp9POPEdoFAsDdsFI/M7rZejPfh4X8DAA=='']"

definition backendapi_swaggerSpec :: "string list" where
  "backendapi_swaggerSpec = [
    ''zFXdahxHE32VYr4PnMBqVomdm/WVRBIicBwjyWAIuaidrt1pq6e7XVUjaRELeYg8YZ4kdPfsn3cki5BA'',
    ''rjTarj5VderU6YeqCV0MnrxKNXuopGmpw/z5oyVn0kfkEInVUv7Z4Zxc+tBVpGpWibL1y2o9qW7R9TRy'',
    ''sp5UTJ96y2Sq2a8DwCb8t8kmPMw/UqMJ6EKpO06MMb7FjkZTN64XJR4/C11n9eqnsydO31++GT01pGjd'',
    ''Nd3r6PEiUZSLs0pd/vg/06KaVf+b7nidDqROC6PrbcfIjKv0v+1wSYc4R7k+v+OsvxkPRF6SXtKtFRv8'',
    ''eAjb5ZL4qTMy56svz3Izk90EduBjk30b1C5sgzpUdjjhbfPPYjOrZIQY6bsO+RnFbwInQ75HC15d0qee'',
    ''RI8r9p/181S9B73nUhobLflxaWWgh8qQNGxjwa9+6KKuoCP0AjGIgqe71+CDP6G9E+UVaAAyVkFbK9CR'',
    ''CC6priZfYGRX0uSwtVLPUwRJ70b4Ge3iwpBP2CSgLQHnu9YvN3XCIjAgLHrtmUobqJo6rOEcmxvyJt1E'',
    ''hQb9Cx0i/ErbBCJt6J0BJu3ZJxgmaSGbDdAt8QoadO51Tt0EJjCBBHxQUCYcGEMB9EDMgZ/D2jg11y0T'',
    ''mkuK7nEB/Q0RXLe0ZUoDcMKH3hsaK3VS6bh5PTH5lHW4d9xWumj9IhzXdUV8SwbmK0Bg6oIS7GsI5mV0'',
    ''E0CFuxY1DQPmKPT+8g1YBaalFSUmA3dWW0BehsacFAziF1LG9ZUQAUY7Tf9NQySP0dYr7NzXNVxvhppm'',
    ''nOUlBORNDNarlKEPdYDPBWwDyz26byhq4bWUM20JWeeEWsMVJbk0MkVjrF+e4MkAVncmk2/VFS86KH2b'',
    ''8uzdRXr4iIszV9/Up/VpGtLQRjWrXtan9ctqUkXUNitkmlGynaWVT3+TgDKnF6aaDRtYlXmS6HkwOboJ'',
    ''XgdhYYxuGMP0oxSrKrb0LNPaynd9KBvlnvIPEoOXIuhvT0//8eTZW3LuQ8V9T87eJsHUicNXJfNhyM/o'',
    ''FoE7SoaQe8ih3334cBw6oK1ggdaR2XOIbAxSnMHZG0pmA0FbYlBGL2lv8q2eqc6rtX2DNqiAB8tQw5mH'',
    ''4tlMi31Hx+Tpm/1+Dbjn7rvIfRkPfndo+qgbCLAeosOGwC7SljXo4c/f/ziAMNRYQwJtuEsYLXrjCLKp'',
    ''boxUdiubymCKTJKGtWfhE7hrbdPueBMNTJJRIoqQ5IwQfA7xdK95/bLfp18EOwIhSdsx3TpSYXSq2U1P'',
    ''st09vgx7nvsvbcSIqz9rLV4dKy6D5LH/pyX8ruhS2sC6/9zkJ/Leyv7bXcMv3pUnlgzgEq0X3QhteLUN'',
    ''NQ6TzUsfY2CVPUpnkNhLT0Tx3zLaVNF6/dcA'']"

definition decodeSpec :: "('e, 't) spec_libs \<Rightarrow> string list \<Rightarrow> 'e spec_error + string" where
  "decodeSpec libs swaggerSpec =
     (case slBase64 libs (concat swaggerSpec) of
        Inl e \<Rightarrow> Inl (Base64Failed e)
      | Inr compressed \<Rightarrow>
          (case slFlateRead libs compressed of
             Inl e \<Rightarrow> Inl (FlateReadFailed e)
           | Inr buf \<Rightarrow>
               (case slFlateClose libs compressed of Some e \<Rightarrow> Inl (FlateCloseFailed e) | None \<Rightarrow> Inr buf)))"

text \<open>The cache is filled when the package is initialised; its function returns what it holds.\<close>

definition decodeSpecCached :: "('e, 't) spec_libs \<Rightarrow> string list \<Rightarrow> unit \<Rightarrow> 'e spec_error + string" where
  "decodeSpecCached libs swaggerSpec = (let data = decodeSpec libs swaggerSpec in (\<lambda>u. data))"

definition PathToRawSpec :: "(unit \<Rightarrow> 'e spec_error + string) \<Rightarrow> string \<Rightarrow> (string, unit \<Rightarrow> 'e spec_error + string) gomap" where
  "PathToRawSpec rawSpec pathToFile = (if 0 < length pathToFile then [(pathToFile, rawSpec)] else [])"

text \<open>\<open>path.Clean\<close>: the elements that are kept, last first.\<close>

fun clean_elements :: "bool \<Rightarrow> string list \<Rightarrow> string list \<Rightarrow> string list" where
  "clean_elements rooted [] kept = kept"
| "clean_elements rooted (p # ps) kept =
     clean_elements rooted ps
       (if p = [] \<or> p = ''.'' then kept
        else if p = ''..'' then
          (case kept of
             [] \<Rightarrow> if rooted then [] else [''..'']
           | q # kept' \<Rightarrow> if q = ''..'' then ''..'' # kept else kept')
        else p # kept)"

definition path_Clean :: "string \<Rightarrow> string" where
  "path_Clean p =
     (let rooted = (case p of [] \<Rightarrow> False | c # _ \<Rightarrow> c = CHR ''/'');
          cleaned = (if rooted then ''/'' else []) @ join ''/'' (rev (clean_elements rooted (split_on (CHR ''/'') p) []))
      in if cleaned = [] then ''.'' else cleaned)"

definition readFromURI :: "(string, unit \<Rightarrow> 'e spec_error + string) gomap \<Rightarrow> string \<Rightarrow> 'e spec_error + string" where
  "readFromURI resolvePath url =
     (let pathToFile = path_Clean url
      in case map_of resolvePath pathToFile of
           None \<Rightarrow> Inl (PathNotFound pathToFile)
         | Some getSpec \<Rightarrow> getSpec ())"

definition GetSpec :: "('e, 't) spec_libs \<Rightarrow> (unit \<Rightarrow> 'e spec_error + string) \<Rightarrow> 'e spec_error + 't" where
  "GetSpec libs rawSpec =
     (let resolvePath = PathToRawSpec rawSpec []
      in case rawSpec () of
           Inl err \<Rightarrow> Inl err
         | Inr specData \<Rightarrow> slLoadFromData libs True (readFromURI resolvePath) specData)"

definition core_GetSpecJSON :: "('e, 't) spec_libs \<Rightarrow> 'e spec_error + string" where
  "core_GetSpecJSON libs = decodeSpecCached libs core_swaggerSpec ()"

definition core_GetSpec :: "('e, 't) spec_libs \<Rightarrow> 'e spec_error + 't" where
  "core_GetSpec libs = GetSpec libs (decodeSpecCached libs core_swaggerSpec)"

definition core_GetSwagger :: "('e, 't) spec_libs \<Rightarrow> 'e spec_error + 't" where
  "core_GetSwagger libs = core_GetSpec libs"

definition backendapi_GetSpecJSON :: "('e, 't) spec_libs \<Rightarrow> 'e spec_error + string" where
  "backendapi_GetSpecJSON libs = decodeSpecCached libs backendapi_swaggerSpec ()"

definition backendapi_GetSpec :: "('e, 't) spec_libs \<Rightarrow> 'e spec_error + 't" where
  "backendapi_GetSpec libs =
     (let rawSpec = decodeSpecCached libs backendapi_swaggerSpec;
          resolvePath = PathToRawSpec rawSpec []
      in case rawSpec () of
           Inl err \<Rightarrow> Inl err
         | Inr specData \<Rightarrow> slLoadFromData libs True (readFromURI resolvePath) specData)"

definition backendapi_GetSwagger :: "('e, 't) spec_libs \<Rightarrow> 'e spec_error + 't" where
  "backendapi_GetSwagger libs = backendapi_GetSpec libs"

text \<open>External references are allowed, but none can be resolved: there is no file to read.\<close>

lemma no_external_references: "readFromURI (PathToRawSpec rawSpec []) url = Inl (PathNotFound (path_Clean url))"
  by (simp add: readFromURI_def PathToRawSpec_def)

lemma path_Clean_samples:
  "path_Clean [] = ''.''" "path_Clean ''a//b/./../c/'' = ''a/c''" "path_Clean ''/../a'' = ''/a''" "path_Clean ''../../a'' = ''../../a''"
  by code_simp+

section \<open>The contract and the servers\<close>

text \<open>
  \<open>openapi.yaml\<close> of both packages: each operation with the statuses that are documented for it, as
  intervals since \<open>5XX\<close> stands for a hundred of them.
\<close>

type_synonym contract = "(string \<times> string \<times> (int \<times> int) list) list"

definition core_contract :: contract where
  "core_contract =
     [(''POST'', ''/events'', [(202, 202), (400, 400), (503, 503)]),
      (''GET'', ''/healthz'', [(200, 200)]),
      (''GET'', ''/readyz'', [(200, 200), (503, 503)]),
      (''POST'', ''/v1/backends/register'', [(204, 204), (400, 400)])]"

definition backend_contract :: contract where
  "backend_contract =
     [(''POST'', ''/notify'', [(200, 200), (400, 400), (500, 599)]),
      (''POST'', ''/thread-reply'', [(204, 204), (400, 400), (500, 599)])]"

text \<open>
  A path \<open>http.ServeMux\<close> routes as it is: any other one is answered with a redirect to its clean form
  before a pattern is looked at. A final slash is kept.
\<close>

definition mux_clean :: "string \<Rightarrow> bool" where
  "mux_clean p \<longleftrightarrow> (case p of [] \<Rightarrow> False
     | c # _ \<Rightarrow> c = CHR ''/'' \<and> (let np = path_Clean p in if last p = CHR ''/'' \<and> np \<noteq> ''/'' then np @ ''/'' else np) = p)"

lemma mux_clean_samples:
  "mux_clean ''/healthz''" "mux_clean ''/healthz/''" "\<not> mux_clean ''//healthz''" "\<not> mux_clean ''/a/../healthz''" "\<not> mux_clean []"
  by code_simp+

text \<open>A HEAD request is answered as GET is; the body is left out.\<close>

definition as_get :: "http_request \<Rightarrow> http_request" where
  "as_get req = (if rqMethod req = ''HEAD'' then req\<lparr>rqMethod := ''GET''\<rparr> else req)"

definition operations :: "contract \<Rightarrow> (string option \<times> string) set" where
  "operations c = set (map (\<lambda>(m, path, ss). (Some m, path)) c)"

definition documented :: "contract \<Rightarrow> http_request \<Rightarrow> int \<Rightarrow> bool" where
  "documented c req status \<longleftrightarrow>
     list_ex (\<lambda>(m, path, ss). m = rqMethod req \<and> path = rqURL req \<and> list_ex (\<lambda>(lo, hi). lo \<le> status \<and> status \<le> hi) ss) c"

abbreviation operation_of :: "contract \<Rightarrow> http_request \<Rightarrow> bool" where
  "operation_of c req \<equiv> (Some (rqMethod (as_get req)), rqURL req) \<in> operations c"

text \<open>What the handlers answer with.\<close>

lemma local_events_status: "rsStatus (fst (local_events decode_error req a)) \<in> {202, 400, 503}"
  by (auto simp: local_events_def receiver_ServeHTTP_def http_error_def accepted_response_def split: prod.split option.split)

lemma local_register_status: "rsStatus (fst (local_register decode_error req a)) \<in> {204, 400}"
  by (auto simp: local_register_def RegisterBackend_def http_error_def no_content_def split: prod.split option.split sum.split)

lemma Handler_Notify_status: "rsStatus (fst (Handler_Notify decode_error h body w)) \<in> {200, 400, 500}"
  by (auto simp: Handler_Notify_def handler_post_def respondNotifyResult_def http_error_def Let_def
      split: option.split prod.split sum.split)

lemma Handler_ThreadReply_status: "rsStatus (fst (Handler_ThreadReply decode_error h body w)) \<in> {204, 400, 500}"
  by (auto simp: Handler_ThreadReply_def no_content_def http_error_def split: option.split prod.split)

lemma core_operations_cases:
  "(Some m, url) \<in> operations core_contract \<longleftrightarrow>
    (m = ''POST'' \<and> (url = ''/events'' \<or> url = ''/v1/backends/register'')) \<or> (m = ''GET'' \<and> (url = ''/healthz'' \<or> url = ''/readyz''))"
  by (auto simp: operations_def core_contract_def)

lemma core_server_refuses:
  assumes "\<not> operation_of core_contract req"
  shows "\<exists>rsp. core_server decode_error cfg get parse forward req a = (Some rsp, a) \<and> rsStatus rsp \<in> {404, 405}"
proof -
  consider "rqURL req \<in> {''/events'', ''/v1/backends/register''}" | "rqURL req \<in> {''/healthz'', ''/readyz''}"
    | "rqURL req \<notin> {''/events'', ''/v1/backends/register'', ''/healthz'', ''/readyz''}" by blast
  then show ?thesis
  proof cases
    case 1
    then have "rqMethod req \<noteq> ''POST''" using assms by (auto simp: core_operations_cases as_get_def)
    with 1 show ?thesis using core_server_probes [of decode_error cfg get parse forward req a]
      by (auto simp: Let_def http_error_def)
  next
    case 2
    with assms have "rqMethod req \<notin> {''GET'', ''HEAD''}" by (auto simp: core_operations_cases as_get_def)
    with 2 show ?thesis by (elim insertE) (simp_all add: core_server_def Let_def Middleware_def core_mux http_error_def)
  next
    case 3
    then show ?thesis using core_server_probes [of decode_error cfg get parse forward req a]
      by (auto simp: Let_def http_error_def)
  qed
qed

lemma core_server_documented:
  assumes "operation_of core_contract req" and "cfLeaderElectionEnabled cfg \<longrightarrow> IsLeader (caElector a)"
  shows "\<exists>rsp. fst (core_server decode_error cfg get parse forward req a) = Some rsp \<and>
    documented core_contract (as_get req) (rsStatus rsp)"
proof (cases "rqMethod req = ''POST''")
  case True
  with assms have url: "rqURL req = ''/events'' \<or> rqURL req = ''/v1/backends/register''"
    by (simp add: core_operations_cases as_get_def)
  have "\<not> (cfLeaderElectionEnabled cfg \<and> \<not> IsLeader (caElector a))" using assms(2) by simp
  note here = core_server_post [OF True url, of decode_error cfg get parse forward a, unfolded with_leader_local [OF this]]
  show ?thesis
    unfolding here using True url local_events_status [of decode_error req a] local_register_status [of decode_error req a]
    by (elim disjE) (auto simp: documented_def core_contract_def as_get_def)
next
  case False
  with assms(1) have "rqMethod req \<in> {''GET'', ''HEAD''}" "rqURL req \<in> {''/healthz'', ''/readyz''}"
    by (auto simp: core_operations_cases as_get_def split: if_splits)
  then show ?thesis using core_server_probes [of decode_error cfg get parse forward req a]
    by (auto simp: Let_def documented_def core_contract_def write_status_def as_get_def)
qed

lemma backend_operations_cases:
  "(Some m, url) \<in> operations backend_contract \<longleftrightarrow> m = ''POST'' \<and> (url = ''/notify'' \<or> url = ''/thread-reply'')"
  by (auto simp: operations_def backend_contract_def)

lemma backend_server_documented:
  assumes "operation_of backend_contract req"
  shows "\<exists>rsp. fst (backend_server decode_error h ready req w) = Some rsp \<and>
    documented backend_contract (as_get req) (rsStatus rsp)"
proof -
  have req: "rqMethod req = ''POST''" "rqURL req = ''/notify'' \<or> rqURL req = ''/thread-reply''"
    using assms by (auto simp: backend_operations_cases as_get_def split: if_splits)
  then show ?thesis
    using backend_server_routes [of req decode_error h ready w]
      Handler_Notify_status [of decode_error h "rqBody req" w] Handler_ThreadReply_status [of decode_error h "rqBody req" w]
    by (auto simp: backend_contract_def documented_def as_get_def)
qed

text \<open>The probes of a backend are not in its contract, and are served for every method.\<close>

lemma backend_server_probes:
  assumes "rqURL req \<in> {''/healthz'', ''/readyz''}"
  shows "\<exists>rsp. backend_server decode_error h ready req w = (Some rsp, w) \<and>
    (rsStatus rsp = 200 \<or> rqURL req = ''/readyz'' \<and> rsStatus rsp = 503)"
  using assms
  by (auto simp: backend_server_def Middleware_def serve_mux_def method_matches_def HealthzHandler_def ReadyzHandler_def
      write_status_def)

lemma backend_server_refuses:
  assumes "\<not> operation_of backend_contract req" and "rqURL req \<notin> {''/healthz'', ''/readyz''}"
  shows "\<exists>rsp. backend_server decode_error h ready req w = (Some rsp, w) \<and> rsStatus rsp \<in> {404, 405}"
proof -
  have "rqMethod req \<noteq> ''POST'' \<or> (rqURL req \<noteq> ''/notify'' \<and> rqURL req \<noteq> ''/thread-reply'')"
    using assms(1) by (auto simp: backend_operations_cases as_get_def)
  with assms(2) show ?thesis
    by (auto simp: backend_server_def backendapi_routes_def Middleware_def serve_mux_def method_matches_def http_error_def)
qed

text \<open>
  C36: The published contract, for every request with a clean path (ServeMux redirects any
  other), HEAD being answered as GET: the generated router of the core has exactly the
  operations of the contract; a core that handles a request itself answers each of them with
  one of its documented statuses, and every core refuses anything else with 404 or 405, without
  any effect. The server of a backend answers the operations of its contract with documented
  statuses, its two probes, which are not in the contract, with 200, or 503 for a readiness
  that is not there yet, and refuses anything else with 404 or 405, without any effect.
\<close>

theorem servers_keep_contract:
  assumes "mux_clean (rqURL req)"
  shows "operations core_contract = patterns (core_routes [] sub hea rea reg) \<and>
   (if operation_of core_contract req
    then (cfLeaderElectionEnabled cfg \<longrightarrow> IsLeader (caElector a)) \<longrightarrow>
      (\<exists>rsp. fst (core_server decode_error cfg get parse forward req a) = Some rsp \<and>
         documented core_contract (as_get req) (rsStatus rsp))
    else \<exists>rsp. core_server decode_error cfg get parse forward req a = (Some rsp, a) \<and> rsStatus rsp \<in> {404, 405}) \<and>
   (if operation_of backend_contract req
    then \<exists>rsp. fst (backend_server decode_error h ready req w) = Some rsp \<and>
      documented backend_contract (as_get req) (rsStatus rsp)
    else if rqURL req \<in> {''/healthz'', ''/readyz''}
    then \<exists>rsp. backend_server decode_error h ready req w = (Some rsp, w) \<and>
      (rsStatus rsp = 200 \<or> rqURL req = ''/readyz'' \<and> rsStatus rsp = 503)
    else \<exists>rsp. backend_server decode_error h ready req w = (Some rsp, w) \<and> rsStatus rsp \<in> {404, 405})"
proof -
  have "operations core_contract = patterns (core_routes [] sub hea rea reg)"
    by (auto simp: operations_def core_contract_def core_routes_def)
  then show ?thesis
    by (simp only: simp_thms if_bool_eq_conj)
      (blast intro: core_server_documented core_server_refuses backend_server_documented backend_server_probes backend_server_refuses)
qed

text \<open>
  Two statuses differ from the contract: no readiness probe of the core is answered with 503, and a
  replica that knows no leader answers a registration with 503.
\<close>

lemma readyz_never_unavailable:
  "rqURL req = ''/readyz'' \<Longrightarrow> fst (core_server decode_error cfg get parse forward req a) = Some rsp \<Longrightarrow> rsStatus rsp \<noteq> 503"
  by (auto simp: core_server_def Let_def Middleware_def ReadyzHandler_def write_status_def http_error_def core_mux(4) split: if_splits)

lemma registration_without_leader:
  assumes "cfLeaderElectionEnabled cfg" and "\<not> IsLeader (caElector a)" and "fst (main_leaderAddr get cfg a) = None"
    and "rqMethod req = ''POST''" and "rqURL req = ''/v1/backends/register''"
  shows "fst (core_server decode_error cfg get parse forward req a) = Some (http_error ''no leader currently known'' 503) \<and>
    \<not> documented core_contract req 503"
  using assms core_server_post [of req decode_error cfg get parse forward a]
  by (auto simp: with_leader_def proxy_follower documented_def core_contract_def split: prod.splits)

lemma servers_keep_contract_witness:
  "\<exists>rsp. fst (core_server (\<lambda>s. s) (sample_config\<lparr>cfLeaderElectionEnabled := False\<rparr>) sample_get sample_owner (\<lambda>u req w. (no_content, w))
      (sample_request\<lparr>rqMethod := ''POST'', rqURL := ''/v1/backends/register'', rqBody := ''{}''\<rparr>) sample_app) = Some rsp \<and>
    (rsStatus rsp = 204 \<or> rsStatus rsp = 400)"
proof -
  let ?req = "sample_request\<lparr>rqMethod := ''POST'', rqURL := ''/v1/backends/register'', rqBody := ''{}''\<rparr>"
  have op: "operation_of core_contract ?req"
    by (simp add: operations_def core_contract_def as_get_def)
  have "mux_clean ''/v1/backends/register''" by code_simp
  then have clean: "mux_clean (rqURL ?req)" by simp
  from servers_keep_contract [OF clean, where sub = "\<lambda>r w :: unit. (None, w)" and hea = "\<lambda>r w. (None, w)" and rea = "\<lambda>r w. (None, w)"
      and reg = "\<lambda>r w. (None, w)" and cfg = "sample_config\<lparr>cfLeaderElectionEnabled := False\<rparr>"
      and a = sample_app and decode_error = "\<lambda>s. s" and get = sample_get and parse = sample_owner
      and forward = "\<lambda>u req w. (no_content, w)" and h = "slack_handler (sample_client 0)" and ready = "\<lambda>w. True" and w = 0] op
  obtain rsp where rsp: "fst (core_server (\<lambda>s. s) (sample_config\<lparr>cfLeaderElectionEnabled := False\<rparr>) sample_get sample_owner
      (\<lambda>u req w. (no_content, w)) ?req sample_app) = Some rsp" "documented core_contract (as_get ?req) (rsStatus rsp)"
    by auto
  then have "rsStatus rsp = 204 \<or> rsStatus rsp = 400" by (auto simp: documented_def core_contract_def as_get_def)
  with rsp(1) show ?thesis by blast
qed

end
