(* ===== verification/JsonFuel.thy ===== *)
theory JsonFuel
  imports Wire
begin

text \<open>
  The decoder of \<open>encoding/json\<close> needs no fuel in the code. Here the reader has some, and this theory
  shows that it never runs out: what a parser leaves is shorter than what it was given, so twice the
  length of the text is enough, and more fuel changes nothing.
\<close>

section \<open>What a parser leaves is shorter\<close>

lemma parse_string_length: "parse_string s = Some (t, r) \<Longrightarrow> length r < length s"
proof (induction s arbitrary: t r rule: parse_string.induct)
  case (1 s)
  show ?case
  proof (cases s)
    case Nil
    with 1(4) show ?thesis by (simp add: parse_string.simps [of "[]"])
  next
    case (Cons c s')
    with 1(4) show ?thesis
      using 1(1-3)
      by (fastforce simp: parse_string_Cons dest: parse_escape_length split: if_splits option.splits)
  qed
qed

lemma parse_number_length: "parse_number s = Some (t, r) \<Longrightarrow> length r < length s"
proof -
  have fraction: "parse_fraction s = Some (f, r) \<Longrightarrow> length r \<le> length s" for s f r
    by (auto simp: parse_fraction_def Let_def split: list.splits if_splits)
  have expo: "parse_exponent s = Some (f, r) \<Longrightarrow> length r \<le> length s" for s f r
    by (auto simp: parse_exponent_def Let_def split: list.splits if_splits)
  assume p: "parse_number s = Some (t, r)"
  define sign where "sign = (case s of [] \<Rightarrow> [] | c # _ \<Rightarrow> if c = CHR ''-'' then [c] else [])"
  define r0 where "r0 = drop (length sign) s"
  define ds where "ds = (case r0 of [] \<Rightarrow> [] | c # _ \<Rightarrow> if c = CHR ''0'' then [c] else takeWhile is_digit r0)"
  from p obtain f r1 e where steps: "ds \<noteq> []" "parse_fraction (drop (length ds) r0) = Some (f, r1)" "parse_exponent r1 = Some (e, r)"
    unfolding parse_number_def Let_def sign_def [symmetric] r0_def [symmetric] ds_def [symmetric]
    by (auto split: option.splits if_splits)
  have "length ds \<le> length r0" by (auto simp: ds_def length_takeWhile_le split: list.split)
  with steps(1) have "length (drop (length ds) r0) < length r0" by (cases ds) auto
  also have "length r0 \<le> length s" by (simp add: r0_def)
  finally show ?thesis using fraction [OF steps(2)] expo [OF steps(3)] by linarith
qed

lemma skip_ws_ConsD: "skip_ws s = c # r \<Longrightarrow> length r < length s"
  using length_dropWhile_le [of json_space s] by simp

lemma parse_literal_length: "parse_literal word j s = Some (j', r) \<Longrightarrow> word \<noteq> [] \<Longrightarrow> length r < length s"
  by (cases s) (auto simp: parse_literal_def split: if_splits)

lemma rest_shorter:
  "parse_value n d s = Some (j, r) \<Longrightarrow> length r < length s"
  "parse_elems n d s = Some (js, r) \<Longrightarrow> length r < length s"
  "parse_members n d s = Some (kvs, r) \<Longrightarrow> length r < length s"
proof (induction n d s and n d s and n d s arbitrary: j r and js r and kvs r
      rule: parse_value_parse_elems_parse_members.induct)
  case (2 n d s)
  show ?case
  proof (cases "skip_ws s")
    case Nil
    with 2(3) show ?thesis by simp
  next
    case (Cons c s')
    note shorter = skip_ws_ConsD [OF Cons]
    show ?thesis
    proof (cases "skip_ws s'")
      case Nil
      show ?thesis
        using 2(3) shorter unfolding parse_value.simps Cons list.case Nil
        by (auto dest!: parse_string_length parse_number_length parse_literal_length split: if_splits)
    next
      case (Cons x s'')
      note shorter' = skip_ws_ConsD [OF Cons]
      have elems: "length r < length s'"
        if "c = CHR ''[''" "d \<noteq> 0" "x \<noteq> CHR '']''" "parse_elems n (d - 1) s' = Some (js, r)" for js
        using 2(1) [OF \<open>skip_ws s = c # s'\<close> that(1,2) Cons that(3,4)] .
      have members: "length r < length s'"
        if "c = CHR ''{''" "d \<noteq> 0" "x \<noteq> CHR ''}''" "parse_members n (d - 1) s' = Some (kvs, r)" for kvs
        using 2(2) [OF \<open>skip_ws s = c # s'\<close> _ that(1,2) Cons that(3,4)] that(1) by simp
      show ?thesis
        using 2(3) \<open>skip_ws s = c # s'\<close> Cons shorter shorter'
        by (auto dest!: elems members parse_string_length parse_number_length parse_literal_length split: if_splits)
    qed
  qed
next
  case (4 n d s)
  from 4(3) obtain j' r' c s' where steps: "parse_value n d s = Some (j', r')" "skip_ws r' = c # s'"
    by (auto split: option.splits list.splits)
  have "length r' < length s" "length s' < length r'" using 4(1) steps(1) skip_ws_ConsD [OF steps(2)] by auto
  with 4 steps show ?case by (fastforce split: if_splits)
next
  case (6 n d s)
  from 6(3) obtain q s1 k s2 c s3 j' s4 c' s5 where steps: "skip_ws s = q # s1" "q = CHR 0x22" "parse_string s1 = Some (k, s2)"
    "skip_ws s2 = c # s3" "c = CHR '':''" "parse_value n d s3 = Some (j', s4)" "skip_ws s4 = c' # s5"
    by (auto split: option.splits list.splits if_splits)
  have "length s4 < length s3" using 6(1) [OF steps(1) _ steps(3) _ steps(4) _ steps(6)] steps by auto
  with skip_ws_ConsD [OF steps(1)] parse_string_length [OF steps(3)] skip_ws_ConsD [OF steps(4)] skip_ws_ConsD [OF steps(7)]
  have "length s5 < length s" "length s5 < length s" by linarith+
  with 6 steps show ?case by (fastforce split: if_splits)
qed simp_all


text \<open>More fuel than twice the length changes nothing.\<close>

lemma fuel_step:
  "2 * length s < n \<Longrightarrow> parse_value (Suc n) d s = parse_value n d s"
  "2 * length s + 1 < n \<Longrightarrow> parse_elems (Suc n) d s = parse_elems n d s"
  "2 * length s < n \<Longrightarrow> parse_members (Suc n) d s = parse_members n d s"
proof (induction n d s and n d s and n d s rule: parse_value_parse_elems_parse_members.induct)
  case (2 n d s)
  have elems: "parse_elems (Suc n) (d - 1) r = parse_elems n (d - 1) r"
    if "skip_ws s = c # r" "c = CHR ''[''" "d \<noteq> 0" "skip_ws r = x # r'" "x \<noteq> CHR '']''" for c r x r'
    using 2(1) [OF that] 2(3) skip_ws_ConsD [OF that(1)] by linarith
  have members: "parse_members (Suc n) (d - 1) r = parse_members n (d - 1) r"
    if "skip_ws s = c # r" "c \<noteq> CHR ''[''" "c = CHR ''{''" "d \<noteq> 0" "skip_ws r = x # r'" "x \<noteq> CHR ''}''" for c r x r'
    using 2(2) [OF that] 2(3) skip_ws_ConsD [OF that(1)] by linarith
  show ?case
    unfolding parse_value.simps(2) [of "Suc n" d s] parse_value.simps(2) [of n d s]
    using elems members
    by (intro list.case_cong refl if_cong) (auto split: list.split)
next
  case (4 n d s)
  have tail: "parse_elems (Suc n) d r' = parse_elems n d r'"
    if "parse_value n d s = Some (j, r)" "skip_ws r = c # r'" "c \<noteq> CHR '']''" "c = CHR '',''" for j r c r'
    using 4(2) [OF that(1) refl that(2-)] 4(3) rest_shorter(1) [OF that(1)] skip_ws_ConsD [OF that(2)] by linarith
  have "parse_value (Suc n) d s = parse_value n d s" using 4 by simp
  then show ?case
    unfolding parse_elems.simps(2) [of "Suc n" d s] parse_elems.simps(2) [of n d s] using tail
    by (auto split: option.split list.split simp del: dropWhile_eq_Nil_conv parse_value.simps parse_elems.simps)
next
  case (6 n d s)
  have steps: "parse_value (Suc n) d r' = parse_value n d r' \<and>
      (parse_value n d r' = Some (j, t) \<longrightarrow> skip_ws t = c' # t' \<longrightarrow> c' \<noteq> CHR ''}'' \<longrightarrow> c' = CHR '','' \<longrightarrow>
        parse_members (Suc n) d t' = parse_members n d t')"
    if "skip_ws s = q # r0" "\<not> q \<noteq> CHR 0x22" "parse_string r0 = Some (k, r)" "skip_ws r = c # r'" "\<not> c \<noteq> CHR '':''"
    for q r0 k r c r' j t c' t'
  proof -
    have shorter: "length r' + 2 < length s"
      using skip_ws_ConsD [OF that(1)] parse_string_length [OF that(3)] skip_ws_ConsD [OF that(4)] by linarith
    then have "parse_value (Suc n) d r' = parse_value n d r'" using 6(1) [OF that(1-3) refl that(4,5)] 6(3) by linarith
    moreover have "parse_members (Suc n) d t' = parse_members n d t'"
      if v: "parse_value n d r' = Some (j, t)" "skip_ws t = c' # t'" "c' \<noteq> CHR ''}''" "c' = CHR '',''"
      using 6(2) [OF \<open>skip_ws s = q # r0\<close> \<open>\<not> q \<noteq> CHR 0x22\<close> \<open>parse_string r0 = Some (k, r)\<close> refl \<open>skip_ws r = c # r'\<close> \<open>\<not> c \<noteq> CHR '':''\<close> v(1) refl v(2-4)]
        6(3) shorter rest_shorter(1) [OF v(1)] skip_ws_ConsD [OF v(2)] by linarith
    ultimately show ?thesis by simp
  qed
  show ?case
    unfolding parse_members.simps(2) [of "Suc n" d s] parse_members.simps(2) [of n d s] using steps
    by (auto split: option.split list.split simp del: dropWhile_eq_Nil_conv parse_value.simps parse_members.simps)
qed simp_all

lemma fuel_irrelevant:
  assumes "2 * length s < n" and "2 * length s < m"
  shows "parse_value n d s = parse_value m d s"
proof -
  have "parse_value (2 * length s + 1 + k) d s = parse_value (2 * length s + 1) d s" for k
    by (induction k) (simp_all add: fuel_step(1) del: parse_value.simps)
  from this [of "n - (2 * length s + 1)"] this [of "m - (2 * length s + 1)"] assms show ?thesis by simp
qed

section \<open>The decoders\<close>

text \<open>
  The JSON decoders never run out of fuel: with any larger amount of it than they use,
  reading a request body or a response yields the same result, so a refusal is always a refusal
  of the text and never a reader that gave up.
\<close>

lemma json_decoders_terminate:
  "decode_body dec zero body =
     (let s = take maxBodyBytes body in
      case parse_value (2 * length s + 1 + k) max_depth s of None \<Rightarrow> None | Some (j, r) \<Rightarrow> dec j zero) \<and>
   json_unmarshal body = (case parse_value (2 * length body + 1 + k) max_depth body of None \<Rightarrow> None
     | Some (j, r) \<Rightarrow> if skip_ws r = [] then Some j else None)"
proof -
  have decode: "json_decode s = map_option fst (parse_value (2 * length s + 1 + k) max_depth s)" for s
    using fuel_irrelevant [of s "2 * length s + 2" "2 * length s + 1 + k" max_depth]
    by (simp add: json_decode_def del: parse_value.simps)
  have unmarshal: "json_unmarshal body = (case parse_value (2 * length body + 1 + k) max_depth body of None \<Rightarrow> None
     | Some (j, r) \<Rightarrow> if skip_ws r = [] then Some j else None)"
    using fuel_irrelevant [of body "2 * length body + 2" "2 * length body + 1 + k" max_depth]
    by (simp add: json_unmarshal_def del: parse_value.simps)
  show ?thesis
    unfolding decode_body_def decode Let_def using unmarshal
    by (auto split: option.split simp del: parse_value.simps)
qed

end
