(* ===== verification/Spec2Isabelle.thy ===== *)
theory Spec2Isabelle
  imports SampleRun Contract JsonFuel
begin

text \<open>
  argocd-notifier receives the trigger events of ArgoCD applications, debounces them per group,
  and sends one message per backend and recipient for each rollout, which later batches edit in
  place. It is two programs: the core (\<open>cmd/argocd-notifier\<close>) and a backend that posts to Slack
  (\<open>cmd/slack-backend\<close>), which registers itself at the core and is called by it over HTTP.

  The way of an event: \<open>receiver.Handler.ServeHTTP\<close> decodes, validates and queues it; a worker
  calls \<open>Engine.Ingest\<close>; a timer callback hands the buckets of a group to \<open>Engine.flush\<close>, which
  splits them by session and calls \<open>SessionPublisher.Upsert\<close>; that groups the applications of the
  session by destination, lets \<open>notification.Build\<close> make a message, and asks the resolver for
  the backend; \<open>remotebackend.Backend.Notify\<close> posts the message to the address in the registry;
  \<open>slackbackend.Handler.Notify\<close> reads it and edits or posts through \<open>slack.Client\<close>, which renders
  it; the reference of the message travels back and is stored in the session. With leader
  election every replica accepts requests and forwards them to the leader.

  Theories, in the order of the imports:

  \<^item> Prelude: Go maps as association lists (\<open>gomap\<close>, in the order in which \<open>range\<close> visits them),
    strings, saturating time differences, the collections of hints.
  \<^item> Event, Notification (\<open>internal/event\<close>, \<open>internal/notification\<close>): the event and \<open>Validate\<close>, the
    item builders and \<open>Build\<close>, and that the order of a map does not show in a message.
  \<^item> Engine (\<open>internal/aggregator/engine.go\<close>, clock.go): \<open>Ingest\<close>, \<open>onTimerFire\<close> and \<open>flush\<close> with a
    clock whose timers expire, and whose callbacks wait for the lock, as separate steps of a
    relation. Invariants over all interleavings: exactly-once, the hard cap, generations.
  \<^item> Session, Delivery (session.go, resolver.go): \<open>Upsert\<close> split at its two locked sections; what
    a session holds, what is sent for it, and the histories of calls. The interface to the
    engine is the locale \<open>publisher\<close>.
  \<^item> Json, Wire: \<open>encoding/json\<close> on UTF-8 bytes, proved to read back what it writes; the structs of
    \<open>api/backendapi\<close> and \<open>api/core\<close> and the conversions of both sides.
  \<^item> Registry, RemoteBackend (\<open>internal/registry\<close>, \<open>internal/remotebackend\<close>): registrations with
    their TTL behind the locale \<open>registration_store\<close>, and the calls to a registered backend.
  \<^item> SlackRender, SlackClient (\<open>internal/slack\<close>): the built-in renderer, the template renderer and
    the file watcher behind the locale \<open>renderer\<close>; request bodies, references and retries.
  \<^item> Httpx, SlackBackend (\<open>internal/httpx\<close>, \<open>internal/slackbackend\<close>): the multiplexer, the handlers,
    the registrar, and the refinement of the notify contract by the backend process.
  \<^item> CoreApi, Receiver (\<open>api/core\<close>, \<open>internal/receiver\<close>): the published contract, the endpoint, the
    bounded channel and the workers as a step relation.
  \<^item> Leader (\<open>internal/leader\<close>, \<open>internal/leaderproxy\<close>): callbacks, address cache, proxy, and a
    cluster of replicas.
  \<^item> Config (\<open>internal/config\<close>, \<open>internal/logging\<close>, the configuration of the backend) and App (the
    two \<open>main\<close> packages): validation, wiring, the server, and the way from endpoint to publisher.
  \<^item> ApiClient, ApiServer (\<open>api/core\<close>, \<open>api/backendapi\<close>): the generated clients with their options,
    editors and parsed responses, and the generated routers with their middlewares; the short
    models of RemoteBackend, SlackBackend and App are proved to be the generated code as the
    program uses it, and an event is followed from a client into the channel of the core.
  \<^item> JsonFuel, Utf8, Typing: that the JSON reader never runs out of fuel, that it yields valid UTF-8
    and typed structs, and which operations keep strings valid; a message is, unless \<open>Build\<close> cuts a
    text inside a character.
  \<^item> Marshal: what a reader gets of a message whatever bytes its texts hold: the message with those
    that are no UTF-8 replaced by U+FFFD. The theorems from the core to Slack rest on it, so they
    need no condition on the texts.
  \<^item> Process, Lifecycle (\<open>cmd/argocd-notifier\<close> with everything it runs): server, channel, workers,
    timers, the goroutines of \<open>flush\<close>, the locked sections of \<open>Upsert\<close>, backends, election, signal and
    shutdown as one step relation. Invariants over all interleavings account for every accepted event
    and trace every message back to them; no state is stuck before a signal, and a signal loses
    accepted events.
  \<^item> Notifier: what the core promises without its parts, an abstract notifier with a clock that keeps
    pending events, stored batches with the views of their sessions and their times, and calls; a
    batch is stored on the view of its session, or on an empty one exactly when the session is new or
    its TTL has passed. A forward simulation shows that every step of the process is a run of it.
  \<^item> Startup (the two functions \<open>main\<close>): where they exit or panic, and that what runs otherwise is the
    process of the theories before; the profiling server.
  \<^item> SlackProcess (\<open>cmd/slack-backend\<close> with everything it runs): ticks of the registrar and the
    watcher, requests, signal, shutdown and exit as a step relation; when it is ready, and which
    renderer its messages get.
  \<^item> Deployment: the core process with a started Slack backend behind the address in its registry;
    what a flush goroutine sends arrives at the Slack client, and the reference comes back.
  \<^item> SampleRun: a run of both programs from the registration of the backend to a message posted to
    Slack, whose states are the witnesses of the properties of the process.
  \<^item> Contract (\<open>api/core\<close>, \<open>api/backendapi\<close>): the rest of the generated packages, and the operations
    and statuses of \<open>openapi.yaml\<close> compared with what the servers answer, for every method and every
    path that \<open>ServeMux\<close> does not redirect.
  \<^item> This theory: what holds of the engine and the session store together, and what the order of a
    \<open>range\<close> over the buckets decides.

  Conventions. A record per struct, a datatype per set of sentinel errors; \<open>errors.Join\<close> is a list;
  a result with an error is a sum; the world outside is passed through every call that reaches
  it. Durations are integers, saturating where \<open>time.Sub\<close> does, and 64-bit words in the backoff.
  Times are monotone clock readings. Two bounds of the JSON reader are those of the code: one
  megabyte per body, and 10000 levels of nesting; its fuel, twice the length of the text, is
  enough for every text, which \<open>JsonFuel\<close> proves. The number of hops
  in the cluster is arbitrary. The attempts of the Slack client are counted without a bound, where
  Go counts them in 64 bits.

  Parameters, about which nothing is assumed beyond the hypotheses of a theorem: the HTTP
  exchange and \<open>net/url\<close>, \<open>httputil.ReverseProxy\<close>, \<open>text/template\<close> with Sprig, SHA-256, the time
  format, the texts of decoding errors, the Kubernetes API and client-go's elector, envconfig.

  Not modelled: what log lines contain. In the two processes a request that an own handler answers is
  one step, as is a call of a backend; the locked sections of \<open>Upsert\<close> are steps of their own. In the
  generated packages the decoders of base64 and deflate and the loader of kin-openapi are parameters:
  only the accessors of the embedded specification call them, and no code of the programs calls
  those. When a JSON object repeats the key of an array, Go decodes
  the second array into the elements of the first; here they start empty. \<open>ServeMux\<close> is modelled
  without wildcards and for paths that are already clean (\<open>mux_clean\<close> in Contract): the redirect of
  another path is not modelled.
\<close>

section \<open>The engine and the session store together\<close>

text \<open>
  Publishing any batch a reachable engine has flushed keeps the session store well formed:
  per-app entries belong to their session and app, sessions have distinct addresses, maps have
  distinct keys.
\<close>

lemma engine_keeps_store:
  assumes "reachable cfg s" and "(g, bs) \<in> set (esFlushed s)" and "publisher_ok cfg (fst st)"
  shows "publisher_ok cfg (fst (snd (flush (publish deps clock_now) cfg g bs st)))"
proof -
  have "bucket_ok g bs" using reachable_inv [OF assms(1)] assms(2) by (auto simp: fifo_inv_def)
  with assms(3) show ?thesis by (rule store.flush_inv)
qed

lemma engine_keeps_store_witness:
  "publisher_ok sample_cfg (fst (snd (flush (publish (sample_deps ''drop'') int) sample_cfg ''g''
     [(''on-created'', [created])] (newSessionPublisher, 1))))"
proof -
  have "(''g'', [(''on-created'', [created])]) \<in> set (esFlushed sample_quiet)" by code_simp
  then show ?thesis
    by (intro engine_keeps_store [OF reachable_run [OF sample_arrived_reachable sample_run]]) simp_all
qed

section \<open>The order of the buckets\<close>

text \<open>
  With combined triggers the buckets of one revision belong to one session, and the last event
  of the bucket that the \<open>range\<close> loop of \<open>flush\<close> visits last is the one the session keeps.
\<close>

text \<open>What a session of a store holds for an app.\<close>

definition session_app :: "session_publisher \<Rightarrow> session_key \<Rightarrow> string \<Rightarrow> event option" where
  "session_app sp key a = Option.bind (map_of (spSessions sp) key) (\<lambda>st. map_of (stPerApp st) a)"

lemma publish_sessions:
  assumes "publisher_ok cfg (fst s)" and "evs \<noteq> []" and "\<forall>ev \<in> set evs. in_session cfg key ev"
  shows "publisher_ok cfg (fst (snd (publish deps clock_now key evs s)))"
    and "k \<noteq> key \<Longrightarrow> session_app (fst (snd (publish deps clock_now key evs s))) k a = session_app (fst s) k a"
    and "app_events a evs \<noteq> [] \<Longrightarrow> \<exists>e. session_app (fst (snd (publish deps clock_now key evs s))) key a = Some e \<and>
      same_content (spSha256Hex deps) e (last (app_events a evs))"
proof -
  obtain d sp' where up: "Upsert deps (clock_now (snd s)) key evs (fst s) (snd s) = (d, sp')" by force
  then have sp': "fst (snd (publish deps clock_now key evs s)) = sp'" by (simp add: publish_def split_beta Let_def)
  show "publisher_ok cfg (fst (snd (publish deps clock_now key evs s)))"
    using publisher_ok_Upsert [OF assms(1,3), of deps "clock_now (snd s)" "snd s"] up by (simp add: sp')
  note eff = Upsert_effect(6) [OF assms(1,2) up]
  show "k \<noteq> key \<Longrightarrow> session_app (fst (snd (publish deps clock_now key evs s))) k a = session_app (fst s) k a"
    by (simp add: session_app_def sp' eff)
  obtain m ds ch where m: "absorbed deps (clock_now (snd s)) key evs (fst s) = (m, ds, ch)" by (metis prod_cases3)
  show "app_events a evs \<noteq> [] \<Longrightarrow> \<exists>e. session_app (fst (snd (publish deps clock_now key evs s))) key a = Some e \<and>
      same_content (spSha256Hex deps) e (last (app_events a evs))"
    using absorb_latest [OF m [unfolded absorbed_def]] by (simp add: session_app_def sp' eff m)
qed

text \<open>Publishing a batch session by session: each session gets its own part, and what it got stays.\<close>

definition parts_ok :: "engine_config \<Rightarrow> (session_key, event list) gomap \<Rightarrow> bool" where
  "parts_ok cfg m \<longleftrightarrow> (\<forall>(key, evs) \<in> set m. evs \<noteq> [] \<and> (\<forall>ev \<in> set evs. in_session cfg key ev))"

lemma parts_ok_Cons [simp]:
  "parts_ok cfg ((key, evs) # m) \<longleftrightarrow> evs \<noteq> [] \<and> (\<forall>ev \<in> set evs. in_session cfg key ev) \<and> parts_ok cfg m"
  by (auto simp: parts_ok_def)

lemma publish_all_other:
  "publisher_ok cfg (fst s) \<Longrightarrow> parts_ok cfg m \<Longrightarrow> key \<notin> fst ` set m \<Longrightarrow>
     session_app (fst (snd (publish_all (publish deps clock_now) m s))) key a = session_app (fst s) key a"
proof (induction m arbitrary: s)
  case (Cons p m)
  obtain k evs where p: "p = (k, evs)" by force
  with Cons.prems have ok: "evs \<noteq> []" "\<forall>ev \<in> set evs. in_session cfg k ev" by simp_all
  from Cons.IH [OF publish_sessions(1) [OF Cons.prems(1) ok, of deps clock_now]] Cons.prems
    publish_sessions(2) [OF Cons.prems(1) ok, of key deps clock_now a]
  show ?case by (simp add: p publish_all_state del: publish_all.simps)
qed simp

lemma publish_all_latest:
  "publisher_ok cfg (fst s) \<Longrightarrow> parts_ok cfg m \<Longrightarrow> gwf m \<Longrightarrow> (key, evs) \<in> set m \<Longrightarrow> app_events a evs \<noteq> [] \<Longrightarrow>
     \<exists>e. session_app (fst (snd (publish_all (publish deps clock_now) m s))) key a = Some e \<and>
       same_content (spSha256Hex deps) e (last (app_events a evs))"
proof (induction m arbitrary: s)
  case (Cons p m)
  obtain k evs' where p: "p = (k, evs')" by force
  with Cons.prems have ok: "evs' \<noteq> []" "\<forall>ev \<in> set evs'. in_session cfg k ev" and rest: "parts_ok cfg m" by simp_all
  note first = publish_sessions [OF Cons.prems(1) ok, where deps = deps and clock_now = clock_now]
  show ?case
  proof (cases "(key, evs) \<in> set m")
    case True
    from Cons.IH [OF first(1) rest _ True Cons.prems(5)] Cons.prems(3) show ?thesis by (simp add: p publish_all_state del: publish_all.simps)
  next
    case False
    with Cons.prems(4) have eq: "k = key" "evs' = evs" by (simp_all add: p)
    then have "key \<notin> fst ` set m" using Cons.prems(3) by (simp add: p)
    from publish_all_other [OF first(1) rest this, of deps clock_now a] first(3) [of a] Cons.prems(5) eq
    show ?thesis by (simp add: p publish_all_state del: publish_all.simps)
  qed
qed simp

text \<open>The events of a bucket with a revision.\<close>

definition of_revision :: "string \<Rightarrow> event list \<Rightarrow> event list" where
  "of_revision r evs = filter (\<lambda>ev. evRevision ev = r) evs"

definition revision_key :: "string \<Rightarrow> string \<Rightarrow> session_key" where
  "revision_key g r = \<lparr>skGroupKey = g, skRevision = r, skTrigger = []\<rparr>"

lemma bucket_of_key:
  "ecCombineTriggers cfg \<Longrightarrow> batch_of_key cfg g (bs @ [(t, evs)]) (revision_key g r) =
     batch_of_key cfg g bs (revision_key g r) @ of_revision r evs"
  by (simp add: batch_of_key_def of_revision_def session_key_of_def revision_key_def)

lemma last_bucket_wins:
  assumes "bucket_ok g bs" and "ecCombineTriggers cfg" and "publisher_ok cfg sp"
    and "(t, evs) \<in> set bs" and "app_events a (of_revision r evs) \<noteq> []"
  shows "\<exists>bs' e. mset bs' = mset bs \<and>
    session_app (fst (snd (flush (publish deps clock_now) cfg g bs' (sp, w)))) (revision_key g r) a = Some e \<and>
    same_content (spSha256Hex deps) e (last (app_events a (of_revision r evs)))"
proof -
  let ?key = "revision_key g r"
  define bs' where "bs' = remove1 (t, evs) bs @ [(t, evs)]"
  have perm: "mset bs' = mset bs" using assms(4) by (simp add: bs'_def)
  have ok: "bucket_ok g bs'"
    using assms(1) gwf_perm [OF perm] map_of_perm [OF perm] by (simp add: bucket_ok_def)
  have batch: "batch_of_key cfg g bs' ?key = batch_of_key cfg g (remove1 (t, evs) bs) ?key @ of_revision r evs"
    unfolding bs'_def by (rule bucket_of_key [OF assms(2)])
  then have last: "app_events a (batch_of_key cfg g bs' ?key) \<noteq> []"
      "last (app_events a (batch_of_key cfg g bs' ?key)) = last (app_events a (of_revision r evs))"
    using assms(5) by (simp_all add: app_events_def)
  then have "batch_of_key cfg g bs' ?key \<noteq> []" by (auto simp: app_events_def)
  then have mem: "(?key, batch_of_key cfg g bs' ?key) \<in> set (sessionize cfg g bs')"
    using sessionize_split [of cfg g bs'] by (simp add: map_of_SomeD)
  have "parts_ok cfg (sessionize cfg g bs')" unfolding parts_ok_def using sessionize_keys batch_in_session [OF ok] by blast
  moreover have "gwf (sessionize cfg g bs')" using sessionize_split [of cfg g bs'] by simp
  ultimately obtain e where "session_app (fst (snd (flush (publish deps clock_now) cfg g bs' (sp, w)))) ?key a = Some e"
    "same_content (spSha256Hex deps) e (last (app_events a (of_revision r evs)))"
    using publish_all_latest [of cfg "(sp, w)" "sessionize cfg g bs'" ?key _ a deps clock_now] assms(3) mem last
    unfolding flush_def by fastforce
  with perm show ?thesis by blast
qed

text \<open>
  C33: With combined triggers, the order in which the range loop of flush visits the buckets
  decides which event of an app the session keeps. In any batch that a reachable engine has
  flushed, let two buckets hold events of one app and one revision whose last ones differ in
  content: there are an order of the buckets after which the session, in a store that was
  well-formed before, holds for the app the content of the last event of the one, and an order
  after which it holds that of the other.
\<close>

theorem bucket_order_decides:
  assumes "reachable cfg s" and "(g, bs) \<in> set (esFlushed s)" and "ecCombineTriggers cfg" and "publisher_ok cfg sp"
    and "(t1, evs1) \<in> set bs" and "app_events a (of_revision r evs1) \<noteq> []"
    and "(t2, evs2) \<in> set bs" and "app_events a (of_revision r evs2) \<noteq> []"
    and "\<not> same_content (spSha256Hex deps) (last (app_events a (of_revision r evs1))) (last (app_events a (of_revision r evs2)))"
  shows "\<exists>bs1 bs2 e1 e2. mset bs1 = mset bs \<and> mset bs2 = mset bs \<and>
    session_app (fst (snd (flush (publish deps clock_now) cfg g bs1 (sp, w)))) (revision_key g r) a = Some e1 \<and>
    session_app (fst (snd (flush (publish deps clock_now) cfg g bs2 (sp, w)))) (revision_key g r) a = Some e2 \<and>
    same_content (spSha256Hex deps) e1 (last (app_events a (of_revision r evs1))) \<and>
    same_content (spSha256Hex deps) e2 (last (app_events a (of_revision r evs2))) \<and>
    \<not> same_content (spSha256Hex deps) e1 e2"
proof -
  have ok: "bucket_ok g bs" using reachable_inv [OF assms(1)] assms(2) by (auto simp: fifo_inv_def)
  from last_bucket_wins [OF ok assms(3-6), of deps clock_now w] last_bucket_wins [OF ok assms(3,4,7,8), of deps clock_now w] assms(9)
  show ?thesis unfolding same_content_def by metis
qed

definition sample_two :: engine_sys where
  "sample_two = es_arrive sample_cfg deployed sample_arrived"

definition sample_two_timer :: timer where
  "sample_two_timer = \<lparr>tmId = 2, tmDeadline = 10, tmGroup = ''g'', tmGen = 0\<rparr>"

definition sample_both :: engine_sys where
  "sample_both = es_callback (''g'', 0) (es_expire sample_two_timer (es_tick 10 sample_two))"

lemma sample_both_reachable: "reachable sample_cfg sample_both"
proof -
  have "sample_two_timer \<in> set (clkArmed (es_clock (es_tick 10 sample_two)))"
    "tmDeadline sample_two_timer \<le> clkNow (es_clock (es_tick 10 sample_two))"
    "(''g'', 0) \<in> set (esInflight (es_expire sample_two_timer (es_tick 10 sample_two)))" by code_simp+
  then have steps: "engine_step sample_cfg sample_arrived sample_two"
    "engine_step sample_cfg sample_two (es_tick 10 sample_two)"
    "engine_step sample_cfg (es_tick 10 sample_two) (es_expire sample_two_timer (es_tick 10 sample_two))"
    "engine_step sample_cfg (es_expire sample_two_timer (es_tick 10 sample_two)) sample_both"
    by (simp_all add: sample_two_def sample_both_def engine_step.intros)
  have "engine_run sample_cfg sample_arrived sample_both"
    by (rule run_step [OF run_step [OF run_step [OF run_step [OF run_refl]]]]) (rule steps)+
  then show ?thesis by (rule reachable_run [OF sample_arrived_reachable])
qed

lemma bucket_order_decides_witness:
  "\<exists>bs1 bs2 e1 e2. mset bs1 = mset bs2 \<and>
     session_app (fst (snd (flush (publish (sample_deps ''drop'') int) sample_cfg ''g'' bs1 (newSessionPublisher, 0)))) sample_key ''a'' = Some e1 \<and>
     session_app (fst (snd (flush (publish (sample_deps ''drop'') int) sample_cfg ''g'' bs2 (newSessionPublisher, 0)))) sample_key ''a'' = Some e2 \<and>
     same_content (\<lambda>s. s) e1 created \<and> same_content (\<lambda>s. s) e2 deployed"
proof -
  have facts: "(''g'', [(''on-created'', [created]), (''on-deployed'', [deployed])]) \<in> set (esFlushed sample_both)"
    "app_events ''a'' (of_revision ''r1'' [created]) = [created]" "app_events ''a'' (of_revision ''r1'' [deployed]) = [deployed]"
    "\<not> same_content (\<lambda>s. s) created deployed" "ecCombineTriggers sample_cfg" "revision_key ''g'' ''r1'' = sample_key" by code_simp+
  let ?bs = "[(''on-created'', [created]), (''on-deployed'', [deployed])]"
  let ?older = "last (app_events ''a'' (of_revision ''r1'' [created]))" and ?newer = "last (app_events ''a'' (of_revision ''r1'' [deployed]))"
  have two: "(''on-created'', [created]) \<in> set ?bs" "app_events ''a'' (of_revision ''r1'' [created]) \<noteq> []"
    "(''on-deployed'', [deployed]) \<in> set ?bs" "app_events ''a'' (of_revision ''r1'' [deployed]) \<noteq> []"
    by (simp_all add: facts(2,3))
  have last: "?older = created" "?newer = deployed" by (simp_all add: facts(2,3))
  then have "\<not> same_content (spSha256Hex (sample_deps ''drop'')) ?older ?newer" using facts(4) by simp
  from bucket_order_decides [OF sample_both_reachable facts(1,5) publisher_ok_new two this, of int 0]
  show ?thesis unfolding last facts(6) sample_fields by metis
qed

end
